(* ===== verification/C_Prelude.thy ===== *)
theory C_Prelude
  imports Main "HOL-Library.Word" "HOL-Library.Monad_Syntax"
begin

unbundle bit_operations_syntax

section \<open>C values, buffers and the facts every component shares\<close>

text \<open>
  The C types of the sources at their widths, memory buffers with bounds-checked accesses,
  big-endian length fields, and the small word and list facts the component theories use.

  A C function that may not return (an out-of-bounds access, a double free, a \<open>recv\<close> that
  blocks for ever) is a HOL function into \<open>option\<close>: \<^term>\<open>None\<close> is "does not return",
  \<^term>\<open>Some r\<close> is a return with the value, the out-parameters and the new world \<open>r\<close>.
  A pointer argument that the code compares with \<open>NULL\<close> is an \<open>option\<close> too.
\<close>

type_synonym byte = "8 word"
type_synonym bytes = "8 word list"
type_synonym uint16 = "16 word"
type_synonym uint64 = "64 word"
type_synonym size_t = "64 word"
type_synonym ptr = "8 word list option"

text \<open>The collections: contracts of C functions, codec facts, and bounds of machine words.\<close>

named_theorems c_mem "reads and writes of buffers"
named_theorems c_len "lengths of encoded data"

subsection \<open>Buffers\<close>

definition rd :: "bytes \<Rightarrow> nat \<Rightarrow> nat \<Rightarrow> bytes option" where
  "rd buf off n = (if off + n \<le> length buf then Some (take n (drop off buf)) else None)"

definition wr :: "bytes \<Rightarrow> nat \<Rightarrow> bytes \<Rightarrow> bytes option" where
  "wr buf off data =
     (if off + length data \<le> length buf
      then Some (take off buf @ data @ drop (off + length data) buf) else None)"

lemma rd_Some [c_mem]: "off + n \<le> length buf \<Longrightarrow> rd buf off n = Some (take n (drop off buf))"
  by (simp add: rd_def)

lemma rd_eq_Some_iff: "rd buf off n = Some d \<longleftrightarrow> off + n \<le> length buf \<and> d = take n (drop off buf)"
  by (auto simp: rd_def)

lemma rd_length: "rd buf off n = Some d \<Longrightarrow> length d = n"
  by (auto simp: rd_eq_Some_iff)

lemma length_4: "length h = 4 \<Longrightarrow> \<exists>a b c d. h = [a, b, c, d]"
  by (auto simp: length_Suc_conv numeral_eq_Suc)

lemma length_5: "length h = 5 \<Longrightarrow> \<exists>a b c d e. h = [a, b, c, d, e]"
  by (auto simp: length_Suc_conv numeral_eq_Suc)

lemma rd_all [simp]: "rd buf 0 (length buf) = Some buf"
  by (simp add: rd_def)

lemma wr_Some [c_mem]:
  "off + length data \<le> length buf \<Longrightarrow>
     wr buf off data = Some (take off buf @ data @ drop (off + length data) buf)"
  by (simp add: wr_def)

lemma wr_eq_Some_iff:
  "wr buf off data = Some b \<longleftrightarrow>
     off + length data \<le> length buf \<and> b = take off buf @ data @ drop (off + length data) buf"
  by (auto simp: wr_def)

lemma wr_length: "wr buf off data = Some b \<Longrightarrow> length b = length buf"
  by (auto simp: wr_eq_Some_iff)

lemma wr_all: "length data = length buf \<Longrightarrow> wr buf 0 data = Some data"
  by (simp add: wr_def)

text \<open>A local array before it is written. Its contents are indeterminate in C; no function of
  the program reads a local array it has not filled, so any contents will do.\<close>

definition local_array :: "nat \<Rightarrow> bytes" where
  "local_array n = replicate n 0"

lemma length_local_array [simp]: "length (local_array n) = n"
  by (simp add: local_array_def)

subsection \<open>C string constants\<close>

text \<open>The bytes of a string literal without its terminating NUL: what \<open>strlen\<close> counts.\<close>

definition cstr :: "string \<Rightarrow> bytes" where
  "cstr s = map of_char s"

lemma length_cstr [simp]: "length (cstr s) = length s"
  by (simp add: cstr_def)

lemma of_char_byte_inj: "(of_char c :: byte) = of_char d \<longleftrightarrow> c = d"
proof
  assume "(of_char c :: byte) = of_char d"
  moreover have "unat (of_char x :: byte) = of_char x" for x
  proof -
    have "(of_char x :: byte) = of_nat (of_char x)" by (simp add: of_nat_of_char)
    moreover have "(of_char x :: nat) < 256" by simp
    ultimately show ?thesis by (simp add: unsigned_of_nat take_bit_nat_eq_self)
  qed
  ultimately have "(of_char c :: nat) = of_char d" by metis
  then show "c = d" by simp
qed simp

lemma cstr_inj: "cstr s = cstr t \<longleftrightarrow> s = t"
  by (auto simp: cstr_def inj_map_eq_map inj_def of_char_byte_inj)

subsection \<open>Big-endian length fields\<close>

definition be16 :: "uint16 \<Rightarrow> bytes" where
  "be16 n = [ucast ((drop_bit 8 n) AND 0xff), ucast (n AND 0xff)]"

definition be16_dec :: "byte \<Rightarrow> byte \<Rightarrow> uint16" where
  "be16_dec h l = (push_bit 8 (ucast h)) OR (ucast l)"

definition be24 :: "size_t \<Rightarrow> bytes" where
  "be24 n = [ucast ((drop_bit 16 n) AND 0xff), ucast ((drop_bit 8 n) AND 0xff), ucast (n AND 0xff)]"

definition be24_dec :: "byte \<Rightarrow> byte \<Rightarrow> byte \<Rightarrow> size_t" where
  "be24_dec a b c = (push_bit 16 (ucast a)) OR (push_bit 8 (ucast b)) OR (ucast c)"

lemma and_0xff: "(x :: 'a::len word) AND 0xff = take_bit 8 x"
proof -
  have "(0xff :: 'a word) = mask 8" by (simp add: mask_eq_exp_minus_1)
  then show ?thesis by (simp add: take_bit_eq_mask)
qed

lemma unat_byte_lt: "unat (b :: byte) < 256"
  using unsigned_less [of b] by simp

lemma size_t_lt: "unat (n :: size_t) < 18446744073709551616"
  using unsigned_less [of n, where ?'a = nat] by simp

lemma length_be16 [simp]: "length (be16 n) = 2"
  by (simp add: be16_def)

lemma length_be24 [simp]: "length (be24 n) = 3"
  by (simp add: be24_def)

lemma be24_dec_be24: "be24_dec (be24 n ! 0) (be24 n ! Suc 0) (be24 n ! 2) = take_bit 24 n"
proof (rule bit_word_eqI)
  fix k
  consider "k < (8::nat)" | "8 \<le> k" "k < 16" | "16 \<le> k" by linarith
  then show "bit (be24_dec (be24 n ! 0) (be24 n ! Suc 0) (be24 n ! 2)) k = bit (take_bit 24 n) k"
    unfolding be24_def be24_dec_def and_0xff
    by cases (auto simp: bit_simps dest: bit_imp_le_length)
qed

lemma be16_dec_be16: "be16_dec (be16 n ! 0) (be16 n ! Suc 0) = n"
  unfolding be16_def be16_dec_def and_0xff
  by (rule bit_word_eqI) (auto simp: bit_simps not_less)

lemma be16_dec_unat: "unat (be16_dec h l) = 256 * unat h + unat l"
proof -
  have "be16_dec h l = push_bit 8 (ucast h) + ucast l"
    unfolding be16_dec_def
    by (rule disjunctive_add [symmetric]) (auto simp: bit_simps dest: bit_imp_le_length)
  then show ?thesis using unat_byte_lt [of h] unat_byte_lt [of l]
    by (simp add: unat_word_ariths push_bit_eq_mult unsigned_ucast_eq take_bit_nat_def)
qed

lemma be24_dec_unat: "unat (be24_dec a b c) = 65536 * unat a + 256 * unat b + unat c"
proof -
  have "be24_dec a b c = push_bit 16 (ucast a) + (push_bit 8 (ucast b) + ucast c)"
    unfolding be24_dec_def
    by (subst disjunctive_add, (auto simp: bit_simps dest: bit_imp_le_length)[1])+
       (simp add: or.assoc)
  then show ?thesis using unat_byte_lt [of a] unat_byte_lt [of b] unat_byte_lt [of c]
    by (simp add: unat_word_ariths push_bit_eq_mult unsigned_ucast_eq take_bit_nat_def)
qed

lemma unat_of_nat_size_t: "n < 18446744073709551616 \<Longrightarrow> unat (of_nat n :: size_t) = n"
  by (simp add: unat_of_nat)

lemma word_gt_0_unat: "(0 < (n :: size_t)) = (0 < unat n)"
  by (simp add: word_less_nat_alt)

lemma take_bit_24_id: "n \<le> 0xFFFFFF \<Longrightarrow> take_bit 24 (n::size_t) = n"
  by (simp add: word_unat_eq_iff word_le_nat_alt unsigned_take_bit_eq take_bit_nat_eq_self_iff)

lemma bit_word_beyond: "LENGTH('a) \<le> n \<Longrightarrow> bit (x :: 'a::len word) n \<longleftrightarrow> False"
  by (meson bit_imp_le_length leD)

lemma be16_be16_dec: "be16 (be16_dec h l) = [h, l]"
  unfolding be16_def be16_dec_def and_0xff
  by (auto intro!: bit_word_eqI simp: bit_simps not_less bit_word_beyond)

lemma be24_be24_dec: "be24 (be24_dec a b c) = [a, b, c]"
  unfolding be24_def be24_dec_def and_0xff
  by (auto intro!: bit_word_eqI simp: bit_simps not_less bit_word_beyond)

end
