(* ===== verification/Env.thy ===== *)
theory Env
  imports C_Prelude
begin

section \<open>The environment of the program: sockets, libraries and resources\<close>

text \<open>
  The programs call the operating system (stream sockets, files), OpenSSL and liboqs. Here is
  what they can observe of it.

  \<^item> \<open>world\<close> is the state that calls change: the bytes the peer has delivered and will deliver
    (\<open>inbox\<close>, ended by \<open>peer_closed\<close>), the bytes written (\<open>outbox\<close>), the transfers the
    operating system grants (\<open>io_sched\<close>, one choice per \<open>send\<close> or \<open>recv\<close>), whether a \<open>send\<close>
    raised \<open>SIGPIPE\<close> (\<open>broken_pipe\<close>), the number of calls into libraries so far, the number of draws from the random generator, the live
    handles of each kind, and the files.
  \<^item> \<open>lib\<close> is the code that is not part of the repository, as a parameter: which calls
    succeed (\<open>call_ok\<close>, by the number of the call: any call may fail), the contents of memory
    that was never written, and the functions OpenSSL and liboqs compute. Their documented
    behaviour is stated where it is used, as predicates over a \<open>lib\<close>.
\<close>

subsection \<open>World\<close>

datatype io_choice = Io_error | Io_pipe | Xfer nat

datatype handle =
    H_CIPHER_CTX | H_MD_CTX | H_KDF | H_KDF_CTX | H_LIB_CTX
  | H_MALLOC | H_OQS_MEM | H_FILE | H_SIG | H_KEM | H_SOCKET

record world =
  inbox :: bytes
  peer_closed :: bool
  outbox :: bytes
  io_sched :: "nat \<Rightarrow> io_choice"
  io_calls :: nat
  broken_pipe :: bool
  lib_calls :: nat
  rng :: nat
  live :: "handle \<Rightarrow> nat"
  files :: "string \<Rightarrow> bytes option"

subsection \<open>Stream sockets\<close>

text \<open>
  \<open>send\<close> returns a negative number on an error and otherwise how many bytes it accepted. On a
  connection the peer has closed it raises \<open>SIGPIPE\<close> before it returns -1 with \<open>EPIPE\<close>
  (\<open>Io_pipe\<close>): the programs pass no flags to \<open>send\<close> and install no handler, so the disposition
  they inherit decides. If it is to ignore the signal, \<open>send\<close> returns -1; if it is the default,
  the process ends there. The functions of the model compute the first, and \<open>broken_pipe\<close> records
  that the signal was raised; \<open>process_outcome\<close> below gives what becomes of the process.
  \<open>recv\<close> returns a negative number on an error, 0 once the peer has closed and everything was
  read, and otherwise how many bytes it delivered, at least one. With nothing to read from a
  peer that has not closed it blocks: \<^term>\<open>None\<close>.
\<close>

definition sys_send :: "bytes \<Rightarrow> world \<Rightarrow> int \<times> world" where
  "sys_send data w =
     (case io_sched w (io_calls w) of
        Io_error \<Rightarrow> (- 1, w\<lparr>io_calls := Suc (io_calls w)\<rparr>)
      | Io_pipe \<Rightarrow> (- 1, w\<lparr>io_calls := Suc (io_calls w), broken_pipe := True\<rparr>)
      | Xfer n \<Rightarrow> (let k = min n (length data) in
          (int k, w\<lparr>outbox := outbox w @ take k data, io_calls := Suc (io_calls w)\<rparr>)))"

definition sys_recv :: "nat \<Rightarrow> world \<Rightarrow> (int \<times> bytes \<times> world) option" where
  "sys_recv n w =
     (case io_sched w (io_calls w) of
        Io_error \<Rightarrow> Some (- 1, [], w\<lparr>io_calls := Suc (io_calls w)\<rparr>)
      | Io_pipe \<Rightarrow> Some (- 1, [], w\<lparr>io_calls := Suc (io_calls w)\<rparr>)
      | Xfer m \<Rightarrow>
          if inbox w = [] then
            (if peer_closed w then Some (0, [], w\<lparr>io_calls := Suc (io_calls w)\<rparr>) else None)
          else (let k = min (max 1 m) (min n (length (inbox w))) in
            Some (int k, take k (inbox w),
                  w\<lparr>inbox := drop k (inbox w), io_calls := Suc (io_calls w)\<rparr>)))"

text \<open>How a process ends that ran from \<open>w\<close> to the result \<open>(code, s, w')\<close> of its \<open>main\<close>, given
  whether \<open>SIGPIPE\<close> has its default disposition: killed at the \<open>send\<close> that raised the signal,
  with nothing of \<open>main\<close> after it, or with the exit code of \<open>main\<close>.\<close>

datatype 's outcome = Killed_SIGPIPE | Exited int 's world

definition process_outcome :: "bool \<Rightarrow> world \<Rightarrow> int \<times> 's \<times> world \<Rightarrow> 's outcome" where
  "process_outcome sigpipe_default w r =
     (case r of (code, s, w') \<Rightarrow>
        if sigpipe_default \<and> broken_pipe w' \<and> \<not> broken_pipe w then Killed_SIGPIPE
        else Exited code s w')"

text \<open>A schedule on which no transfer fails: every call moves at least one byte.\<close>

definition io_fine :: "world \<Rightarrow> bool" where
  "io_fine w \<longleftrightarrow> (\<forall>k. \<exists>n. io_sched w k = Xfer (Suc n))"

subsection \<open>Libraries\<close>

datatype kdf_param =
    P_DIGEST string
  | P_KEY bytes
  | P_INFO bytes
  | P_SALT bytes

text \<open>
  The functions of the libraries. \<open>'c\<close> is the content of an \<open>EVP_CIPHER_CTX\<close>, \<open>'m\<close> that of an
  \<open>EVP_MD_CTX\<close>; both are opaque. The \<open>bool\<close> of the cipher calls is true in the
  \<open>EVP_Encrypt...\<close> and false in the \<open>EVP_Decrypt...\<close> variant. Functions that draw random bytes
  take the number of the draw.
\<close>

record ('c, 'm) lib =
  call_ok :: "nat \<Rightarrow> bool"
  uninit :: "nat \<Rightarrow> nat \<Rightarrow> byte"
  io_short :: "nat \<Rightarrow> nat"
  cip_new :: 'c
  cip_select :: "bool \<Rightarrow> 'c \<Rightarrow> 'c"
  cip_ivlen :: "nat \<Rightarrow> 'c \<Rightarrow> 'c"
  cip_key_iv :: "bool \<Rightarrow> bytes \<Rightarrow> bytes \<Rightarrow> 'c \<Rightarrow> 'c"
  cip_aad :: "bool \<Rightarrow> bytes \<Rightarrow> 'c \<Rightarrow> 'c"
  cip_update :: "bool \<Rightarrow> bytes \<Rightarrow> 'c \<Rightarrow> bytes \<times> 'c"
  cip_final :: "'c \<Rightarrow> bytes \<times> 'c"
  cip_get_tag :: "nat \<Rightarrow> 'c \<Rightarrow> bytes"
  cip_set_tag :: "bytes \<Rightarrow> 'c \<Rightarrow> 'c"
  cip_verify :: "'c \<Rightarrow> bytes option"
  md_init :: 'm
  md_update :: "bytes \<Rightarrow> 'm \<Rightarrow> 'm"
  md_final :: "'m \<Rightarrow> bytes"
  md_finalised :: "'m \<Rightarrow> 'm"
  kdf_derive :: "kdf_param list \<Rightarrow> nat \<Rightarrow> bytes"
  hmac_sha256 :: "bytes \<Rightarrow> bytes \<Rightarrow> bytes"
  kem_len_pk :: size_t
  kem_len_sk :: size_t
  kem_len_ct :: size_t
  kem_len_ss :: size_t
  sig_len_pk :: size_t
  sig_len_sk :: size_t
  sig_len_sig :: size_t
  kem_keypair :: "nat \<Rightarrow> bytes \<times> bytes"
  kem_encaps :: "nat \<Rightarrow> bytes \<Rightarrow> bytes \<times> bytes"
  kem_decaps :: "bytes \<Rightarrow> bytes \<Rightarrow> bytes"
  sig_keypair :: "nat \<Rightarrow> bytes \<times> bytes"
  sig_sign :: "nat \<Rightarrow> bytes \<Rightarrow> bytes \<Rightarrow> bytes"
  rand_bytes :: "nat \<Rightarrow> nat \<Rightarrow> bytes"
  sig_verify :: "bytes \<Rightarrow> bytes \<Rightarrow> bytes \<Rightarrow> bool"

text \<open>A call that can fail, the allocation of a handle, and its release (freeing a handle of a
  kind that has none live is undefined behaviour).\<close>

definition ext_call :: "('c, 'm) lib \<Rightarrow> world \<Rightarrow> bool \<times> world" where
  "ext_call L w = (call_ok L (lib_calls w), w\<lparr>lib_calls := Suc (lib_calls w)\<rparr>)"

definition acquire :: "('c, 'm) lib \<Rightarrow> handle \<Rightarrow> world \<Rightarrow> bool \<times> world" where
  "acquire L h w =
     (if call_ok L (lib_calls w)
      then (True, w\<lparr>lib_calls := Suc (lib_calls w), live := (live w)(h := Suc (live w h))\<rparr>)
      else (False, w\<lparr>lib_calls := Suc (lib_calls w)\<rparr>))"

definition release :: "handle \<Rightarrow> world \<Rightarrow> world option" where
  "release h w =
     (if live w h = 0 then None else Some (w\<lparr>live := (live w)(h := live w h - 1)\<rparr>))"

definition fresh_mem :: "('c, 'm) lib \<Rightarrow> nat \<Rightarrow> world \<Rightarrow> bytes" where
  "fresh_mem L n w = map (uninit L (lib_calls w)) [0..<n]"

text \<open>All calls succeed: the hypothesis of the functional theorems about honest runs.\<close>

definition lib_up :: "('c, 'm) lib \<Rightarrow> bool" where
  "lib_up L \<longleftrightarrow> (\<forall>n. call_ok L n)"

lemma length_fresh_mem [simp]: "length (fresh_mem L n w) = n"
  by (simp add: fresh_mem_def)

text \<open>The unfolding of resource calls, for the component proofs.\<close>

named_theorems env_simps "calls into the environment"

lemmas [env_simps] = ext_call_def acquire_def release_def

text \<open>\<open>lib_only w w'\<close>: from \<open>w\<close> to \<open>w'\<close> there were only calls into libraries, and every handle
  acquired was released: nothing leaked, nothing was freed twice.\<close>

definition lib_only :: "world \<Rightarrow> world \<Rightarrow> bool" where
  "lib_only w w' \<longleftrightarrow> (\<exists>n. w' = w\<lparr>lib_calls := n\<rparr>)"

lemma lib_only_refl [simp]: "lib_only w w"
  by (auto simp: lib_only_def intro!: exI [of _ "lib_calls w"])

lemma lib_only_calls [simp]: "lib_only w (w\<lparr>lib_calls := n\<rparr>)"
  by (auto simp: lib_only_def)

lemma lib_only_trans [trans]: "lib_only w w' \<Longrightarrow> lib_only w' w'' \<Longrightarrow> lib_only w w''"
  by (auto simp: lib_only_def)

lemma lib_only_step: "lib_only w w' \<Longrightarrow> lib_only w (w'\<lparr>lib_calls := n\<rparr>)"
  by (auto simp: lib_only_def)

lemma lib_only_frame:
  assumes "lib_only w w'"
  shows "live w' = live w" "inbox w' = inbox w" "outbox w' = outbox w"
    "peer_closed w' = peer_closed w" "io_sched w' = io_sched w" "io_calls w' = io_calls w"
    "files w' = files w" "io_fine w' = io_fine w" "rng w' = rng w" "broken_pipe w' = broken_pipe w"
  using assms by (auto simp: lib_only_def io_fine_def)

lemma lib_only_balanced [simp]: "lib_only w (w\<lparr>lib_calls := n, live := live w\<rparr>)"
  by (auto simp: lib_only_def intro!: exI [of _ n])

end
