(* ===== verification/Sample.thy ===== *)
theory Sample
  imports Env
begin

section \<open>A concrete environment for evaluating the model\<close>

text \<open>
  An executable instance of the parameters of \<open>Env\<close>, on which the witnesses of the theorems
  are evaluated: a library whose calls all succeed and whose functions satisfy the documented
  laws that the theorems assume of OpenSSL and liboqs (the cipher authenticates with a
  16-byte tag that depends on its key, nonce, header and text; the digest has 32 bytes), and
  worlds built from an input stream. The functions are not secure: security is no hypothesis
  of any theorem.
\<close>

definition pad :: "nat \<Rightarrow> bytes \<Rightarrow> bytes" where
  "pad n xs = take n (xs @ replicate n 0)"

lemma length_pad [simp]: "length (pad n xs) = n"
  by (simp add: pad_def)

text \<open>A 16-byte checksum by a rotating sum.\<close>

fun mix :: "bytes \<Rightarrow> bytes \<Rightarrow> bytes" where
  "mix [] acc = acc"
| "mix (x # xs) acc = mix xs (tl acc @ [hd acc + x + 1])"

lemma length_mix: "acc \<noteq> [] \<Longrightarrow> length (mix xs acc) = length acc"
  by (induction xs acc rule: mix.induct) auto

record sample_ctx =
  s_key :: bytes
  s_iv :: bytes
  s_aad :: bytes
  s_data :: bytes
  s_tag :: bytes

definition sample_tag :: "sample_ctx \<Rightarrow> bytes" where
  "sample_tag c = mix (s_key c @ s_iv c @ s_aad c @ s_data c) (replicate 16 7)"

fun sample_param :: "kdf_param \<Rightarrow> bytes" where
  "sample_param (P_DIGEST s) = []"
| "sample_param (P_KEY b) = b"
| "sample_param (P_INFO b) = b"
| "sample_param (P_SALT b) = b"

definition sample_lib :: "(sample_ctx, bytes) lib" where
  "sample_lib = \<lparr>
     call_ok = (\<lambda>_. True),
     uninit = (\<lambda>_ _. 170),
     io_short = (\<lambda>_. 0),
     cip_new = \<lparr>s_key = [], s_iv = [], s_aad = [], s_data = [], s_tag = []\<rparr>,
     cip_select = (\<lambda>_ c. c),
     cip_ivlen = (\<lambda>_ c. c),
     cip_key_iv = (\<lambda>_ k v c. c\<lparr>s_key := k, s_iv := v\<rparr>),
     cip_aad = (\<lambda>_ a c. c\<lparr>s_aad := a\<rparr>),
     cip_update = (\<lambda>_ d c. (d, c\<lparr>s_data := d\<rparr>)),
     cip_final = (\<lambda>c. ([], c)),
     cip_get_tag = (\<lambda>n c. take n (sample_tag c)),
     cip_set_tag = (\<lambda>t c. c\<lparr>s_tag := t\<rparr>),
     cip_verify = (\<lambda>c. if s_tag c = sample_tag c then Some [] else None),
     md_init = [],
     md_update = (\<lambda>d m. m @ d),
     md_final = (\<lambda>m. pad 32 m),
     md_finalised = (\<lambda>m. []),
     kdf_derive = (\<lambda>ps n. pad n (mix (concat (map sample_param ps)) (replicate n 3))),
     hmac_sha256 = (\<lambda>k d. pad 32 (mix (k @ d) (replicate 32 5))),
     kem_len_pk = 2, kem_len_sk = 2, kem_len_ct = 2, kem_len_ss = 2,
     sig_len_pk = 3, sig_len_sk = 3, sig_len_sig = 3,
     kem_keypair = (\<lambda>n. ([1, of_nat n], [1, of_nat n])),
     kem_encaps = (\<lambda>n pk. (pad 2 (map ((+) (of_nat n)) pk), pad 2 (map ((+) (of_nat n)) pk))),
     kem_decaps = (\<lambda>ct sk. pad 2 ct),
     sig_keypair = (\<lambda>n. ([of_nat n, 2, 3], [of_nat n, 2, 3])),
     sig_sign = (\<lambda>n m sk. pad 2 (mix m (replicate 2 1))),
     rand_bytes = (\<lambda>n k. map (\<lambda>i. of_nat (n + i)) [0..<k]),
     sig_verify = (\<lambda>m s pk. s = pad 2 (mix m (replicate 2 1)))
   \<rparr>"

lemma sample_lens [simp]:
  "kem_len_pk sample_lib = 2" "kem_len_sk sample_lib = 2" "kem_len_ct sample_lib = 2" "kem_len_ss sample_lib = 2"
  "sig_len_pk sample_lib = 3" "sig_len_sk sample_lib = 3" "sig_len_sig sample_lib = 3"
  by (simp_all add: sample_lib_def)

lemma sample_oqs [simp]:
  "kem_keypair sample_lib n = ([1, of_nat n], [1, of_nat n])" "kem_decaps sample_lib ct sk = pad 2 ct"
  "kem_encaps sample_lib n pk = (pad 2 (map ((+) (of_nat n)) pk), pad 2 (map ((+) (of_nat n)) pk))"
  "sig_keypair sample_lib n = ([of_nat n, 2, 3], [of_nat n, 2, 3])"
  "sig_sign sample_lib n m k = pad 2 (mix m (replicate 2 1))"
  "sig_verify sample_lib m s pk \<longleftrightarrow> s = pad 2 (mix m (replicate 2 1))"
  by (simp_all add: sample_lib_def)

text \<open>The same library with its calls failing from the \<open>n\<close>-th on.\<close>

definition failing_lib :: "nat \<Rightarrow> (sample_ctx, bytes) lib" where
  "failing_lib n = sample_lib\<lparr>call_ok := (\<lambda>k. k < n)\<rparr>"

definition sample_world :: "bytes \<Rightarrow> world" where
  "sample_world input = \<lparr>inbox = input, peer_closed = True, outbox = [],
     io_sched = (\<lambda>k. Xfer (1 + k mod 3)), io_calls = 0, broken_pipe = False,
     lib_calls = 0, rng = 0, live = (\<lambda>_. 0),
     files = (\<lambda>_. None)\<rparr>"

lemma sample_world_sel [simp]:
  "inbox (sample_world input) = input" "outbox (sample_world input) = []"
  "peer_closed (sample_world input)" "\<not> broken_pipe (sample_world input)" "live (sample_world input) h = 0"
  by (simp_all add: sample_world_def)

lemma sample_lib_up: "lib_up sample_lib"
  by (simp add: lib_up_def sample_lib_def)

lemma sample_world_fine: "io_fine (sample_world input)"
  by (auto simp: io_fine_def sample_world_def)

end
