(* ===== verification/Aes_Gcm.thy ===== *)
theory Aes_Gcm
  imports Env Sample
begin

section \<open>AES-256-GCM (\<open>src/aes_gcm.c\<close>)\<close>

text \<open>
  \<open>aes_gcm_encrypt\<close> and \<open>aes_gcm_decrypt\<close> drive OpenSSL's EVP interface call by call; every
  call may fail, and the context is freed on every path. \<open>gcm_seal\<close> and \<open>gcm_open\<close> are the
  functions these sequences of calls compute when none fails. The record layer relies on them
  through the interface \<open>aead\<close>: opening inverts sealing, and whatever opens was sealed.
\<close>

abbreviation AES_ERROR :: int where "AES_ERROR \<equiv> - 1"
abbreviation AES_GCM_IV_LEN :: nat where "AES_GCM_IV_LEN \<equiv> 12"
abbreviation AES_GCM_TAG_LEN :: nat where "AES_GCM_TAG_LEN \<equiv> 16"
abbreviation AES_256_KEY_LEN :: nat where "AES_256_KEY_LEN \<equiv> 32"

subsection \<open>Operations\<close>

text \<open>The \<open>int\<close> lengths are the values of C's \<open>int\<close>. OpenSSL reads 32 bytes of key and 12 bytes
  of IV, and writes what the update and final calls produce; where an update or the request for the
  tag fails, what was left in its output is not documented: arbitrary bytes, \<open>left\<close>.\<close>

definition aes_gcm_encrypt ::
  "('c, 'm) lib \<Rightarrow> ptr \<Rightarrow> int \<Rightarrow> ptr \<Rightarrow> int \<Rightarrow> ptr \<Rightarrow> ptr \<Rightarrow> ptr \<Rightarrow> ptr \<Rightarrow> world
     \<Rightarrow> (int \<times> ptr \<times> ptr \<times> world) option" where
  "aes_gcm_encrypt L plaintext plaintext_len aad aad_len key iv ciphertext tag w =
     (if plaintext = None \<or> plaintext_len < 0 \<or> aad_len < 0 \<or> (aad_len > 0 \<and> aad = None) \<or>
         key = None \<or> iv = None \<or> ciphertext = None \<or> tag = None
      then Some (AES_ERROR, ciphertext, tag, w)
      else do {
        let (ok, w) = acquire L H_CIPHER_CTX w;
        if \<not> ok then Some (AES_ERROR, ciphertext, tag, w)
        else do {
          let ctx = cip_new L;
          let (ok, w) = ext_call L w;
          if \<not> ok then do { w \<leftarrow> release H_CIPHER_CTX w; Some (AES_ERROR, ciphertext, tag, w) }
          else do {
            let ctx = cip_select L True ctx;
            let (ok, w) = ext_call L w;
            if \<not> ok then do { w \<leftarrow> release H_CIPHER_CTX w; Some (AES_ERROR, ciphertext, tag, w) }
            else do {
              let ctx = cip_ivlen L AES_GCM_IV_LEN ctx;
              let (ok, w) = ext_call L w;
              if \<not> ok then do { w \<leftarrow> release H_CIPHER_CTX w; Some (AES_ERROR, ciphertext, tag, w) }
              else do {
                k \<leftarrow> key;
                k \<leftarrow> rd k 0 AES_256_KEY_LEN;
                v \<leftarrow> iv;
                v \<leftarrow> rd v 0 AES_GCM_IV_LEN;
                let ctx = cip_key_iv L True k v ctx;
                let (ok, w) = (if aad_len > 0 then ext_call L w else (True, w));
                if \<not> ok then do { w \<leftarrow> release H_CIPHER_CTX w; Some (AES_ERROR, ciphertext, tag, w) }
                else do {
                  ctx \<leftarrow> (if aad_len > 0
                          then do { a \<leftarrow> aad; a \<leftarrow> rd a 0 (nat aad_len); Some (cip_aad L True a ctx) }
                          else Some ctx);
                  p \<leftarrow> plaintext;
                  p \<leftarrow> rd p 0 (nat plaintext_len);
                  let (out, ctx) = cip_update L True p ctx;
                  let left = fresh_mem L (nat plaintext_len) w;
                  let (ok, w) = ext_call L w;
                  c \<leftarrow> ciphertext;
                  c \<leftarrow> wr c 0 (if ok then out else left);
                  if \<not> ok then do { w \<leftarrow> release H_CIPHER_CTX w; Some (AES_ERROR, Some c, tag, w) }
                  else do {
                    let ciphertext_len = int (length out);
                    let (ok, w) = ext_call L w;
                    if \<not> ok then do { w \<leftarrow> release H_CIPHER_CTX w; Some (AES_ERROR, Some c, tag, w) }
                    else do {
                      let (fin, ctx) = cip_final L ctx;
                      c \<leftarrow> wr c (length out) fin;
                      let ciphertext_len = ciphertext_len + int (length fin);
                      let left = fresh_mem L AES_GCM_TAG_LEN w;
                      let (ok, w) = ext_call L w;
                      t \<leftarrow> tag;
                      t \<leftarrow> wr t 0 (if ok then cip_get_tag L AES_GCM_TAG_LEN ctx else left);
                      if \<not> ok then do { w \<leftarrow> release H_CIPHER_CTX w; Some (AES_ERROR, Some c, Some t, w) }
                      else do {
                        w \<leftarrow> release H_CIPHER_CTX w;
                        Some (ciphertext_len, Some c, Some t, w)
                      }
                    }
                  }
                }
              }
            }
          }
        }
      })"

definition aes_gcm_decrypt ::
  "('c, 'm) lib \<Rightarrow> ptr \<Rightarrow> int \<Rightarrow> ptr \<Rightarrow> int \<Rightarrow> ptr \<Rightarrow> ptr \<Rightarrow> ptr \<Rightarrow> ptr \<Rightarrow> world
     \<Rightarrow> (int \<times> ptr \<times> world) option" where
  "aes_gcm_decrypt L ciphertext ciphertext_len aad aad_len tag key iv plaintext w =
     (if ciphertext = None \<or> ciphertext_len < 0 \<or> aad_len < 0 \<or> (aad_len > 0 \<and> aad = None) \<or>
         key = None \<or> iv = None \<or> plaintext = None \<or> tag = None
      then Some (AES_ERROR, plaintext, w)
      else do {
        let (ok, w) = acquire L H_CIPHER_CTX w;
        if \<not> ok then Some (AES_ERROR, plaintext, w)
        else do {
          let ctx = cip_new L;
          let (ok, w) = ext_call L w;
          if \<not> ok then do { w \<leftarrow> release H_CIPHER_CTX w; Some (AES_ERROR, plaintext, w) }
          else do {
            let ctx = cip_select L False ctx;
            let (ok, w) = ext_call L w;
            if \<not> ok then do { w \<leftarrow> release H_CIPHER_CTX w; Some (AES_ERROR, plaintext, w) }
            else do {
              let ctx = cip_ivlen L AES_GCM_IV_LEN ctx;
              let (ok, w) = ext_call L w;
              if \<not> ok then do { w \<leftarrow> release H_CIPHER_CTX w; Some (AES_ERROR, plaintext, w) }
              else do {
                k \<leftarrow> key;
                k \<leftarrow> rd k 0 AES_256_KEY_LEN;
                v \<leftarrow> iv;
                v \<leftarrow> rd v 0 AES_GCM_IV_LEN;
                let ctx = cip_key_iv L False k v ctx;
                let (ok, w) = (if aad_len > 0 then ext_call L w else (True, w));
                if \<not> ok then do { w \<leftarrow> release H_CIPHER_CTX w; Some (AES_ERROR, plaintext, w) }
                else do {
                  ctx \<leftarrow> (if aad_len > 0
                          then do { a \<leftarrow> aad; a \<leftarrow> rd a 0 (nat aad_len); Some (cip_aad L False a ctx) }
                          else Some ctx);
                  c \<leftarrow> ciphertext;
                  c \<leftarrow> rd c 0 (nat ciphertext_len);
                  let (out, ctx) = cip_update L False c ctx;
                  let left = fresh_mem L (nat ciphertext_len) w;
                  let (ok, w) = ext_call L w;
                  p \<leftarrow> plaintext;
                  p \<leftarrow> wr p 0 (if ok then out else left);
                  if \<not> ok then do { w \<leftarrow> release H_CIPHER_CTX w; Some (AES_ERROR, Some p, w) }
                  else do {
                    let plaintext_len = int (length out);
                    let (ok, w) = ext_call L w;
                    if \<not> ok then do { w \<leftarrow> release H_CIPHER_CTX w; Some (AES_ERROR, Some p, w) }
                    else do {
                      t \<leftarrow> tag;
                      t \<leftarrow> rd t 0 AES_GCM_TAG_LEN;
                      let ctx = cip_set_tag L t ctx;
                      let (ok, w) = ext_call L w;
                      let ret = (if ok then cip_verify L ctx else None);
                      p \<leftarrow> (case ret of None \<Rightarrow> Some p | Some fin \<Rightarrow> wr p (length out) fin);
                      w \<leftarrow> release H_CIPHER_CTX w;
                      case ret of
                        None \<Rightarrow> Some (AES_ERROR, Some p, w)
                      | Some fin \<Rightarrow> Some (plaintext_len + int (length fin), Some p, w)
                    }
                  }
                }
              }
            }
          }
        }
      })"

subsection \<open>What the call sequences compute\<close>

definition gcm_start :: "('c, 'm) lib \<Rightarrow> bool \<Rightarrow> bytes \<Rightarrow> bytes \<Rightarrow> bytes \<Rightarrow> 'c" where
  "gcm_start L enc key iv aad =
     (let c = cip_key_iv L enc key iv (cip_ivlen L 12 (cip_select L enc (cip_new L)))
      in if aad = [] then c else cip_aad L enc aad c)"

definition gcm_seal :: "('c, 'm) lib \<Rightarrow> bytes \<Rightarrow> bytes \<Rightarrow> bytes \<Rightarrow> bytes \<Rightarrow> bytes \<times> bytes" where
  "gcm_seal L key iv aad pt =
     (let (out, c) = cip_update L True pt (gcm_start L True key iv aad);
          (fin, c) = cip_final L c
      in (out @ fin, cip_get_tag L 16 c))"

definition gcm_open :: "('c, 'm) lib \<Rightarrow> bytes \<Rightarrow> bytes \<Rightarrow> bytes \<Rightarrow> bytes \<Rightarrow> bytes \<Rightarrow> bytes option" where
  "gcm_open L key iv aad ct tag =
     (let (out, c) = cip_update L False ct (gcm_start L False key iv aad)
      in map_option (\<lambda>fin. out @ fin) (cip_verify L (cip_set_tag L tag c)))"

text \<open>Documented behaviour of the EVP calls for GCM: the update calls produce as many bytes as
  they are given and the final calls none; the tag asked for has 16 bytes; decryption under
  the same key, IV and additional data succeeds exactly on what encryption produces.\<close>

definition gcm_correct :: "('c, 'm) lib \<Rightarrow> bool" where
  "gcm_correct L \<longleftrightarrow>
     (\<forall>enc d c. length (fst (cip_update L enc d c)) = length d) \<and>
     (\<forall>c. fst (cip_final L c) = []) \<and>
     (\<forall>c fin. cip_verify L c = Some fin \<longrightarrow> fin = []) \<and>
     (\<forall>c. length (cip_get_tag L 16 c) = 16) \<and>
     (\<forall>key iv aad pt ct tag. length key = 32 \<longrightarrow> length iv = 12 \<longrightarrow> length tag = 16 \<longrightarrow>
        gcm_open L key iv aad ct tag = Some pt \<longleftrightarrow> gcm_seal L key iv aad pt = (ct, tag))"

subsection \<open>Lengths\<close>

lemma gcm_update_len: "gcm_correct L \<Longrightarrow> cip_update L enc d c = (out, c') \<Longrightarrow> length out = length d"
  unfolding gcm_correct_def by (metis fst_conv)

lemma gcm_final_nil: "gcm_correct L \<Longrightarrow> fst (cip_final L c) = []"
  unfolding gcm_correct_def by blast

lemma gcm_verify_nil: "gcm_correct L \<Longrightarrow> cip_verify L c = Some fin \<Longrightarrow> fin = []"
  unfolding gcm_correct_def by blast

lemma gcm_tag_len: "gcm_correct L \<Longrightarrow> length (cip_get_tag L 16 c) = 16"
  unfolding gcm_correct_def by blast

lemma gcm_open_iff:
  "gcm_correct L \<Longrightarrow> length key = 32 \<Longrightarrow> length iv = 12 \<Longrightarrow> length tag = 16 \<Longrightarrow>
     gcm_open L key iv aad ct tag = Some pt \<longleftrightarrow> gcm_seal L key iv aad pt = (ct, tag)"
  unfolding gcm_correct_def by blast

text \<open>One run of the calls, with the outputs named.\<close>

lemma gcm_seal_cases:
  assumes "gcm_correct L"
  obtains out c c' where "cip_update L True pt (gcm_start L True key iv aad) = (out, c)"
    "length out = length pt" "cip_final L c = ([], c')" "length (cip_get_tag L 16 c') = 16"
    "gcm_seal L key iv aad pt = (out, cip_get_tag L 16 c')"
proof -
  obtain out c where 1: "cip_update L True pt (gcm_start L True key iv aad) = (out, c)" by fastforce
  obtain fin c' where 2: "cip_final L c = (fin, c')" by fastforce
  with gcm_final_nil [OF assms, of c] have "fin = []" by simp
  with 1 2 that gcm_update_len [OF assms 1] gcm_tag_len [OF assms, of c'] show thesis
    by (simp add: gcm_seal_def)
qed

lemma gcm_open_cases:
  assumes "gcm_correct L"
  obtains out c where "cip_update L False ct (gcm_start L False key iv aad) = (out, c)"
    "length out = length ct"
    "gcm_open L key iv aad ct tag = map_option (\<lambda>_. out) (cip_verify L (cip_set_tag L tag c))"
    "cip_verify L (cip_set_tag L tag c) \<in> {None, Some []}"
proof -
  obtain out c where 1: "cip_update L False ct (gcm_start L False key iv aad) = (out, c)" by fastforce
  have 2: "cip_verify L (cip_set_tag L tag c) \<in> {None, Some []}"
    using gcm_verify_nil [OF assms] by (cases "cip_verify L (cip_set_tag L tag c)") auto
  with 1 have "gcm_open L key iv aad ct tag = map_option (\<lambda>_. out) (cip_verify L (cip_set_tag L tag c))"
    by (auto simp: gcm_open_def)
  with 1 2 that gcm_update_len [OF assms 1] show thesis by blast
qed

lemma gcm_seal_len: "gcm_correct L \<Longrightarrow> length (fst (gcm_seal L key iv aad pt)) = length pt"
  by (erule gcm_seal_cases [where pt = pt and key = key and iv = iv and aad = aad]) simp

lemma gcm_seal_tag_len: "gcm_correct L \<Longrightarrow> length (snd (gcm_seal L key iv aad pt)) = 16"
  by (erule gcm_seal_cases [where pt = pt and key = key and iv = iv and aad = aad]) simp

lemma gcm_open_len: "gcm_correct L \<Longrightarrow> gcm_open L key iv aad ct tag = Some pt \<Longrightarrow> length pt = length ct"
  by (rule gcm_open_cases [where ct = ct and key = key and iv = iv and aad = aad and tag = tag]) auto

subsection \<open>The functions against them\<close>

lemma aes_gcm_encrypt_spec:
  assumes "gcm_correct L" and "0 \<le> pl" and "nat pl \<le> length p" and "nat pl \<le> length c"
    and "0 \<le> al" and "nat al \<le> length a" and "32 \<le> length k" and "12 \<le> length v" and "16 \<le> length t"
  shows "\<exists>ret c' t' w'. aes_gcm_encrypt L (Some p) pl (Some a) al (Some k) (Some v) (Some c) (Some t) w =
       Some (ret, Some c', Some t', w') \<and> lib_only w w' \<and> length c' = length c \<and>
     (ret = pl \<and> c' = fst (gcm_seal L (take 32 k) (take 12 v) (take (nat al) a) (take (nat pl) p)) @ drop (nat pl) c \<and>
        t' = snd (gcm_seal L (take 32 k) (take 12 v) (take (nat al) a) (take (nat pl) p)) @ drop 16 t \<or>
      ret = - 1 \<and> length t' = length t \<and> drop 16 t' = drop 16 t \<and> \<not> lib_up L)"
proof -
  obtain out s s' where S: "cip_update L True (take (nat pl) p)
        (gcm_start L True (take 32 k) (take 12 v) (take (nat al) a)) = (out, s)"
    "length out = nat pl" "cip_final L s = ([], s')" "length (cip_get_tag L 16 s') = 16"
    "gcm_seal L (take 32 k) (take 12 v) (take (nat al) a) (take (nat pl) p) = (out, cip_get_tag L 16 s')"
    using gcm_seal_cases [OF assms(1), of "take (nat pl) p" "take 32 k" "take 12 v" "take (nat al) a"] assms(3)
    by (auto simp: min_absorb2)
  show ?thesis
  proof (cases "al = 0")
    case True
    with S assms show ?thesis
      by (auto simp: aes_gcm_encrypt_def env_simps c_mem gcm_start_def Let_def lib_up_def)
  next
    case False
    then have "take (nat al) a \<noteq> []" "0 < al" using assms by auto
    with S assms show ?thesis
      by (auto simp: aes_gcm_encrypt_def env_simps c_mem gcm_start_def Let_def lib_up_def)
  qed
qed

lemma aes_gcm_decrypt_spec:
  assumes "gcm_correct L" and "0 \<le> cl" and "nat cl \<le> length c" and "nat cl \<le> length p"
    and "0 \<le> al" and "nat al \<le> length a" and "32 \<le> length k" and "12 \<le> length v" and "16 \<le> length t"
  shows "\<exists>ret p' w'. aes_gcm_decrypt L (Some c) cl (Some a) al (Some t) (Some k) (Some v) (Some p) w =
       Some (ret, Some p', w') \<and> lib_only w w' \<and> length p' = length p \<and> drop (nat cl) p' = drop (nat cl) p \<and>
     (ret = cl \<and> gcm_open L (take 32 k) (take 12 v) (take (nat al) a) (take (nat cl) c) (take 16 t) = Some (take (nat cl) p') \<or>
      ret = - 1 \<and> (\<not> lib_up L \<or>
        gcm_open L (take 32 k) (take 12 v) (take (nat al) a) (take (nat cl) c) (take 16 t) = None))"
proof -
  obtain out s where S: "cip_update L False (take (nat cl) c)
        (gcm_start L False (take 32 k) (take 12 v) (take (nat al) a)) = (out, s)"
    "length out = nat cl"
    "gcm_open L (take 32 k) (take 12 v) (take (nat al) a) (take (nat cl) c) (take 16 t) =
       map_option (\<lambda>_. out) (cip_verify L (cip_set_tag L (take 16 t) s))"
    "cip_verify L (cip_set_tag L (take 16 t) s) \<in> {None, Some []}"
    using gcm_open_cases [OF assms(1), of "take (nat cl) c" "take 32 k" "take 12 v" "take (nat al) a" "take 16 t"] assms(3)
    by (auto simp: min_absorb2)
  show ?thesis
  proof (cases "al = 0")
    case True
    with S assms show ?thesis
      by (auto simp: aes_gcm_decrypt_def env_simps c_mem gcm_start_def Let_def lib_up_def)
  next
    case False
    then have "take (nat al) a \<noteq> []" "0 < al" using assms by auto
    with S assms show ?thesis
      by (auto simp: aes_gcm_decrypt_def env_simps c_mem gcm_start_def Let_def lib_up_def)
  qed
qed

subsection \<open>The interface provided to the record layer\<close>

text \<open>Authenticated encryption: \<open>seal\<close> gives a ciphertext as long as the text and a 16-byte tag,
  and \<open>unseal\<close> accepts exactly what \<open>seal\<close> produces under the same key, nonce and header.\<close>

locale aead =
  fixes seal :: "'l \<Rightarrow> bytes \<Rightarrow> bytes \<Rightarrow> bytes \<Rightarrow> bytes \<Rightarrow> bytes \<times> bytes"
    and unseal :: "'l \<Rightarrow> bytes \<Rightarrow> bytes \<Rightarrow> bytes \<Rightarrow> bytes \<Rightarrow> bytes \<Rightarrow> bytes option"
    and good :: "'l \<Rightarrow> bool"
  assumes seal_len: "good L \<Longrightarrow> length (fst (seal L key iv aad pt)) = length pt"
    and seal_tag_len: "good L \<Longrightarrow> length (snd (seal L key iv aad pt)) = 16"
    and unseal_iff: "good L \<Longrightarrow> length key = 32 \<Longrightarrow> length iv = 12 \<Longrightarrow> length tag = 16 \<Longrightarrow>
       unseal L key iv aad ct tag = Some pt \<longleftrightarrow> seal L key iv aad pt = (ct, tag)"
begin

lemma unseal_seal:
  "good L \<Longrightarrow> length key = 32 \<Longrightarrow> length iv = 12 \<Longrightarrow>
     unseal L key iv aad (fst (seal L key iv aad pt)) (snd (seal L key iv aad pt)) = Some pt"
  by (simp add: unseal_iff seal_tag_len)

text \<open>Under one key, nonce and header, distinct texts have distinct sealed forms.\<close>

lemma seal_inj:
  assumes "good L" and "length key = 32" and "length iv = 12"
    and "seal L key iv aad pt = seal L key iv aad pt'"
  shows "pt = pt'"
proof -
  have "Some pt = Some pt'"
    using unseal_seal [OF assms(1-3), of aad pt] unseal_seal [OF assms(1-3), of aad pt']
    unfolding assms(4) by (rule trans [OF sym])
  then show ?thesis by simp
qed

text \<open>The bytes on the wire (ciphertext and tag) determine the text.\<close>

lemma sealed_bytes_inj:
  assumes "good L" and "length key = 32" and "length iv = 12"
    and "seal L key iv aad pt = (ct, tag)" and "seal L key iv aad pt' = (ct', tag')"
    and "ct @ tag = ct' @ tag'"
  shows "pt = pt'"
proof -
  have "length tag = length tag'"
    using seal_tag_len [OF assms(1), of key iv aad] assms(4,5) by (metis snd_conv)
  with assms(6) have "ct = ct' \<and> tag = tag'" by simp
  with assms(4,5) have "seal L key iv aad pt = seal L key iv aad pt'" by simp
  then show ?thesis by (rule seal_inj [OF assms(1-3)])
qed

end

interpretation gcm: aead gcm_seal gcm_open gcm_correct
  by unfold_locales (simp_all add: gcm_seal_len gcm_seal_tag_len gcm_open_iff)

lemma sample_gcm_correct: "gcm_correct sample_lib"
proof -
  have "gcm_open sample_lib key iv aad ct tag = Some pt \<longleftrightarrow> gcm_seal sample_lib key iv aad pt = (ct, tag)"
    if "length tag = 16" for key iv aad pt ct tag
    using that by (auto simp: gcm_open_def gcm_seal_def gcm_start_def sample_lib_def sample_tag_def Let_def length_mix)
  then show ?thesis
    by (simp add: gcm_correct_def) (simp add: sample_lib_def sample_tag_def length_mix)
qed

text \<open>Failures do not change what the functions compute.\<close>

lemma gcm_seal_failing: "gcm_seal (failing_lib n) = gcm_seal sample_lib"
  by (intro ext) (simp add: gcm_seal_def gcm_start_def failing_lib_def Let_def)

lemma failing_gcm_correct: "gcm_correct (failing_lib n)"
proof -
  have "gcm_open (failing_lib n) = gcm_open sample_lib"
    by (intro ext) (simp add: gcm_open_def gcm_start_def failing_lib_def Let_def)
  with sample_gcm_correct gcm_seal_failing show ?thesis
    by (simp add: gcm_correct_def failing_lib_def)
qed

subsection \<open>Properties\<close>

text \<open>On valid buffers \<open>aes_gcm_encrypt\<close> returns, and frees its context on every path,
  whichever calls fail. It returns the length of the text (0 for the empty text) with the
  sealed text in front of \<open>ciphertext\<close> and the tag in front of \<open>tag\<close>, or -1;
  both buffers keep their length.\<close>

theorem aes_gcm_encrypt_correct:
  assumes "gcm_correct L" and "0 \<le> pl" and "nat pl \<le> length p" and "nat pl \<le> length c"
    and "0 \<le> al" and "nat al \<le> length a" and "length k = 32" and "length v = 12" and "length t = 16"
  shows "\<exists>ret c' t' w'. aes_gcm_encrypt L (Some p) pl (Some a) al (Some k) (Some v) (Some c) (Some t) w =
       Some (ret, Some c', Some t', w') \<and> live w' = live w \<and> length c' = length c \<and>
     (ret = pl \<and> c' = fst (gcm_seal L k v (take (nat al) a) (take (nat pl) p)) @ drop (nat pl) c \<and>
        t' = snd (gcm_seal L k v (take (nat al) a) (take (nat pl) p)) \<or>
      ret = - 1 \<and> length t' = 16 \<and> \<not> lib_up L)"
  using aes_gcm_encrypt_spec [OF assms(1-6), of k v t w] assms(7-9) lib_only_frame(1) by fastforce

theorem aes_gcm_encrypt_correct_witness:
  "\<exists>ret c' t' w'. aes_gcm_encrypt (failing_lib 3) (Some []) 0 (Some [9]) 1 (Some (replicate 32 1))
       (Some (replicate 12 2)) (Some [4]) (Some (replicate 16 0)) (sample_world []) =
       Some (ret, Some c', Some t', w') \<and> live w' = live (sample_world []) \<and> (ret = 0 \<or> ret = - 1)"
  using aes_gcm_encrypt_correct [OF failing_gcm_correct, of 0 "[]" "[4]" 1 "[9]" "replicate 32 1"
      "replicate 12 2" "replicate 16 0" 3 "sample_world []"] by auto

text \<open>C29: \<open>aes_gcm_decrypt\<close> returns and frees its context on every path; it reports success only
  for a ciphertext and tag that sealing the plaintext it delivers, under the same key, IV and
  additional data, produces; nothing beyond the first \<open>ciphertext_len\<close> bytes of the plaintext
  buffer is written.\<close>

theorem aes_gcm_decrypt_authentic:
  assumes "gcm_correct L" and "0 \<le> cl" and "nat cl \<le> length c" and "nat cl \<le> length p"
    and "0 \<le> al" and "nat al \<le> length a" and "length k = 32" and "length v = 12" and "length t = 16"
  shows "\<exists>ret p' w'. aes_gcm_decrypt L (Some c) cl (Some a) al (Some t) (Some k) (Some v) (Some p) w =
       Some (ret, Some p', w') \<and> live w' = live w \<and> drop (nat cl) p' = drop (nat cl) p \<and>
     (ret = cl \<and> gcm_seal L k v (take (nat al) a) (take (nat cl) p') = (take (nat cl) c, t) \<or> ret = - 1)"
  using aes_gcm_decrypt_spec [OF assms(1-6), of k v t w] assms(1,7-9) lib_only_frame(1)
  by (fastforce simp: gcm.unseal_iff)

theorem aes_gcm_decrypt_authentic_witness:
  "\<exists>ret p' w'. aes_gcm_decrypt sample_lib (Some [3]) 1 (Some [9]) 1 (Some (replicate 16 5)) (Some (replicate 32 1))
       (Some (replicate 12 2)) (Some [0, 8]) (sample_world []) = Some (ret, Some p', w') \<and> drop 1 p' = [8]"
  using aes_gcm_decrypt_authentic [OF sample_gcm_correct, of 1 "[3]" "[0, 8]" 1 "[9]" "replicate 32 1"
      "replicate 12 2" "replicate 16 5" "sample_world []"] by auto

text \<open>C28: decryption inverts encryption: whatever \<open>aes_gcm_encrypt\<close> produced with success, once
  the library answers all calls \<open>aes_gcm_decrypt\<close> with the same key, IV and additional data
  recovers the plaintext from it.\<close>

theorem aes_gcm_roundtrip:
  assumes "gcm_correct L" and "0 \<le> pl" and "nat pl \<le> length p" and "nat pl \<le> length c"
    and "0 \<le> al" and "nat al \<le> length a" and "length k = 32" and "length v = 12" and "length t = 16"
    and enc: "aes_gcm_encrypt L (Some p) pl (Some a) al (Some k) (Some v) (Some c) (Some t) w =
       Some (n, Some c', Some t', w')" and "0 \<le> n" and "lib_up L" and "nat pl \<le> length q"
  shows "\<exists>w2'. aes_gcm_decrypt L (Some c') n (Some a) al (Some t') (Some k) (Some v) (Some q) w2 =
       Some (pl, Some (take (nat pl) p @ drop (nat pl) q), w2')"
proof -
  let ?s = "gcm_seal L k v (take (nat al) a) (take (nat pl) p)"
  from aes_gcm_encrypt_spec [OF assms(1-6), of k v t w] assms(7-11) have
    n: "n = pl" and c': "c' = fst ?s @ drop (nat pl) c" and t': "t' = snd ?s" and lc: "length c' = length c"
    by auto
  have l: "length (fst ?s) = nat pl" "length (snd ?s) = 16"
    using assms(3) gcm.seal_len [OF assms(1)] gcm.seal_tag_len [OF assms(1)] by simp_all
  have opened: "gcm_open L k v (take (nat al) a) (take (nat pl) c') (take 16 t') = Some (take (nat pl) p)"
    using gcm.unseal_seal [OF assms(1,7,8), of "take (nat al) a" "take (nat pl) p"] l c' t' by simp
  have "nat pl \<le> length c'" "16 \<le> length t'" using assms(4) lc l t' by simp_all
  from aes_gcm_decrypt_spec [OF assms(1,2) this(1) assms(13,5,6) _ _ this(2), of k v w2] assms(7,8,12) opened
  obtain q' w2' where
    "aes_gcm_decrypt L (Some c') pl (Some a) al (Some t') (Some k) (Some v) (Some q) w2 = Some (pl, Some q', w2')"
    "drop (nat pl) q' = drop (nat pl) q" "take (nat pl) q' = take (nat pl) p" by auto
  then show ?thesis unfolding n by (metis append_take_drop_id)
qed

theorem aes_gcm_roundtrip_witness:
  "\<exists>c' t' w' w2'. aes_gcm_encrypt sample_lib (Some [7, 6]) 2 (Some [9]) 1 (Some (replicate 32 1))
       (Some (replicate 12 2)) (Some [0, 0]) (Some (replicate 16 0)) (sample_world []) = Some (2, Some c', Some t', w') \<and>
     aes_gcm_decrypt sample_lib (Some c') 2 (Some [9]) 1 (Some t') (Some (replicate 32 1))
       (Some (replicate 12 2)) (Some [0, 0, 5]) (sample_world []) = Some (2, Some [7, 6, 5], w2')"
proof -
  obtain c' t' w' where e: "aes_gcm_encrypt sample_lib (Some [7, 6]) 2 (Some [9]) 1 (Some (replicate 32 1))
       (Some (replicate 12 2)) (Some [0, 0]) (Some (replicate 16 0)) (sample_world []) = Some (2, Some c', Some t', w')"
    using aes_gcm_encrypt_spec [OF sample_gcm_correct, of 2 "[7, 6]" "[0, 0]" 1 "[9]" "replicate 32 1"
        "replicate 12 2" "replicate 16 0" "sample_world []"] sample_lib_up by auto
  from aes_gcm_roundtrip [OF sample_gcm_correct _ _ _ _ _ _ _ _ e _ sample_lib_up, of "[0, 0, 5]" "sample_world []"] e
  show ?thesis by auto
qed

end
