(* ===== verification/Wire.thy ===== *)
theory Wire
  imports C_Prelude
begin

section \<open>Interfaces of the wire: sinks, sources and prefix codes\<close>

text \<open>
  What the message layers rely on below them. A \<open>byte_sink\<close> writes a buffer completely or
  fails after a proper prefix; a \<open>byte_source\<close> fills a buffer completely, reports a closed
  peer, or fails; a \<open>prefix_code\<close> is a message format whose encodings can be cut out of a
  stream. The providers are \<open>common.c\<close> (theory \<open>Common\<close>) and the two header formats (theories
  \<open>Tls_Handshake\<close> and \<open>Tls_Record\<close>).
\<close>

subsection \<open>Sinks\<close>

text \<open>Several buffers written one after the other, stopping at the first failure: how the
  message layers use \<open>send_all\<close>.\<close>

fun put_all ::
  "(bytes \<Rightarrow> size_t \<Rightarrow> 'w \<Rightarrow> (int \<times> 'w) option) \<Rightarrow> (bytes \<times> size_t) list \<Rightarrow> 'w
     \<Rightarrow> (int \<times> 'w) option" where
  "put_all put [] w = Some (0, w)"
| "put_all put ((d, n) # ps) w =
     do { (rc, w) \<leftarrow> put d n w; if rc = - 1 then Some (- 1, w) else put_all put ps w }"

definition parts :: "(bytes \<times> size_t) list \<Rightarrow> bytes" where
  "parts ps = concat (map (\<lambda>(d, n). take (unat n) d) ps)"

lemma parts_Nil [simp]: "parts [] = []"
  by (simp add: parts_def)

lemma parts_Cons [simp]: "parts ((d, n) # ps) = take (unat n) d @ parts ps"
  by (simp add: parts_def)

locale byte_sink =
  fixes put :: "bytes \<Rightarrow> size_t \<Rightarrow> 'w \<Rightarrow> (int \<times> 'w) option"
    and sent :: "'w \<Rightarrow> bytes"
    and rest :: "'w \<Rightarrow> 'r"
  assumes put_returns: "unat n \<le> length d \<Longrightarrow> \<exists>rc w'. put d n w = Some (rc, w')"
    and put_rc: "put d n w = Some (rc, w') \<Longrightarrow> rc = 0 \<or> rc = - 1"
    and put_ok: "put d n w = Some (0, w') \<Longrightarrow> sent w' = sent w @ take (unat n) d"
    and put_err: "put d n w = Some (- 1, w') \<Longrightarrow> \<exists>k<unat n. sent w' = sent w @ take k d"
    and put_rest: "put d n w = Some (rc, w') \<Longrightarrow> rest w' = rest w"
begin

lemma put_all_returns:
  "list_all (\<lambda>(d, n). unat n \<le> length d) ps \<Longrightarrow> \<exists>rc w'. put_all put ps w = Some (rc, w')"
proof (induction ps arbitrary: w)
  case Nil
  show ?case by simp
next
  case (Cons p ps)
  obtain d n where p: "p = (d, n)" by (cases p)
  with Cons.prems obtain rc w1 where "put d n w = Some (rc, w1)"
    using put_returns [of n d w] by auto
  with Cons p show ?case by auto
qed

lemma put_all_rc: "put_all put ps w = Some (rc, w') \<Longrightarrow> rc = 0 \<or> rc = - 1"
proof (induction ps arbitrary: w)
  case Nil
  then show ?case by simp
next
  case (Cons p ps)
  then show ?case by (cases p) (auto simp: Option.bind_eq_Some_conv split: if_splits)
qed

lemma put_all_rest: "put_all put ps w = Some (rc, w') \<Longrightarrow> rest w' = rest w"
proof (induction ps arbitrary: w)
  case Nil
  then show ?case by simp
next
  case (Cons p ps)
  then show ?case
    by (cases p) (auto simp: Option.bind_eq_Some_conv dest: put_rest split: if_splits)
qed

lemma put_all_ok: "put_all put ps w = Some (0, w') \<Longrightarrow> sent w' = sent w @ parts ps"
proof (induction ps arbitrary: w)
  case Nil
  then show ?case by simp
next
  case (Cons p ps)
  obtain d n where p: "p = (d, n)" by (cases p)
  from Cons.prems p obtain rc w1 where w1: "put d n w = Some (rc, w1)" "rc \<noteq> - 1"
    and tl: "put_all put ps w1 = Some (0, w')"
    by (auto simp: Option.bind_eq_Some_conv split: if_splits)
  from w1 have "put d n w = Some (0, w1)" using put_rc by blast
  with Cons.IH [OF tl] p show ?case by (simp add: put_ok)
qed

text \<open>A failed sequence has written a proper prefix of the whole.\<close>

lemma put_all_err:
  "list_all (\<lambda>(d, n). unat n \<le> length d) ps \<Longrightarrow> put_all put ps w = Some (- 1, w') \<Longrightarrow>
     \<exists>k<length (parts ps). sent w' = sent w @ take k (parts ps)"
proof (induction ps arbitrary: w)
  case Nil
  then show ?case by simp
next
  case (Cons p ps)
  obtain d n where p: "p = (d, n)" by (cases p)
  from Cons.prems p have len: "unat n \<le> length d" and ps: "list_all (\<lambda>(d, n). unat n \<le> length d) ps"
    by simp_all
  from Cons.prems p obtain rc w1 where w1: "put d n w = Some (rc, w1)"
    and tl: "if rc = - 1 then w' = w1 else put_all put ps w1 = Some (- 1, w')"
    by (auto simp: Option.bind_eq_Some_conv split: if_splits)
  show ?case
  proof (cases "rc = - 1")
    case True
    with put_err w1 obtain k where "k < unat n" "sent w1 = sent w @ take k d" by blast
    with True tl p len show ?thesis by (intro exI [of _ k]) auto
  next
    case False
    with w1 have w1: "put d n w = Some (0, w1)" using put_rc by blast
    from False tl Cons.IH [OF ps] obtain k
      where "k < length (parts ps)" "sent w' = sent w1 @ take k (parts ps)" by auto
    with put_ok [OF w1] p len show ?thesis by (intro exI [of _ "unat n + k"]) simp
  qed
qed

end

subsection \<open>Sources\<close>

text \<open>\<open>get buf n w\<close> reads \<open>n\<close> bytes into the front of \<open>buf\<close>. The results are those of
  \<open>recv_all\<close>: 0, or 1 when the peer closed first, or -1.\<close>

locale byte_source =
  fixes get :: "bytes \<Rightarrow> size_t \<Rightarrow> 'w \<Rightarrow> (int \<times> bytes \<times> 'w) option"
    and avail :: "'w \<Rightarrow> bytes"
    and closed :: "'w \<Rightarrow> bool"
    and other :: "'w \<Rightarrow> 'r"
  assumes get_returns:
      "unat n \<le> length b \<Longrightarrow> closed w \<or> unat n \<le> length (avail w) \<Longrightarrow>
         \<exists>rc b' w'. get b n w = Some (rc, b', w')"
    and get_rc: "get b n w = Some (rc, b', w') \<Longrightarrow> rc = 0 \<or> rc = 1 \<or> rc = - 1"
    and get_ok:
      "get b n w = Some (0, b', w') \<Longrightarrow> unat n \<le> length (avail w) \<and>
         b' = take (unat n) (avail w) @ drop (unat n) b \<and> avail w' = drop (unat n) (avail w)"
    and get_eof:
      "get b n w = Some (1, b', w') \<Longrightarrow>
         closed w \<and> length (avail w) < unat n \<and> avail w' = []"
    and get_err: "get b n w = Some (- 1, b', w') \<Longrightarrow> \<exists>k<unat n. avail w' = drop k (avail w)"
    and get_len: "get b n w = Some (rc, b', w') \<Longrightarrow> length b' = length b"
    and get_other: "get b n w = Some (rc, b', w') \<Longrightarrow> other w' = other w \<and> closed w' = closed w"
begin

text \<open>Two reads in a row take two adjacent pieces of the stream.\<close>

lemma get_get:
  assumes "get b n w = Some (0, b', w1)" and "get d m w1 = Some (0, d', w2)"
  shows "avail w = take (unat n) b' @ take (unat m) d' @ avail w2"
    and "take (unat n) b' = take (unat n) (avail w)"
proof -
  from get_ok [OF assms(1)] have 1: "unat n \<le> length (avail w)"
    "b' = take (unat n) (avail w) @ drop (unat n) b" "avail w1 = drop (unat n) (avail w)" by auto
  from get_ok [OF assms(2)] have 2: "unat m \<le> length (avail w1)"
    "d' = take (unat m) (avail w1) @ drop (unat m) d" "avail w2 = drop (unat m) (avail w1)" by auto
  from 1 show *: "take (unat n) b' = take (unat n) (avail w)" by simp
  from 2 have "take (unat m) d' = take (unat m) (avail w1)" by simp
  with * 1(3) 2(3) show "avail w = take (unat n) b' @ take (unat m) d' @ avail w2"
    by (metis append_take_drop_id)
qed

text \<open>However a read ends, what is left is a suffix of what there was.\<close>

lemma get_suffix:
  assumes "get b n w = Some (rc, b', w')"
  shows "\<exists>k. avail w' = drop k (avail w)"
proof -
  from get_rc [OF assms] consider "rc = 0" | "rc = 1" | "rc = - 1" by blast
  then show ?thesis
  proof cases
    case 1
    with assms get_ok [of b n w b' w'] show ?thesis by blast
  next
    case 2
    with assms get_eof [of b n w b' w'] have "avail w' = drop (length (avail w)) (avail w)" by simp
    then show ?thesis by blast
  next
    case 3
    with assms get_err [of b n w b' w'] show ?thesis by blast
  qed
qed

end

subsection \<open>Prefix codes\<close>

locale prefix_code =
  fixes enc :: "'a \<Rightarrow> bytes"
    and dec :: "bytes \<Rightarrow> ('a \<times> bytes) option"
    and valid :: "'a \<Rightarrow> bool"
  assumes dec_enc: "valid x \<Longrightarrow> dec (enc x @ r) = Some (x, r)"
    and dec_sound: "dec s = Some (x, r) \<Longrightarrow> valid x \<and> s = enc x @ r"
    and enc_nonempty: "valid x \<Longrightarrow> enc x \<noteq> []"
begin

text \<open>A stream has at most one first message, and it determines the rest.\<close>

lemma enc_cancel:
  assumes "valid x" and "valid y" and "enc x @ r = enc y @ r'"
  shows "x = y \<and> r = r'"
proof -
  have "Some (x, r) = Some (y, r')"
    using dec_enc [OF assms(1), of r] dec_enc [OF assms(2), of r'] unfolding assms(3) by (rule trans [OF sym])
  then show ?thesis by simp
qed

lemma enc_inj: "valid x \<Longrightarrow> valid y \<Longrightarrow> enc x = enc y \<Longrightarrow> x = y"
  using enc_cancel [of x y "[]" "[]"] by fastforce

text \<open>A concatenation of messages determines the list of messages: what makes a hash over
  the concatenation a hash over the messages.\<close>

lemma concat_inj:
  "list_all valid xs \<Longrightarrow> list_all valid ys \<Longrightarrow> concat (map enc xs) = concat (map enc ys) \<Longrightarrow> xs = ys"
proof (induction xs arbitrary: ys)
  case Nil
  then show ?case by (cases ys) (auto simp: enc_nonempty)
next
  case (Cons x xs)
  from Cons.prems have vx: "valid x" and vxs: "list_all valid xs" by simp_all
  from Cons.prems(3) enc_nonempty [OF vx] obtain y ys' where ys: "ys = y # ys'"
    by (cases ys) simp_all
  with Cons.prems have vy: "valid y" and vys: "list_all valid ys'" by simp_all
  from Cons.prems(3) ys have "enc x @ concat (map enc xs) = enc y @ concat (map enc ys')" by simp
  with vx vy have "x = y \<and> concat (map enc xs) = concat (map enc ys')" by (rule enc_cancel)
  with Cons.IH [OF vxs vys] ys show ?case by simp
qed

end

end
