(* ===== verification/Common.thy ===== *)
theory Common
  imports Env Wire Sample
begin

section \<open>Reliable transfer (\<open>src/common.c\<close>)\<close>

text \<open>
  \<open>send_all\<close> and \<open>recv_all\<close> repeat \<open>send\<close> and \<open>recv\<close> until the whole buffer is transferred,
  \<open>print_hex\<close> prints bytes. The loops keep the code's counters (\<open>total_sent\<close>,
  \<open>total_received\<close>) as \<open>size_t\<close>; they terminate because every granted transfer is at least one
  byte and at most what was asked for.
\<close>

subsection \<open>The loops\<close>

function send_loop :: "bytes \<Rightarrow> size_t \<Rightarrow> size_t \<Rightarrow> world \<Rightarrow> (int \<times> world) option" where
  "send_loop buffer total_sent len w =
     (if total_sent < len then do {
        chunk \<leftarrow> rd buffer (unat total_sent) (unat (len - total_sent));
        let (bytes_sent, w) = sys_send chunk w;
        if bytes_sent \<le> 0 then Some (- 1, w)
        else send_loop buffer (total_sent + of_int bytes_sent) len w
      } else Some (0, w))"
  by pat_completeness auto

lemma sys_send_bounds: "sys_send d w = (n, w') \<Longrightarrow> n \<le> int (length d)"
  by (auto simp: sys_send_def Let_def split: io_choice.splits)

text \<open>The counter stays within the length: no wrap-around.\<close>

lemma size_t_advance:
  assumes "t < l" and "0 < n" and "n \<le> int (unat (l - t))"
  shows "unat (t + of_int n) = unat t + nat n" and "t + of_int n \<le> (l :: size_t)"
    and "unat (l - (t + of_int n)) < unat (l - t)"
proof -
  have lt: "unat (l - t) = unat l - unat t"
    using assms(1) by (simp add: unat_sub less_imp_le)
  have n: "unat (of_int n :: size_t) = nat n"
  proof -
    from assms lt have "n \<le> int (unat l)" by linarith
    with unsigned_less [of l, where ?'a = int] have "n < 2 ^ LENGTH(64)" by simp
    with assms(2) show ?thesis by (simp add: unsigned_of_int take_bit_int_eq_self)
  qed
  have "nat n \<le> unat l - unat t"
    using assms(3) unfolding lt by (simp only: nat_le_iff)
  then have b: "unat t + nat n \<le> unat l"
    using assms(1) unfolding word_less_nat_alt by linarith
  then show 1: "unat (t + of_int n) = unat t + nat n"
    using n size_t_lt [of l] by (simp add: unat_word_ariths)
  with b show 2: "t + of_int n \<le> l" by (simp add: word_le_nat_alt)
  have "unat (l - (t + of_int n)) = unat l - (unat t + nat n)"
    using 1 by (simp add: unat_sub [OF 2])
  with b assms(1,2) show "unat (l - (t + of_int n)) < unat (l - t)"
    unfolding lt word_less_nat_alt by linarith
qed

termination send_loop
proof (relation "measure (\<lambda>(buffer, t, l, w). unat (l - t))", goal_cases)
  case 1
  show ?case by simp
next
  case (2 buffer t l w chunk p n w')
  then have "n \<le> int (unat (l - t))"
    by (metis rd_length sys_send_bounds)
  with 2 show ?case using size_t_advance [of t l n] by simp
qed

definition send_all :: "bytes \<Rightarrow> size_t \<Rightarrow> world \<Rightarrow> (int \<times> world) option" where
  "send_all buffer len w = send_loop buffer 0 len w"

function recv_loop :: "bytes \<Rightarrow> size_t \<Rightarrow> size_t \<Rightarrow> world \<Rightarrow> (int \<times> bytes \<times> world) option" where
  "recv_loop buffer total_received len w =
     (if total_received < len then do {
        _ \<leftarrow> rd buffer (unat total_received) (unat (len - total_received));
        (bytes_received, data, w) \<leftarrow> sys_recv (unat (len - total_received)) w;
        buffer \<leftarrow> wr buffer (unat total_received) data;
        if bytes_received < 0 then Some (- 1, buffer, w)
        else if bytes_received = 0 then Some (1, buffer, w)
        else recv_loop buffer (total_received + of_int bytes_received) len w
      } else Some (0, buffer, w))"
  by pat_completeness auto

lemma sys_recv_bounds: "sys_recv n w = Some (k, d, w') \<Longrightarrow> k \<le> int n"
  by (auto simp: sys_recv_def Let_def split: io_choice.splits if_splits)

termination recv_loop
proof (relation "measure (\<lambda>(buffer, t, l, w). unat (l - t))", goal_cases)
  case 1
  show ?case by simp
next
  case (2 buffer t l w u p n q data w' buffer')
  then have "n \<le> int (unat (l - t))"
    using sys_recv_bounds [of "unat (l - t)" w n data w'] by auto
  with 2 show ?case using size_t_advance [of t l n] by auto
qed

definition recv_all :: "bytes \<Rightarrow> size_t \<Rightarrow> world \<Rightarrow> (int \<times> bytes \<times> world) option" where
  "recv_all buffer len w = recv_loop buffer 0 len w"

declare send_loop.simps [simp del] recv_loop.simps [simp del]
lemma send_loop_stop: "\<not> t < l \<Longrightarrow> send_loop b t l w = Some (0, w)"
  by (simp add: send_loop.simps)
lemma recv_loop_stop: "\<not> t < l \<Longrightarrow> recv_loop b t l w = Some (0, b, w)"
  by (simp add: recv_loop.simps)

subsection \<open>What the loops do\<close>

text \<open>\<open>sent_to w d w'\<close>: the world moved from \<open>w\<close> to \<open>w'\<close> by writing exactly \<open>d\<close>; \<open>SIGPIPE\<close> was
  raised on the way only if the schedule has a broken pipe (\<open>pipe_to\<close>).
  \<open>read_from w k w'\<close>: by reading exactly \<open>k\<close> bytes.\<close>

definition pipe_to :: "world \<Rightarrow> world \<Rightarrow> bool" where
  "pipe_to w w' \<longleftrightarrow> broken_pipe w' = broken_pipe w \<or> broken_pipe w' \<and> (\<exists>k. io_sched w k = Io_pipe)"
definition sent_to :: "world \<Rightarrow> bytes \<Rightarrow> world \<Rightarrow> bool" where
  "sent_to w d w' \<longleftrightarrow> pipe_to w w' \<and>
     (\<exists>c p. w' = w\<lparr>outbox := outbox w @ d, io_calls := c, broken_pipe := p\<rparr>)"

text \<open>The world but for what a transfer can change.\<close>

definition but_outbox :: "world \<Rightarrow> world" where
  "but_outbox w = w\<lparr>outbox := [], io_calls := 0, broken_pipe := False\<rparr>"

lemma sent_to_iff:
  "sent_to w d w' \<longleftrightarrow> pipe_to w w' \<and> outbox w' = outbox w @ d \<and> but_outbox w' = but_outbox w"
  by (cases w, cases w') (auto simp: sent_to_def but_outbox_def)

lemma but_outbox_sched: "but_outbox w' = but_outbox w \<Longrightarrow> io_sched w' = io_sched w"
  by (cases w, cases w') (simp add: but_outbox_def)

lemma pipe_to_trans:
  "pipe_to w w1 \<Longrightarrow> pipe_to w1 w' \<Longrightarrow> io_sched w1 = io_sched w \<Longrightarrow> pipe_to w w'"
  by (auto simp: pipe_to_def)

lemma pipe_to_refl [simp]: "broken_pipe w' = broken_pipe w \<Longrightarrow> pipe_to w w'"
  by (simp add: pipe_to_def)
lemma pipe_to_frees [simp]: "pipe_to w (w'\<lparr>live := l\<rparr>) = pipe_to w w'"
  by (simp add: pipe_to_def)
lemma sent_to_step: "sent_to w d (w\<lparr>outbox := outbox w @ d, io_calls := c\<rparr>)"
  unfolding sent_to_def by (intro conjI exI [of _ c] exI [of _ "broken_pipe w"]) simp_all
lemma sent_to_calls: "sent_to w [] (w\<lparr>io_calls := c\<rparr>)"
  using sent_to_step [of w "[]" c] by simp
lemma sent_to_pipe: "io_sched w k = Io_pipe \<Longrightarrow> sent_to w [] (w\<lparr>io_calls := c, broken_pipe := True\<rparr>)"
  unfolding sent_to_def pipe_to_def by (intro conjI exI [of _ c] exI [of _ True]) auto
lemma sent_to_refl: "sent_to w [] w"
  using sent_to_step [of w "[]" "io_calls w"] by simp
lemma sent_to_trans: "sent_to w a w' \<Longrightarrow> sent_to w' b w'' \<Longrightarrow> sent_to w (a @ b) w''"
  using pipe_to_trans [of w w' w''] but_outbox_sched [of w' w] by (simp add: sent_to_iff)

text \<open>Without a broken pipe in the schedule, only the output changes.\<close>

lemma sent_to_fineD:
  assumes "sent_to w d w'" and "io_fine w"
  shows "\<exists>c. w' = w\<lparr>outbox := outbox w @ d, io_calls := c\<rparr>"
proof -
  from assms(1) obtain c p where w': "w' = w\<lparr>outbox := outbox w @ d, io_calls := c, broken_pipe := p\<rparr>"
    and "pipe_to w w'" unfolding sent_to_def by blast
  moreover have "io_sched w k \<noteq> Io_pipe" for k
    using assms(2) by (metis io_fine_def io_choice.distinct(5))
  ultimately have "p = broken_pipe w" by (simp add: pipe_to_def)
  with w' show ?thesis by (intro exI [of _ c]) simp
qed

lemma sys_send_spec:
  "sys_send d w = (n, w') \<Longrightarrow>
     (if n \<le> 0 then sent_to w [] w'
      else n \<le> int (length d) \<and> sent_to w (take (nat n) d) w' \<and> broken_pipe w' = broken_pipe w)"
  by (auto simp: sys_send_def sent_to_step sent_to_calls Let_def min_le_iff_disj
      split: io_choice.splits intro: sent_to_pipe)

definition send_rel :: "bytes \<Rightarrow> nat \<Rightarrow> world \<Rightarrow> int \<Rightarrow> world \<Rightarrow> bool" where
  "send_rel d n w rc w' \<longleftrightarrow>
     (\<exists>k. sent_to w (take k d) w' \<and>
        (rc = 0 \<and> k = n \<and> broken_pipe w' = broken_pipe w \<or> rc = - 1 \<and> k < n))"

lemma send_rel_step:
  assumes "sent_to w (take m d) w1" and "send_rel (drop m d) (n - m) w1 rc w'" and "m \<le> n"
    and "broken_pipe w1 = broken_pipe w"
  shows "send_rel d n w rc w'"
proof -
  from assms(2) obtain k where k: "sent_to w1 (take k (drop m d)) w'"
    "rc = 0 \<and> k = n - m \<and> broken_pipe w' = broken_pipe w1 \<or> rc = - 1 \<and> k < n - m" by (auto simp: send_rel_def)
  have "take m d @ take k (drop m d) = take (m + k) d" by (simp add: take_add)
  with sent_to_trans [OF assms(1) k(1)] k(2) assms(3,4) show ?thesis
    unfolding send_rel_def by (intro exI [of _ "m + k"]) auto
qed

lemma send_loop_spec:
  "t \<le> l \<Longrightarrow>
   (case send_loop b t l w of None \<Rightarrow> \<not> unat l \<le> length b
    | Some (rc, w') \<Rightarrow> send_rel (drop (unat t) b) (unat l - unat t) w rc w')"
proof (induction b t l w rule: send_loop.induct)
  case (1 b t l w)
  show ?case
  proof (cases "t < l")
    case False
    with "1.prems" show ?thesis
      by (auto simp: send_loop_stop send_rel_def intro: sent_to_refl)
  next
    case True
    have lt: "unat (l - t) = unat l - unat t" using True by (simp add: unat_sub less_imp_le)
    show ?thesis
    proof (cases "rd b (unat t) (unat (l - t))")
      case None
      with True show ?thesis
        by (auto simp: send_loop.simps [of b t l w] rd_def lt word_less_nat_alt split: if_splits)
    next
      case (Some chunk)
      then have chunk: "chunk = take (unat l - unat t) (drop (unat t) b)" "length chunk = unat (l - t)"
        by (auto simp: rd_eq_Some_iff lt)
      obtain n w1 where n: "sys_send chunk w = (n, w1)" by fastforce
      note spec = sys_send_spec [OF n]
      show ?thesis
      proof (cases "n \<le> 0")
        case neg: True
        with spec True Some n show ?thesis
          by (auto simp: send_loop.simps [of b t l w] send_rel_def word_less_nat_alt intro!: exI [of _ 0])
      next
        case False
        with spec chunk have pos: "0 < n" and le: "n \<le> int (unat (l - t))"
          and s1: "sent_to w (take (nat n) chunk) w1" and p1: "broken_pipe w1 = broken_pipe w" by auto
        note adv = size_t_advance [OF True pos le]
        have nn: "nat n \<le> unat l - unat t" using le unfolding lt by (simp only: nat_le_iff)
        with s1 chunk have s1: "sent_to w (take (nat n) (drop (unat t) b)) w1" by (simp add: min_absorb1)
        have eq: "send_loop b t l w = send_loop b (t + of_int n) l w1"
          using True Some n False by (simp add: send_loop.simps [of b t l w])
        have "case send_loop b (t + of_int n) l w1 of None \<Rightarrow> \<not> unat l \<le> length b
          | Some (rc, w') \<Rightarrow> send_rel (drop (nat n) (drop (unat t) b)) (unat l - unat t - nat n) w1 rc w'"
          using "1.IH" [OF True Some n [symmetric] refl False adv(2)] unfolding adv(1)
          by (simp only: drop_drop diff_diff_left add.commute [of "nat n"])
        then show ?thesis unfolding eq
          by (auto split: option.splits intro: send_rel_step [OF s1 _ nn p1])
      qed
    qed
  qed
qed

definition read_from :: "world \<Rightarrow> nat \<Rightarrow> world \<Rightarrow> bool" where
  "read_from w k w' \<longleftrightarrow> k \<le> length (inbox w) \<and> (\<exists>c. w' = w\<lparr>inbox := drop k (inbox w), io_calls := c\<rparr>)"
lemma read_from_refl: "read_from w 0 w" by (auto simp: read_from_def intro!: exI[of _ "io_calls w"])

lemma read_from_trans: "read_from w k w' \<Longrightarrow> read_from w' j w'' \<Longrightarrow> read_from w (k + j) w''"
  by (auto simp: read_from_def add.commute)

lemma read_from_0: "read_from w 0 (w\<lparr>io_calls := c\<rparr>)"
  by (auto simp: read_from_def intro!: exI [of _ c])

lemma read_from_k:
  "k \<le> length (inbox w) \<Longrightarrow> read_from w k (w\<lparr>inbox := drop k (inbox w), io_calls := c\<rparr>)"
  by (auto simp: read_from_def)

lemma sys_recv_spec:
  assumes "sys_recv n w = Some (k, d, w')" and "0 < n"
  shows "read_from w (length d) w'" and "d = take (length d) (inbox w)"
    and "k < 0 \<and> d = [] \<or> k = 0 \<and> d = [] \<and> peer_closed w \<and> inbox w = [] \<or>
      0 < k \<and> k = int (length d) \<and> length d \<le> n"
  using assms
  by (auto simp: sys_recv_def Let_def read_from_0 min_le_iff_disj
      split: io_choice.splits if_splits intro!: read_from_k)

lemma sys_recv_None: "sys_recv n w = None \<Longrightarrow> \<not> peer_closed w \<and> inbox w = []"
  by (auto simp: sys_recv_def Let_def split: io_choice.splits if_splits)

definition recv_rel :: "bytes \<Rightarrow> nat \<Rightarrow> nat \<Rightarrow> world \<Rightarrow> int \<Rightarrow> bytes \<Rightarrow> world \<Rightarrow> bool" where
  "recv_rel b off n w rc b' w' \<longleftrightarrow>
     length b' = length b \<and>
     (\<exists>k. read_from w k w' \<and> b' = take off b @ take k (inbox w) @ drop (off + k) b \<and>
        (rc = 0 \<and> k = n \<or> rc = 1 \<and> k < n \<and> peer_closed w \<and> k = length (inbox w) \<or> rc = - 1 \<and> k < n))"

lemma recv_rel_step:
  assumes rf: "read_from w m w1" and "recv_rel b1 (off + m) (n - m) w1 rc b' w'" and "m \<le> n"
    and b1: "b1 = take off b @ take m (inbox w) @ drop (off + m) b" and off: "off \<le> length b"
    and len: "length b1 = length b"
  shows "recv_rel b off n w rc b' w'"
proof -
  from rf have m: "m \<le> length (inbox w)" and w1: "inbox w1 = drop m (inbox w)" "peer_closed w1 = peer_closed w"
    by (auto simp: read_from_def)
  from assms(2) have "length b' = length b" by (simp add: recv_rel_def len)
  moreover
  from assms(2) obtain k where k: "read_from w1 k w'"
    "b' = take (off + m) b1 @ take k (inbox w1) @ drop (off + m + k) b1"
    "rc = 0 \<and> k = n - m \<or> rc = 1 \<and> k < n - m \<and> peer_closed w1 \<and> k = length (inbox w1) \<or>
     rc = - 1 \<and> k < n - m" by (auto simp: recv_rel_def)
  have "take (off + m) b1 = take off b @ take m (inbox w)" "drop (off + m + k) b1 = drop (off + (m + k)) b"
    using m off by (simp_all add: b1 min_absorb2 ac_simps)
  then have b': "b' = take off b @ take (m + k) (inbox w) @ drop (off + (m + k)) b"
    using k(2) w1(1) by (simp add: take_add)
  ultimately show ?thesis
    using b' read_from_trans [OF rf k(1)] k(3) assms(3) w1 m
    unfolding recv_rel_def by (intro conjI exI [of _ "m + k"]) auto
qed

lemma recv_loop_spec:
  "t \<le> l \<Longrightarrow>
   (case recv_loop b t l w of
      None \<Rightarrow> \<not> (unat l \<le> length b \<and> (peer_closed w \<or> unat l - unat t \<le> length (inbox w)))
    | Some (rc, b', w') \<Rightarrow> recv_rel b (unat t) (unat l - unat t) w rc b' w')"
proof (induction b t l w rule: recv_loop.induct)
  case (1 b t l w)
  show ?case
  proof (cases "t < l")
    case False
    with "1.prems" show ?thesis
      by (auto simp: recv_loop_stop recv_rel_def intro: read_from_refl)
  next
    case True
    have lt: "unat (l - t) = unat l - unat t" using True by (simp add: unat_sub less_imp_le)
    have pos: "0 < unat (l - t)" using True unfolding lt by (simp add: word_less_nat_alt)
    note unf = recv_loop.simps [of b t l w]
    show ?thesis
    proof (cases "rd b (unat t) (unat (l - t))")
      case None
      with True show ?thesis
        by (auto simp: unf rd_def lt word_less_nat_alt split: if_splits)
    next
      case (Some chunk)
      then have len: "unat l \<le> length b" "unat t \<le> length b"
        using True by (auto simp: rd_eq_Some_iff lt word_less_nat_alt)
      show ?thesis
      proof (cases "sys_recv (unat (l - t)) w")
        case None
        with True Some pos show ?thesis by (auto simp: unf lt dest: sys_recv_None)
      next
        case res: (Some r)
        obtain n d w1 where r: "r = (n, d, w1)" by (cases r)
        note spec = sys_recv_spec [OF res [unfolded r] pos]
        have ld: "length d \<le> unat l - unat t" using spec(3) unfolding lt by auto
        define b1 where "b1 = take (unat t) b @ d @ drop (unat t + length d) b"
        have wrb: "wr b (unat t) d = Some b1"
          using ld len by (simp add: b1_def wr_def)
        have b1: "b1 = take (unat t) b @ take (length d) (inbox w) @ drop (unat t + length d) b"
          using spec(2) by (simp add: b1_def)
        show ?thesis
        proof (cases "0 < n")
          case False
          with spec pos True Some res r wrb b1 show ?thesis
            by (auto simp: unf recv_rel_def lt intro!: exI [of _ 0])
        next
          case npos: True
          with spec(3) have n: "n = int (length d)" "length d \<le> unat (l - t)" by auto
          from n(2) have n2: "n \<le> int (unat (l - t))" unfolding n(1) by (simp only: of_nat_le_iff)
          note adv = size_t_advance [OF True npos n2]
          have eq: "recv_loop b t l w = recv_loop b1 (t + of_int n) l w1"
            using True Some res r wrb npos by (simp add: unf)
          have lb1: "length b1 = length b" using wrb by (rule wr_length)
          have w1: "peer_closed w1 = peer_closed w" "inbox w1 = drop (length d) (inbox w)"
            using spec(1) by (auto simp: read_from_def)
          note IH = "1.IH" [OF True Some res [unfolded r] refl refl wrb _ _ adv(2), unfolded adv(1)]
          have nn: "nat n = length d" using n(1) by simp
          show ?thesis
          proof (cases "recv_loop b1 (t + of_int n) l w1")
            case None
            with IH npos have "\<not> (unat l \<le> length b \<and> (peer_closed w \<or>
                unat l - (unat t + length d) \<le> length (inbox w) - length d))"
              by (simp add: lb1 w1 nn)
            then have "\<not> (unat l \<le> length b \<and> (peer_closed w \<or> unat l - unat t \<le> length (inbox w)))"
              by linarith
            with None show ?thesis by (simp add: eq)
          next
            case res': (Some r')
            obtain rc b' w' where r': "r' = (rc, b', w')" by (cases r')
            from IH npos res' r' have "recv_rel b1 (unat t + length d) (unat l - unat t - length d) w1 rc b' w'"
              by (simp add: nn)
            from recv_rel_step [OF spec(1) this ld b1 len(2) lb1] res' r' show ?thesis by (simp add: eq)
          qed
        qed
      qed
    qed
  qed
qed

lemma send_all_spec:
  "case send_all b l w of None \<Rightarrow> \<not> unat l \<le> length b
   | Some (rc, w') \<Rightarrow> send_rel b (unat l) w rc w'"
  using send_loop_spec [of 0 l b w] by (auto simp: send_all_def split: option.splits)

lemma send_all_SomeD: "send_all b l w = Some (rc, w') \<Longrightarrow> send_rel b (unat l) w rc w'"
  using send_all_spec [where b = b and l = l and w = w] by simp

lemma recv_all_spec:
  "case recv_all b l w of
     None \<Rightarrow> \<not> (unat l \<le> length b \<and> (peer_closed w \<or> unat l \<le> length (inbox w)))
   | Some (rc, b', w') \<Rightarrow> recv_rel b 0 (unat l) w rc b' w'"
  using recv_loop_spec [of 0 l b w] by (auto simp: recv_all_def split: option.splits)

lemma recv_all_SomeD: "recv_all b l w = Some (rc, b', w') \<Longrightarrow> recv_rel b 0 (unat l) w rc b' w'"
  using recv_all_spec [where b = b and l = l and w = w] by simp

subsection \<open>The interfaces provided\<close>

text \<open>The world but for what a transfer in the other direction changes.\<close>

definition but_inbox :: "world \<Rightarrow> world" where
  "but_inbox w = w\<lparr>inbox := [], io_calls := 0\<rparr>"

interpretation snk: byte_sink send_all outbox but_outbox
proof (unfold_locales, goal_cases)
  case (1 n d w)
  then show ?case using send_all_spec [where b = d and l = n and w = w] by (auto split: option.splits)
next
  case (2 d n w rc w')
  then show ?case by (auto dest!: send_all_SomeD simp: send_rel_def)
next
  case (3 d n w w')
  then show ?case by (auto dest!: send_all_SomeD simp: send_rel_def sent_to_def)
next
  case (4 d n w w')
  then show ?case by (fastforce dest!: send_all_SomeD simp: send_rel_def sent_to_def)
next
  case (5 d n w rc w')
  then show ?case by (auto dest!: send_all_SomeD simp: send_rel_def sent_to_def but_outbox_def)
qed

interpretation src: byte_source recv_all inbox peer_closed but_inbox
proof (unfold_locales, goal_cases)
  case (1 n b w)
  then show ?case using recv_all_spec [where b = b and l = n and w = w] by (auto split: option.splits)
next
  case (2 b n w rc b' w')
  then show ?case by (auto dest!: recv_all_SomeD simp: recv_rel_def)
next
  case (3 b n w b' w')
  then show ?case by (auto dest!: recv_all_SomeD simp: recv_rel_def read_from_def)
next
  case (4 b n w b' w')
  then show ?case by (auto dest!: recv_all_SomeD simp: recv_rel_def read_from_def)
next
  case (5 b n w b' w')
  then show ?case by (fastforce dest!: recv_all_SomeD simp: recv_rel_def read_from_def)
next
  case (6 b n w rc b' w')
  then show ?case by (auto dest!: recv_all_SomeD simp: recv_rel_def)
next
  case (7 b n w rc b' w')
  then show ?case by (auto dest!: recv_all_SomeD simp: recv_rel_def read_from_def but_inbox_def)
qed

subsection \<open>Several buffers in a row\<close>

lemma put_all_pipe: "put_all send_all ps w = Some (rc, w') \<Longrightarrow> pipe_to w w'"
proof (induction ps arbitrary: w)
  case Nil
  then show ?case by simp
next
  case (Cons p ps)
  obtain d n where p: "p = (d, n)" by (cases p)
  from Cons.prems p obtain r1 w1 where 1: "send_all d n w = Some (r1, w1)"
    "if r1 = - 1 then rc = - 1 \<and> w' = w1 else put_all send_all ps w1 = Some (rc, w')"
    by (auto simp: Option.bind_eq_Some_conv split: if_splits)
  from send_all_SomeD [OF 1(1)] have "pipe_to w w1" "io_sched w1 = io_sched w"
    by (auto simp: send_rel_def sent_to_iff dest: but_outbox_sched)
  with 1(2) Cons.IH show ?case by (auto split: if_splits intro: pipe_to_trans)
qed

lemma put_all_sent:
  assumes "list_all (\<lambda>(d, n). unat n \<le> length d) ps"
  shows "\<exists>rc w' k. put_all send_all ps w = Some (rc, w') \<and> sent_to w (take k (parts ps)) w' \<and>
           (rc = 0 \<and> k = length (parts ps) \<or> rc = - 1 \<and> k < length (parts ps))"
proof -
  obtain rc w' where res: "put_all send_all ps w = Some (rc, w')"
    using snk.put_all_returns [OF assms] by blast
  from snk.put_all_rc [OF res] show ?thesis
  proof
    assume "rc = 0"
    with res snk.put_all_ok [of ps w w'] snk.put_all_rest [OF res] put_all_pipe [OF res] show ?thesis
      by (intro exI [of _ rc] exI [of _ w'] exI [of _ "length (parts ps)"]) (simp add: sent_to_iff)
  next
    assume "rc = - 1"
    with res snk.put_all_err [OF assms, of w w'] snk.put_all_rest [OF res] put_all_pipe [OF res] show ?thesis
      by (auto simp: sent_to_iff)
  qed
qed

subsection \<open>Schedules without failures\<close>

lemma io_fine_sent: "sent_to w d w' \<Longrightarrow> io_fine w' \<longleftrightarrow> io_fine w"
  by (auto simp: sent_to_def io_fine_def)

lemma io_fine_read: "read_from w k w' \<Longrightarrow> io_fine w' \<longleftrightarrow> io_fine w"
  by (auto simp: read_from_def io_fine_def)

lemma sys_send_fine:
  assumes "io_fine w" and "d \<noteq> []" and "sys_send d w = (n, w')"
  shows "0 < n"
proof -
  from assms(1) obtain m where "io_sched w (io_calls w) = Xfer (Suc m)"
    unfolding io_fine_def by blast
  with assms(2,3) show ?thesis by (auto simp: sys_send_def Let_def)
qed

lemma sys_recv_fine:
  assumes "io_fine w" and "sys_recv n w = Some (k, d, w')"
  shows "0 \<le> k"
proof -
  from assms(1) obtain m where "io_sched w (io_calls w) = Xfer (Suc m)"
    unfolding io_fine_def by blast
  with assms(2) show ?thesis by (auto simp: sys_recv_def Let_def split: if_splits)
qed

lemma send_loop_fine:
  "io_fine w \<Longrightarrow> t \<le> l \<Longrightarrow> send_loop b t l w = Some (rc, w') \<Longrightarrow> rc = 0"
proof (induction b t l w rule: send_loop.induct)
  case (1 b t l w)
  show ?case
  proof (cases "t < l")
    case False
    with "1.prems" show ?thesis by (simp add: send_loop_stop)
  next
    case True
    with "1.prems" obtain chunk where rd: "rd b (unat t) (unat (l - t)) = Some chunk"
      by (auto simp: send_loop.simps [of b t l w] Option.bind_eq_Some_conv)
    obtain n w1 where n: "sys_send chunk w = (n, w1)" by fastforce
    have len: "length chunk = unat (l - t)" using rd by (rule rd_length)
    have "chunk \<noteq> []" using len True
      by (metis list.size(3) right_minus_eq unat_eq_zero less_irrefl)
    then have pos: "0 < n" using "1.prems"(1) n by (intro sys_send_fine)
    have le: "n \<le> int (unat (l - t))" using sys_send_bounds [OF n] unfolding len .
    have fine: "io_fine w1" using "1.prems"(1) io_fine_sent sys_send_spec [OF n] by (auto split: if_splits)
    have "send_loop b (t + of_int n) l w1 = Some (rc, w')"
      using "1.prems" True rd n pos by (simp add: send_loop.simps [of b t l w])
    with "1.IH" [OF True rd n [symmetric] refl _ fine size_t_advance(2) [OF True pos le]] pos
    show ?thesis by simp
  qed
qed

lemma recv_loop_fine:
  "io_fine w \<Longrightarrow> t \<le> l \<Longrightarrow> recv_loop b t l w = Some (rc, b', w') \<Longrightarrow> rc \<noteq> - 1"
proof (induction b t l w rule: recv_loop.induct)
  case (1 b t l w)
  show ?case
  proof (cases "t < l")
    case False
    with "1.prems" show ?thesis by (simp add: recv_loop_stop)
  next
    case True
    note unf = recv_loop.simps [of b t l w]
    have lt: "unat (l - t) = unat l - unat t" using True by (simp add: unat_sub less_imp_le)
    have lpos: "0 < unat (l - t)" using True unfolding lt by (simp add: word_less_nat_alt)
    from True "1.prems"(3) obtain u n d w1 b1 where rd: "rd b (unat t) (unat (l - t)) = Some u"
      and rv: "sys_recv (unat (l - t)) w = Some (n, d, w1)" and wrb: "wr b (unat t) d = Some b1"
      by (auto simp: unf Option.bind_eq_Some_conv)
    note spec = sys_recv_spec [OF rv lpos]
    have "0 \<le> n" using "1.prems"(1) rv by (rule sys_recv_fine)
    then consider "n = 0" | "0 < n" by linarith
    then show ?thesis
    proof cases
      case 1
      with True "1.prems"(3) rd rv wrb show ?thesis by (auto simp: unf)
    next
      case pos: 2
      then have n: "n = int (length d)" "length d \<le> unat (l - t)" using spec(3) by auto
      from n(2) have n2: "n \<le> int (unat (l - t))" unfolding n(1) by (simp only: of_nat_le_iff)
      have "recv_loop b1 (t + of_int n) l w1 = Some (rc, b', w')"
        using "1.prems"(3) True rd rv wrb pos by (simp add: unf)
      then show ?thesis
        using "1.IH" [OF True rd rv refl refl wrb _ _ _ size_t_advance(2) [OF True pos n2]] pos
          io_fine_read [OF spec(1)] "1.prems"(1) by simp
    qed
  qed
qed

text \<open>On such a schedule the transfers are exact, whatever sizes it grants.\<close>

lemma send_all_fine:
  assumes "io_fine w" and "unat l \<le> length b"
  shows "\<exists>w'. send_all b l w = Some (0, w') \<and> sent_to w (take (unat l) b) w' \<and> io_fine w'"
proof -
  obtain rc w' where res: "send_all b l w = Some (rc, w')" using snk.put_returns [OF assms(2)] by blast
  with send_loop_fine [OF assms(1), of 0 l b rc w'] have "rc = 0" by (simp add: send_all_def)
  with send_all_SomeD [OF res] res show ?thesis
    using assms(1) io_fine_sent by (auto simp: send_rel_def)
qed

lemma recv_all_fine_cases:
  assumes "io_fine w" and "unat l \<le> length b" and "peer_closed w \<or> unat l \<le> length (inbox w)"
  shows "\<exists>w'. read_from w (min (unat l) (length (inbox w))) w' \<and> io_fine w' \<and>
     recv_all b l w =
       Some (if unat l \<le> length (inbox w) then 0 else 1,
             take (unat l) (inbox w) @ drop (min (unat l) (length (inbox w))) b, w')"
proof -
  obtain rc b' w' where res: "recv_all b l w = Some (rc, b', w')"
    using src.get_returns [OF assms(2,3)] by blast
  with recv_loop_fine [OF assms(1), of 0 l b rc b' w'] have "rc \<noteq> - 1" by (simp add: recv_all_def)
  with recv_all_SomeD [OF res] obtain k where k: "read_from w k w'" "b' = take k (inbox w) @ drop k b"
      "rc = 0 \<and> k = unat l \<or> rc = 1 \<and> k < unat l \<and> k = length (inbox w)"
    by (auto simp: recv_rel_def)
  then have "k = min (unat l) (length (inbox w))" "rc = (if unat l \<le> length (inbox w) then 0 else 1)"
    by (auto simp: read_from_def)
  moreover have "take (min (unat l) (length (inbox w))) (inbox w) = take (unat l) (inbox w)"
    by (simp add: min_def)
  ultimately show ?thesis using k(1,2) res io_fine_read [OF k(1)] assms(1) by auto
qed

lemma recv_all_fine:
  assumes "io_fine w" and "unat l \<le> length b" and "unat l \<le> length (inbox w)"
  shows "\<exists>w'. recv_all b l w = Some (0, take (unat l) (inbox w) @ drop (unat l) b, w') \<and>
           read_from w (unat l) w' \<and> io_fine w'"
  using recv_all_fine_cases [OF assms(1,2)] assms(3) by (auto simp: min_absorb1)

lemma put_all_fine:
  assumes "io_fine w" and "list_all (\<lambda>(d, n). unat n \<le> length d) ps"
  shows "\<exists>w'. put_all send_all ps w = Some (0, w') \<and> sent_to w (parts ps) w' \<and> io_fine w'"
  using assms
proof (induction ps arbitrary: w)
  case Nil
  then show ?case by (auto intro: sent_to_refl)
next
  case (Cons p ps)
  obtain d n where p: "p = (d, n)" by (cases p)
  with Cons.prems obtain w1 where 1: "send_all d n w = Some (0, w1)" "sent_to w (take (unat n) d) w1" "io_fine w1"
    using send_all_fine [of w n d] by auto
  with Cons obtain w' where "put_all send_all ps w1 = Some (0, w')" "sent_to w1 (parts ps) w'" "io_fine w'"
    by (auto simp: p)
  with 1 p show ?case by (auto intro: sent_to_trans)
qed

subsection \<open>Printing bytes\<close>

text \<open>\<open>print_hex\<close> writes two upper-case digits per byte and a newline to standard output: here
  the text it writes.\<close>

definition hex_digit :: "nat \<Rightarrow> char" where
  "hex_digit n = ''0123456789ABCDEF'' ! n"

definition hex_byte :: "byte \<Rightarrow> string" where
  "hex_byte b = [hex_digit (unat b div 16), hex_digit (unat b mod 16)]"

definition print_hex :: "bytes \<Rightarrow> size_t \<Rightarrow> string option" where
  "print_hex data len =
     do { d \<leftarrow> rd data 0 (unat len); Some (concat (map hex_byte d) @ [CHR 0x0A]) }"

text \<open>\<open>printf\<close> with \<open>%s\<close> of a string in a memory block: the bytes up to the first NUL. Without one in
  the block it reads past the end, undefined behaviour.\<close>

definition print_cstr :: "bytes \<Rightarrow> bytes option" where
  "print_cstr block = (if 0 \<in> set block then Some (takeWhile (\<lambda>b. b \<noteq> 0) block) else None)"

lemma print_cstr_front:
  assumes "0 \<notin> set t"
  shows "print_cstr (t @ 0 # r) = Some t"
proof -
  have "takeWhile (\<lambda>b. b \<noteq> 0) (t @ 0 # r) = t @ takeWhile (\<lambda>b. b \<noteq> 0) (0 # r)"
    by (rule takeWhile_append2) (use assms in blast)
  then show ?thesis by (simp add: print_cstr_def)
qed

lemma length_hex_byte [simp]: "length (hex_byte b) = 2"
  by (simp add: hex_byte_def)

lemma hex_byte_nonempty [simp]: "hex_byte b \<noteq> []"
  by (simp add: hex_byte_def)

lemma hex_digit_inj: "i < 16 \<Longrightarrow> j < 16 \<Longrightarrow> hex_digit i = hex_digit j \<Longrightarrow> i = j"
proof -
  have "distinct ''0123456789ABCDEF''" by simp
  then show "i < 16 \<Longrightarrow> j < 16 \<Longrightarrow> hex_digit i = hex_digit j \<Longrightarrow> i = j"
    unfolding hex_digit_def by (subst (asm) nth_eq_iff_index_eq) simp_all
qed

lemma hex_byte_inj:
  assumes "hex_byte a = hex_byte b"
  shows "a = b"
proof -
  have "unat a div 16 < 16" "unat b div 16 < 16" using unat_byte_lt [of a] unat_byte_lt [of b] by simp_all
  with assms have "unat a div 16 = unat b div 16" "unat a mod 16 = unat b mod 16"
    by (auto simp: hex_byte_def intro: hex_digit_inj)
  then have "unat a = unat b" by (metis div_mult_mod_eq)
  then show ?thesis by (simp only: word_unat_eq_iff)
qed

lemma hex_text_inj: "concat (map hex_byte d) = concat (map hex_byte e) \<Longrightarrow> d = e"
proof (induction d arbitrary: e)
  case Nil
  then show ?case by (cases e) simp_all
next
  case (Cons a d)
  then obtain b e' where e: "e = b # e'" by (cases e) simp_all
  with Cons.prems have "hex_byte a = hex_byte b \<and> concat (map hex_byte d) = concat (map hex_byte e')"
    by (subst append_eq_append_conv [symmetric]) simp_all
  with Cons.IH e show ?case by (simp add: hex_byte_inj)
qed

subsection \<open>Properties\<close>

text \<open>C30: unless \<open>SIGPIPE\<close> kills the process, \<open>send_all\<close> always returns (its loop ends and never
  reads outside the buffer); it returns 0 exactly when all \<open>len\<close> bytes were written, in order,
  and then raised no signal, and -1 after writing a proper prefix of them; nothing else of the
  world changes.\<close>

theorem send_all_correct:
  assumes "unat len \<le> length buffer"
  shows "\<exists>rc w'. send_all buffer len w = Some (rc, w') \<and>
     (rc = 0 \<and> sent_to w (take (unat len) buffer) w' \<and> broken_pipe w' = broken_pipe w \<or>
      rc = - 1 \<and> (\<exists>k. k < unat len \<and> sent_to w (take k buffer) w'))"
proof -
  obtain rc w' where "send_all buffer len w = Some (rc, w')"
    using snk.put_returns [OF assms] by blast
  with send_all_SomeD [OF this] show ?thesis by (auto simp: send_rel_def)
qed

theorem send_all_correct_witness:
  "\<exists>rc w'. send_all [1, 2, 3] 2 (sample_world []) = Some (rc, w') \<and>
     (rc = 0 \<and> sent_to (sample_world []) [1, 2] w' \<and> \<not> broken_pipe w' \<or>
      rc = - 1 \<and> (\<exists>k. k < 2 \<and> sent_to (sample_world []) (take k [1, 2, 3]) w'))"
  using send_all_correct [of 2 "[1, 2, 3]" "sample_world []"] by simp

text \<open>C31: with a peer that eventually closes or has enough data to offer, \<open>recv_all\<close> always
  returns, writes only inside the buffer, and returns 0 exactly when the first \<open>len\<close> bytes of
  the stream fill the front of the buffer, 1 when the peer closed before that, and -1 on an
  error; whatever the result, it consumes exactly the bytes it stored.\<close>

theorem recv_all_correct:
  assumes "unat len \<le> length buffer"
    and "peer_closed w \<or> unat len \<le> length (inbox w)"
  shows "\<exists>rc b' w' k. recv_all buffer len w = Some (rc, b', w') \<and> read_from w k w' \<and>
     b' = take k (inbox w) @ drop k buffer \<and>
     (rc = 0 \<and> k = unat len \<or>
      rc = 1 \<and> k < unat len \<and> peer_closed w \<and> k = length (inbox w) \<or>
      rc = - 1 \<and> k < unat len)"
proof -
  obtain rc b' w' where "recv_all buffer len w = Some (rc, b', w')"
    using src.get_returns [OF assms] by blast
  with recv_all_SomeD [OF this] show ?thesis unfolding recv_rel_def by auto
qed

theorem recv_all_correct_witness:
  "\<exists>rc b' w' k. recv_all [0, 0, 0] 3 (sample_world [8, 9]) = Some (rc, b', w') \<and>
     read_from (sample_world [8, 9]) k w' \<and> b' = take k [8, 9] @ drop k [0, 0, 0] \<and>
     (rc = 0 \<and> k = 3 \<or> rc = 1 \<and> k < 3 \<and> k = length [8, 9 :: byte] \<or> rc = - 1 \<and> k < 3)"
  using recv_all_correct [of 3 "[0, 0, 0]" "sample_world [8, 9]"]
  by simp

text \<open>C32: how the operating system cuts a transfer into pieces does not matter: on every
  schedule without failures, \<open>send_all\<close> writes the whole buffer and \<open>recv_all\<close> of as many bytes
  as the stream holds fills the buffer with them.\<close>

theorem transfers_ignore_chunking:
  assumes "io_fine w" and "unat len \<le> length buffer" and "unat len \<le> length (inbox w)"
  shows "(\<exists>c. send_all buffer len w =
             Some (0, w\<lparr>outbox := outbox w @ take (unat len) buffer, io_calls := c\<rparr>)) \<and>
         (\<exists>c. recv_all buffer len w =
             Some (0, take (unat len) (inbox w) @ drop (unat len) buffer,
                   w\<lparr>inbox := drop (unat len) (inbox w), io_calls := c\<rparr>))"
  using send_all_fine [OF assms(1,2)] recv_all_fine [OF assms] sent_to_fineD [OF _ assms(1)]
  by (fastforce simp: read_from_def)

theorem transfers_ignore_chunking_witness:
  "(\<exists>c. send_all [4, 5, 6, 7] 4 (sample_world [1, 2, 3, 4, 5]) =
       Some (0, sample_world [1, 2, 3, 4, 5]\<lparr>outbox := [4, 5, 6, 7], io_calls := c\<rparr>)) \<and>
   (\<exists>c. recv_all [4, 5, 6, 7] 4 (sample_world [1, 2, 3, 4, 5]) =
       Some (0, [1, 2, 3, 4], sample_world [1, 2, 3, 4, 5]\<lparr>inbox := [5], io_calls := c\<rparr>))"
  using transfers_ignore_chunking [OF sample_world_fine, of 4 "[4, 5, 6, 7]" "[1, 2, 3, 4, 5]"]
  by simp

end
