(* ===== verification/Tls_Record.thy ===== *)
theory Tls_Record
  imports Aes_Gcm Common
begin

section \<open>The record layer (\<open>src/tls_record.c\<close>)\<close>

text \<open>
  Application data travels in records: a 5-byte header (content type, version, length) that is
  also the additional data of the cipher, the ciphertext and the tag. Each direction has a key,
  a static IV and a 64-bit sequence number; the nonce of a record is the IV with the sequence
  number XORed into its last eight bytes.
\<close>

abbreviation TLS_RECORD_HEADER_LEN :: nat where "TLS_RECORD_HEADER_LEN \<equiv> 5"
abbreviation TLS_RECORD_VERSION :: uint16 where "TLS_RECORD_VERSION \<equiv> 0x0303"
abbreviation TLS_CONTENT_TYPE_APPLICATION_DATA :: byte where
  "TLS_CONTENT_TYPE_APPLICATION_DATA \<equiv> 23"
abbreviation TLS_RECORD_MAX_PLAINTEXT_LEN :: nat where "TLS_RECORD_MAX_PLAINTEXT_LEN \<equiv> 1024"

record tls_record_state =
  rs_key :: bytes
  rs_static_iv :: bytes
  sequence_number :: uint64

subsection \<open>Operations\<close>

definition encode_record_header :: "byte \<Rightarrow> uint16 \<Rightarrow> bytes" where
  "encode_record_header content_type len =
     content_type # be16 TLS_RECORD_VERSION @ be16 len"

definition make_record_nonce :: "bytes \<Rightarrow> uint64 \<Rightarrow> bytes" where
  "make_record_nonce static_iv seq =
     fold (\<lambda>i nonce. nonce[AES_GCM_IV_LEN - 1 - i :=
                           nonce ! (AES_GCM_IV_LEN - 1 - i) XOR ucast (drop_bit (8 * i) seq)])
       [0..<8] static_iv"

definition recv_record_header ::
  "ptr \<Rightarrow> byte option \<Rightarrow> uint16 option \<Rightarrow> world
     \<Rightarrow> (int \<times> ptr \<times> byte option \<times> uint16 option \<times> world) option" where
  "recv_record_header header content_type len w =
     (if header = None \<or> content_type = None \<or> len = None
      then Some (- 1, header, content_type, len, w)
      else do {
        h \<leftarrow> header;
        (rc, h, w) \<leftarrow> recv_all h (of_nat TLS_RECORD_HEADER_LEN) w;
        if rc \<noteq> 0 then Some (rc, Some h, content_type, len, w)
        else do {
          let content_type = Some (h ! 0);
          let len = Some (be16_dec (h ! 3) (h ! 4));
          if h ! 1 \<noteq> 0x03 \<or> h ! 2 \<noteq> 0x03 then Some (- 1, Some h, content_type, len, w)
          else Some (0, Some h, content_type, len, w)
        }
      })"

definition tls_record_state_init ::
  "tls_record_state option \<Rightarrow> ptr \<Rightarrow> ptr \<Rightarrow> (int \<times> tls_record_state option) option" where
  "tls_record_state_init state key static_iv =
     (if state = None \<or> key = None \<or> static_iv = None then Some (- 1, state)
      else do {
        k \<leftarrow> key;
        k \<leftarrow> rd k 0 AES_256_KEY_LEN;
        v \<leftarrow> static_iv;
        v \<leftarrow> rd v 0 AES_GCM_IV_LEN;
        Some (0, Some \<lparr>rs_key = k, rs_static_iv = v, sequence_number = 0\<rparr>)
      })"

text \<open>The conversion of a \<open>size_t\<close> to \<open>int\<close>.\<close>

definition to_int :: "size_t \<Rightarrow> int" where
  "to_int n = sint (ucast n :: 32 word)"

definition send_encrypted_record ::
  "('c, 'm) lib \<Rightarrow> ptr \<Rightarrow> size_t \<Rightarrow> tls_record_state option \<Rightarrow> world
     \<Rightarrow> (int \<times> tls_record_state option \<times> world) option" where
  "send_encrypted_record L plaintext plaintext_len state w =
     (if plaintext = None \<or> state = None then Some (- 1, state, w)
      else if plaintext_len = 0 \<or> plaintext_len > of_nat TLS_RECORD_MAX_PLAINTEXT_LEN
      then Some (- 1, state, w)
      else do {
        st \<leftarrow> state;
        let encrypted_len = ucast (plaintext_len + of_nat AES_GCM_TAG_LEN);
        let header = encode_record_header TLS_CONTENT_TYPE_APPLICATION_DATA encrypted_len;
        let nonce = make_record_nonce (rs_static_iv st) (sequence_number st);
        (ciphertext_len, ciphertext, tag, w) \<leftarrow>
          aes_gcm_encrypt L plaintext (to_int plaintext_len) (Some header) (int TLS_RECORD_HEADER_LEN)
            (Some (rs_key st)) (Some nonce)
            (Some (local_array TLS_RECORD_MAX_PLAINTEXT_LEN)) (Some (local_array AES_GCM_TAG_LEN)) w;
        if ciphertext_len < 0 then Some (- 1, state, w)
        else do {
          (rc, w) \<leftarrow> send_all header (of_nat TLS_RECORD_HEADER_LEN) w;
          if rc = - 1 then Some (- 1, state, w)
          else do {
            c \<leftarrow> ciphertext;
            (rc, w) \<leftarrow> send_all c (of_int ciphertext_len) w;
            if rc = - 1 then Some (- 1, state, w)
            else do {
              t \<leftarrow> tag;
              (rc, w) \<leftarrow> send_all t (of_nat AES_GCM_TAG_LEN) w;
              if rc = - 1 then Some (- 1, state, w)
              else Some (0, Some (st\<lparr>sequence_number := sequence_number st + 1\<rparr>), w)
            }
          }
        }
      })"

definition recv_encrypted_record ::
  "('c, 'm) lib \<Rightarrow> ptr \<Rightarrow> size_t \<Rightarrow> size_t option \<Rightarrow> tls_record_state option \<Rightarrow> world
     \<Rightarrow> (int \<times> ptr \<times> size_t option \<times> tls_record_state option \<times> world) option" where
  "recv_encrypted_record L plaintext plaintext_capacity plaintext_len state w =
     (if plaintext = None \<or> plaintext_len = None \<or> state = None
      then Some (- 1, plaintext, plaintext_len, state, w)
      else do {
        (rc, header, content_type, encrypted_len, w) \<leftarrow>
          recv_record_header (Some (local_array TLS_RECORD_HEADER_LEN)) (Some 0) (Some 0) w;
        if rc \<noteq> 0 then Some (rc, plaintext, plaintext_len, state, w)
        else do {
          ct \<leftarrow> content_type;
          if ct \<noteq> TLS_CONTENT_TYPE_APPLICATION_DATA
          then Some (- 1, plaintext, plaintext_len, state, w)
          else do {
            n \<leftarrow> encrypted_len;
            if n \<le> of_nat AES_GCM_TAG_LEN then Some (- 1, plaintext, plaintext_len, state, w)
            else do {
              let ciphertext_len = (ucast n - of_nat AES_GCM_TAG_LEN :: size_t);
              if ciphertext_len > of_nat TLS_RECORD_MAX_PLAINTEXT_LEN \<or> ciphertext_len > plaintext_capacity
              then Some (- 1, plaintext, plaintext_len, state, w)
              else do {
                (rc, ciphertext, w) \<leftarrow> recv_all (local_array TLS_RECORD_MAX_PLAINTEXT_LEN) ciphertext_len w;
                if rc \<noteq> 0 then Some (rc, plaintext, plaintext_len, state, w)
                else do {
                  (rc, tag, w) \<leftarrow> recv_all (local_array AES_GCM_TAG_LEN) (of_nat AES_GCM_TAG_LEN) w;
                  if rc \<noteq> 0 then Some (rc, plaintext, plaintext_len, state, w)
                  else do {
                    st \<leftarrow> state;
                    let nonce = make_record_nonce (rs_static_iv st) (sequence_number st);
                    (decrypted_len, plaintext, w) \<leftarrow>
                      aes_gcm_decrypt L (Some ciphertext) (to_int ciphertext_len) header
                        (int TLS_RECORD_HEADER_LEN) (Some tag) (Some (rs_key st)) (Some nonce) plaintext w;
                    if decrypted_len < 0 then Some (- 1, plaintext, plaintext_len, state, w)
                    else Some (0, plaintext, Some (of_int decrypted_len),
                               Some (st\<lparr>sequence_number := sequence_number st + 1\<rparr>), w)
                  }
                }
              }
            }
          }
        }
      })"

subsection \<open>The wire format\<close>

text \<open>A record with fragment \<open>frag\<close>, its parser, and the fragment lengths a receiver accepts.\<close>

definition rec_msg :: "bytes \<Rightarrow> bytes" where
  "rec_msg frag = encode_record_header TLS_CONTENT_TYPE_APPLICATION_DATA (of_nat (length frag)) @ frag"

definition rec_valid :: "bytes \<Rightarrow> bool" where
  "rec_valid frag \<longleftrightarrow> 16 < length frag \<and> length frag \<le> 1040"

definition parse_rec :: "bytes \<Rightarrow> (bytes \<times> bytes) option" where
  "parse_rec s =
     (case s of
        t # a # b # h # l # r \<Rightarrow>
          (let n = unat (be16_dec h l) in
           if t = TLS_CONTENT_TYPE_APPLICATION_DATA \<and> a = 3 \<and> b = 3 \<and> 16 < n \<and> n \<le> 1040 \<and> n \<le> length r
           then Some (take n r, drop n r) else None)
      | _ \<Rightarrow> None)"

lemma length_encode_record_header [simp]: "length (encode_record_header t n) = 5"
  by (simp add: encode_record_header_def)

lemma length_rec_msg [simp]: "length (rec_msg b) = 5 + length b"
  by (simp add: rec_msg_def)

lemma record_header_parts: "encode_record_header t n = [t, 3, 3, be16 n ! 0, be16 n ! Suc 0]"
  by (simp add: encode_record_header_def be16_def)

lemma unat_of_nat_uint16: "n < 65536 \<Longrightarrow> unat (of_nat n :: uint16) = n"
  by (simp add: unat_of_nat)

interpretation rec: prefix_code rec_msg parse_rec rec_valid
proof (unfold_locales, goal_cases)
  case (1 x r)
  then show ?case
    by (simp add: rec_valid_def rec_msg_def record_header_parts parse_rec_def be16_dec_be16
        unat_of_nat_uint16 Let_def)
next
  case (2 s x r)
  then obtain t a b h l u where s: "s = t # a # b # h # l # u"
    by (auto simp: parse_rec_def split: list.splits)
  define n where "n = be16_dec h l"
  from 2 s have n: "unat n \<le> length u" "16 < unat n" "unat n \<le> 1040" "x = take (unat n) u"
    "r = drop (unat n) u" "t = 23" "a = 3" "b = 3"
    by (auto simp: parse_rec_def n_def Let_def split: if_splits)
  have "be16 n = [h, l]" by (simp add: n_def be16_be16_dec)
  with n s show ?case
    by (simp add: rec_valid_def rec_msg_def record_header_parts min_absorb2)
next
  case (3 x)
  then show ?case by (simp add: rec_msg_def encode_record_header_def)
qed

subsection \<open>Nonces\<close>

lemma length_make_record_nonce [simp]: "length (make_record_nonce iv s) = length iv"
proof -
  have "length (fold (\<lambda>i n. n[f i := g i n]) is v) = length v" for f :: "nat \<Rightarrow> nat" and g "is" and v :: bytes
    by (induction "is" arbitrary: v) simp_all
  then show ?thesis by (simp add: make_record_nonce_def)
qed

lemma length_12:
  "length v = 12 \<Longrightarrow> \<exists>a b c d e f g h i j k l. v = [a, b, c, d, e, f, g, h, i, j, k, l]"
  by (auto simp: length_Suc_conv numeral_eq_Suc)

lemma upt_8: "[0..<8] = [0, 1, 2, 3, 4, 5, 6, 7]"
  by (simp add: upt_rec)

lemma make_record_nonce_parts:
  "make_record_nonce [a, b, c, d, e, f, g, h, i, j, k, l] s =
     [a, b, c, d, e XOR ucast (drop_bit 56 s), f XOR ucast (drop_bit 48 s), g XOR ucast (drop_bit 40 s),
      h XOR ucast (drop_bit 32 s), i XOR ucast (drop_bit 24 s), j XOR ucast (drop_bit 16 s),
      k XOR ucast (drop_bit 8 s), l XOR ucast s]"
  by (simp add: make_record_nonce_def upt_8)

lemma word_xor_cancel: "(a XOR b = a XOR c) \<longleftrightarrow> b = (c :: 'a::len word)"
proof
  assume "a XOR b = a XOR c"
  then have "a XOR (a XOR b) = a XOR (a XOR c)" by simp
  then show "b = c" by (simp flip: xor.assoc)
qed simp

lemma bytes_determine_uint64:
  assumes "\<And>i. i < 8 \<Longrightarrow> (ucast (drop_bit (8 * i) s) :: byte) = ucast (drop_bit (8 * i) t)"
  shows "s = (t :: uint64)"
proof (rule bit_word_eqI)
  fix n assume "n < LENGTH(64)"
  then have i: "n div 8 < 8" by simp
  have "bit (ucast (drop_bit (8 * (n div 8)) x) :: byte) (n mod 8) = bit x n" for x :: uint64
    by (simp add: bit_simps)
  with assms [OF i] show "bit s n = bit t n" by metis
qed

lemma make_record_nonce_inj:
  assumes "length iv = 12" and eq: "make_record_nonce iv s = make_record_nonce iv t"
  shows "s = t"
proof (rule bytes_determine_uint64)
  fix i :: nat assume "i < 8"
  then have "i \<in> set [0, 1, 2, 3, 4, 5, 6, 7]" unfolding upt_8 [symmetric] by simp
  moreover obtain a b c d e f g h j k l m where "iv = [a, b, c, d, e, f, g, h, j, k, l, m]"
    using length_12 [OF assms(1)] by blast
  ultimately show "(ucast (drop_bit (8 * i) s) :: byte) = ucast (drop_bit (8 * i) t)"
    using eq by (auto simp: make_record_nonce_parts word_xor_cancel)
qed

subsection \<open>Sealed records\<close>

definition record_ok :: "tls_record_state \<Rightarrow> bool" where
  "record_ok st \<longleftrightarrow> length (rs_key st) = 32 \<and> length (rs_static_iv st) = 12"

definition next_seq :: "tls_record_state \<Rightarrow> tls_record_state" where
  "next_seq st = st\<lparr>sequence_number := sequence_number st + 1\<rparr>"

definition record_nonce :: "tls_record_state \<Rightarrow> bytes" where
  "record_nonce st = make_record_nonce (rs_static_iv st) (sequence_number st)"

definition record_aad :: "nat \<Rightarrow> bytes" where
  "record_aad n = encode_record_header TLS_CONTENT_TYPE_APPLICATION_DATA (of_nat (n + 16))"

definition record_seal :: "('c, 'm) lib \<Rightarrow> tls_record_state \<Rightarrow> bytes \<Rightarrow> bytes \<times> bytes" where
  "record_seal L st pt = gcm_seal L (rs_key st) (record_nonce st) (record_aad (length pt)) pt"

definition record_bytes :: "('c, 'm) lib \<Rightarrow> tls_record_state \<Rightarrow> bytes \<Rightarrow> bytes" where
  "record_bytes L st pt = rec_msg (fst (record_seal L st pt) @ snd (record_seal L st pt))"

lemma record_ok_next [simp]: "record_ok (next_seq st) = record_ok st"
  by (simp add: record_ok_def next_seq_def)

lemma to_int_small:
  assumes "unat n < 2147483648"
  shows "to_int n = int (unat n)"
proof -
  have small: "int (unat n) < 2147483648" using assms by linarith
  have "uint (ucast n :: 32 word) = take_bit 32 (uint n)"
    by (simp add: unsigned_ucast_eq)
  also have "uint n = int (unat n)" by simp
  also have "take_bit 32 (int (unat n)) = int (unat n)"
    using small by (intro take_bit_int_eq_self) simp_all
  finally have "to_int n = signed_take_bit 31 (int (unat n))"
    unfolding to_int_def by (simp only: sint_uint) simp
  also have "\<dots> = int (unat n)"
  proof (rule signed_take_bit_int_eq_self)
    show "- (2 ^ 31) \<le> int (unat n)" by (rule order_trans [of _ 0]) simp_all
    show "int (unat n) < 2 ^ 31" using small by simp
  qed
  finally show ?thesis .
qed

text \<open>What the function hands to \<open>send_all\<close>.\<close>

definition record_parts :: "bytes \<Rightarrow> bytes \<Rightarrow> bytes \<Rightarrow> int \<Rightarrow> (bytes \<times> size_t) list" where
  "record_parts header c t n = [(header, 5), (c, of_int n), (t, 16)]"

lemma send_encrypted_record_put:
  assumes "plaintext_len \<noteq> 0" and "plaintext_len \<le> 1024"
    and "header = encode_record_header 23 (ucast (plaintext_len + 16))"
    and "aes_gcm_encrypt L (Some p) (to_int plaintext_len) (Some header) 5
            (Some (rs_key st)) (Some (record_nonce st)) (Some (local_array 1024)) (Some (local_array 16)) w =
          Some (n, Some c, Some t, w1)"
  shows "send_encrypted_record L (Some p) plaintext_len (Some st) w =
      (if n < 0 then Some (- 1, Some st, w1)
       else do {
         (rc, w) \<leftarrow> put_all send_all (record_parts header c t n) w1;
         if rc = - 1 then Some (- 1, Some st, w) else Some (0, Some (next_seq st), w)
       })"
proof -
  have "\<not> 1024 < plaintext_len" using assms(2) by (simp add: not_less)
  with assms(1,4) show ?thesis
    unfolding record_nonce_def assms(3)
    by (auto simp: send_encrypted_record_def next_seq_def record_parts_def Let_def split: Option.bind_splits)
qed

lemma record_header_len:
  assumes "unat (n :: size_t) \<le> 1024"
  shows "(ucast (n + 16) :: uint16) = of_nat (unat n + 16)"
proof -
  have "unat (n + 16) = unat n + 16" using assms by (simp add: unat_word_ariths)
  moreover have "(ucast (n + 16) :: uint16) = of_nat (unat (n + 16))" by (simp only: of_nat_unat)
  ultimately show ?thesis by simp
qed

lemma record_header_aad: "unat (n :: size_t) \<le> 1024 \<Longrightarrow> encode_record_header 23 (ucast (n + 16)) = record_aad (unat n)"
  by (simp only: record_header_len record_aad_def)

lemma record_bytes_parts:
  assumes "gcm_correct L" and "length pt \<le> 1024"
  shows "record_bytes L st pt = record_aad (length pt) @ fst (record_seal L st pt) @ snd (record_seal L st pt)"
  using gcm.seal_len [OF assms(1)] gcm.seal_tag_len [OF assms(1)]
  by (simp add: record_bytes_def rec_msg_def record_aad_def record_seal_def)

lemma length_record_bytes:
  assumes "gcm_correct L" and "length pt \<le> 1024"
  shows "length (record_bytes L st pt) = 21 + length pt"
  unfolding record_bytes_parts [OF assms] using gcm.seal_len [OF assms(1)] gcm.seal_tag_len [OF assms(1)]
  by (simp add: record_aad_def record_seal_def)

lemma record_frag_valid:
  "gcm_correct L \<Longrightarrow> 0 < length pt \<Longrightarrow> length pt \<le> 1024 \<Longrightarrow>
     rec_valid (fst (record_seal L st pt) @ snd (record_seal L st pt))"
  by (simp add: rec_valid_def record_seal_def gcm.seal_len gcm.seal_tag_len)

text \<open>A sealed record determines its text.\<close>

lemma record_bytes_cancel:
  assumes "gcm_correct L" and "record_ok st" and "0 < length p" "length p \<le> 1024" "0 < length q" "length q \<le> 1024"
    and "record_bytes L st p @ r = record_bytes L st q @ r'"
  shows "p = q \<and> r = r'"
proof -
  let ?S = "record_seal L st p" and ?T = "record_seal L st q"
  have c: "fst ?S @ snd ?S = fst ?T @ snd ?T \<and> r = r'"
    using rec.enc_cancel [OF record_frag_valid [OF assms(1,3,4)] record_frag_valid [OF assms(1,5,6)]] assms(7)
    unfolding record_bytes_def by blast
  moreover have "length (snd ?S) = length (snd ?T)" "length (fst ?S) = length p" "length (fst ?T) = length q"
    using gcm.seal_tag_len [OF assms(1)] gcm.seal_len [OF assms(1)] by (simp_all add: record_seal_def)
  ultimately have "?S = ?T" "length p = length q" by (auto simp: prod_eq_iff)
  moreover from assms(2) have k: "length (rs_key st) = 32" "length (record_nonce st) = 12"
    by (simp_all add: record_ok_def record_nonce_def)
  moreover have "length (snd ?S) = 16" using gcm.seal_tag_len [OF assms(1)] by (simp add: record_seal_def)
  ultimately have "gcm_open L (rs_key st) (record_nonce st) (record_aad (length p)) (fst ?S) (snd ?S) = Some p"
    "gcm_open L (rs_key st) (record_nonce st) (record_aad (length p)) (fst ?S) (snd ?S) = Some q"
    using gcm_open_iff [OF assms(1)] by (simp_all add: record_seal_def)
  with c show ?thesis by simp
qed

subsection \<open>Sending\<close>

lemma send_record_cases:
  assumes "gcm_correct L" and "record_ok st" and "n \<noteq> 0" and "unat n \<le> 1024" and "unat n \<le> length p"
  obtains w1 where "lib_only w w1" "\<not> lib_up L" "send_encrypted_record L (Some p) n (Some st) w = Some (- 1, Some st, w1)"
  | w1 ps where "lib_only w w1" "list_all (\<lambda>(d, n). unat n \<le> length d) ps"
      "parts ps = record_bytes L st (take (unat n) p)"
      "send_encrypted_record L (Some p) n (Some st) w =
         do { (rc, w) \<leftarrow> put_all send_all ps w1;
              if rc = - 1 then Some (- 1, Some st, w) else Some (0, Some (next_seq st), w) }"
proof -
  define pt where "pt = take (unat n) p"
  have lp: "length pt = unat n" using assms(5) by (simp add: pt_def min_absorb2)
  have le: "n \<le> 1024" using assms(4) by (simp add: word_le_nat_alt)
  have ti: "to_int n = int (unat n)" using assms(4) by (intro to_int_small) simp
  define header where "header = record_aad (unat n)"
  have header: "header = encode_record_header 23 (ucast (n + 16))" "length header = 5"
    using record_header_aad [OF assms(4)] by (simp_all add: header_def record_aad_def)
  have k: "length (rs_key st) = 32" "length (record_nonce st) = 12"
    using assms(2) by (simp_all add: record_ok_def record_nonce_def)
  let ?S = "record_seal L st pt"
  have S: "gcm_seal L (rs_key st) (record_nonce st) header (take (unat n) p) = ?S"
    by (simp add: record_seal_def header_def lp flip: pt_def)
  have lS: "length (fst ?S) = unat n" "length (snd ?S) = 16"
    using lp gcm.seal_len [OF assms(1)] gcm.seal_tag_len [OF assms(1)] by (simp_all add: record_seal_def)
  from aes_gcm_encrypt_spec [OF assms(1), of "int (unat n)" p "local_array 1024" 5 header "rs_key st"
      "record_nonce st" "local_array 16" w] assms(4,5) header(2) k
  obtain ret c t w1 where enc: "aes_gcm_encrypt L (Some p) (to_int n) (Some header) 5 (Some (rs_key st))
      (Some (record_nonce st)) (Some (local_array 1024)) (Some (local_array 16)) w = Some (ret, Some c, Some t, w1)"
    and w1: "lib_only w w1" and ret: "ret = int (unat n) \<and> c = fst ?S @ drop (unat n) (local_array 1024) \<and> t = snd ?S \<or>
       ret = - 1 \<and> \<not> lib_up L" unfolding ti nat_int by (auto simp: S)
  note put = send_encrypted_record_put [OF assms(3) le header(1) enc]
  from ret show thesis
  proof
    assume "ret = - 1 \<and> \<not> lib_up L"
    with put w1 that(1) show thesis by simp
  next
    assume r: "ret = int (unat n) \<and> c = fst ?S @ drop (unat n) (local_array 1024) \<and> t = snd ?S"
    then have u: "(of_int ret :: size_t) = n" by simp
    show thesis
    proof (rule that(2) [OF w1, of "record_parts header c t ret"])
      show "list_all (\<lambda>(d, n). unat n \<le> length d) (record_parts header c t ret)"
        using r lS header(2) assms(4) by (auto simp: record_parts_def u)
      show "parts (record_parts header c t ret) = record_bytes L st (take (unat n) p)"
        using record_bytes_parts [OF assms(1), of pt st] r lS header lp assms(4)
        by (simp add: record_parts_def u header_def pt_def)
    qed (use put r in simp)
  qed
qed

lemma send_record_spec:
  assumes "gcm_correct L" and "record_ok st" and "n \<noteq> 0" and "unat n \<le> 1024" and "unat n \<le> length p"
  shows "\<exists>rc st' w1 w' k. send_encrypted_record L (Some p) n (Some st) w = Some (rc, Some st', w') \<and>
     lib_only w w1 \<and> sent_to w1 (take k (record_bytes L st (take (unat n) p))) w' \<and>
     (rc = 0 \<and> k = 21 + unat n \<and> st' = next_seq st \<or>
      rc = - 1 \<and> k < 21 + unat n \<and> st' = st)"
proof (rule send_record_cases [OF assms, of w])
  fix w1 assume "lib_only w w1" "send_encrypted_record L (Some p) n (Some st) w = Some (- 1, Some st, w1)"
  then show ?thesis
    by (intro exI [of _ "- 1"] exI [of _ st] exI [of _ w1] exI [of _ w1] exI [of _ 0]) (simp add: sent_to_refl)
next
  fix w1 ps assume w1: "lib_only w w1" and ps: "list_all (\<lambda>(d, n). unat n \<le> length d) ps"
    "parts ps = record_bytes L st (take (unat n) p)"
    and eq: "send_encrypted_record L (Some p) n (Some st) w =
       do { (rc, w) \<leftarrow> put_all send_all ps w1;
            if rc = - 1 then Some (- 1, Some st, w) else Some (0, Some (next_seq st), w) }"
  have len: "length (parts ps) = 21 + unat n"
    unfolding ps(2) using length_record_bytes [OF assms(1)] assms(4,5) by (simp add: min_absorb2)
  obtain rc w' k where "put_all send_all ps w1 = Some (rc, w')" "sent_to w1 (take k (parts ps)) w'"
    "rc = 0 \<and> k = 21 + unat n \<or> rc = - 1 \<and> k < 21 + unat n"
    using put_all_sent [OF ps(1), of w1] unfolding len by blast
  with w1 eq ps(2) show ?thesis by (elim disjE) auto
qed

lemma send_record_fine:
  assumes "gcm_correct L" and "record_ok st" and "n \<noteq> 0" and "unat n \<le> 1024" and "unat n \<le> length p"
    and "lib_up L" and "io_fine w"
  shows "\<exists>w1 w'. send_encrypted_record L (Some p) n (Some st) w = Some (0, Some (next_seq st), w') \<and>
     lib_only w w1 \<and> sent_to w1 (record_bytes L st (take (unat n) p)) w' \<and> io_fine w'"
proof (rule send_record_cases [OF assms(1-5), of w])
  fix w1 ps assume w1: "lib_only w w1" and ps: "list_all (\<lambda>(d, n). unat n \<le> length d) ps"
    "parts ps = record_bytes L st (take (unat n) p)"
    and eq: "send_encrypted_record L (Some p) n (Some st) w =
       do { (rc, w) \<leftarrow> put_all send_all ps w1;
            if rc = - 1 then Some (- 1, Some st, w) else Some (0, Some (next_seq st), w) }"
  have "io_fine w1" using assms(7) lib_only_frame(8) [OF w1] by simp
  from put_all_fine [OF this ps(1)] w1 ps(2) eq show ?thesis by auto
qed (use assms(6) in simp)

subsection \<open>Receiving\<close>

lemma recv_record_header_ok:
  assumes "recv_record_header (Some (local_array 5)) (Some 0) (Some 0) w = Some (0, h, ct, n, w1)"
  shows "\<exists>t m. ct = Some t \<and> n = Some m \<and> h = Some (encode_record_header t m) \<and>
     inbox w = encode_record_header t m @ inbox w1 \<and> but_inbox w1 = but_inbox w"
proof -
  from assms obtain h' where h': "recv_all (local_array 5) 5 w = Some (0, h', w1)" "h = Some h'"
    "ct = Some (h' ! 0)" "n = Some (be16_dec (h' ! 3) (h' ! 4))" "h' ! 1 = 3" "h' ! 2 = 3"
    by (auto simp: recv_record_header_def Let_def Option.bind_eq_Some_conv split: if_splits)
  from src.get_ok [OF h'(1)] have g: "h' = take 5 (inbox w)" "inbox w1 = drop 5 (inbox w)" "5 \<le> length (inbox w)"
    by auto
  then obtain t a b x y where l: "h' = [t, a, b, x, y]" using length_5 [of h'] by auto
  have e: "h' = encode_record_header t (be16_dec x y)"
    using l h'(5,6) by (simp add: encode_record_header_def be16_be16_dec) (simp add: be16_def)
  have "inbox w = h' @ inbox w1" using g by (simp only: append_take_drop_id)
  moreover have "ct = Some t" "n = Some (be16_dec x y)" using h'(3,4) by (simp_all add: l)
  ultimately show ?thesis
    using h'(2) e src.get_other [OF h'(1)] by blast
qed

lemma record_fragment_len:
  assumes "\<not> (n :: uint16) \<le> 16"
  shows "unat (ucast n - 16 :: size_t) = unat n - 16" and "n = of_nat (unat (ucast n - 16 :: size_t) + 16)"
proof -
  have n: "16 < unat n" "unat (ucast n :: size_t) = unat n"
    using assms unsigned_less [of n, where ?'a = nat]
    by (simp_all add: word_le_nat_alt unsigned_ucast_eq take_bit_nat_eq_self_iff)
  then have "(16 :: size_t) \<le> ucast n" by (simp add: word_le_nat_alt)
  with n(2) show 1: "unat (ucast n - 16 :: size_t) = unat n - 16" by (simp add: unat_sub)
  from n(1) show "n = of_nat (unat (ucast n - 16 :: size_t) + 16)" unfolding 1 by simp
qed

lemma recv_record_success:
  assumes "gcm_correct L" and "record_ok st" and cap: "unat cap \<le> length b"
    and "recv_encrypted_record L (Some b) cap (Some l0) (Some st) w = Some (0, b', l', st', w')"
  shows "\<exists>pt w2. 0 < length pt \<and> length pt \<le> 1024 \<and> length pt \<le> unat cap \<and>
     inbox w = record_bytes L st pt @ inbox w2 \<and> but_inbox w2 = but_inbox w \<and> lib_only w2 w' \<and>
     b' = Some (pt @ drop (length pt) b) \<and> l' = Some (of_nat (length pt)) \<and> st' = Some (next_seq st)"
proof -
  from assms(4) obtain h n w1 where
    h: "recv_record_header (Some (local_array 5)) (Some 0) (Some 0) w = Some (0, h, Some 23, Some n, w1)"
    and n: "\<not> n \<le> 16"
    and rest: "\<exists>c w2 t w3 d.
       recv_all (local_array 1024) (ucast n - 16) w1 = Some (0, c, w2) \<and>
       recv_all (local_array 16) 16 w2 = Some (0, t, w3) \<and>
       aes_gcm_decrypt L (Some c) (to_int (ucast n - 16)) h 5 (Some t) (Some (rs_key st))
         (Some (record_nonce st)) (Some b) w3 = Some (d, b', w') \<and>
       0 \<le> d \<and> l' = Some (of_int d) \<and> st' = Some (next_seq st) \<and>
       ucast n - 16 \<le> (1024 :: size_t) \<and> ucast n - 16 \<le> cap"
    by (auto simp: recv_encrypted_record_def record_nonce_def next_seq_def Let_def not_less
        Option.bind_eq_Some_conv split: if_splits)
  define cl where "cl = (ucast n - 16 :: size_t)"
  note cl = record_fragment_len [OF n, folded cl_def]
  from rest obtain c w2 t w3 d where r:
    "recv_all (local_array 1024) cl w1 = Some (0, c, w2)" "recv_all (local_array 16) 16 w2 = Some (0, t, w3)"
    "aes_gcm_decrypt L (Some c) (to_int cl) h 5 (Some t) (Some (rs_key st))
         (Some (record_nonce st)) (Some b) w3 = Some (d, b', w')"
    "0 \<le> d" "l' = Some (of_int d)" "st' = Some (next_seq st)" "cl \<le> 1024" "cl \<le> cap"
    unfolding cl_def by blast
  from recv_record_header_ok [OF h] have hd: "h = Some (record_aad (unat cl))"
    "inbox w = record_aad (unat cl) @ inbox w1" "but_inbox w1 = but_inbox w"
    unfolding record_aad_def using cl(2) by auto
  from r have le: "unat cl \<le> 1024" "unat cl \<le> unat cap" by (simp_all add: word_le_nat_alt)
  have ti: "to_int cl = int (unat cl)" using le(1) by (intro to_int_small) simp
  from src.get_ok [OF r(1)] src.get_ok [OF r(2)] have
    t: "t = take 16 (inbox w2)" "length t = 16" and c: "take (unat cl) c = take (unat cl) (inbox w1)" "unat cl \<le> length c"
    and ib: "inbox w2 = drop (unat cl) (inbox w1)" "inbox w3 = drop 16 (inbox w2)"
    by auto
  have k: "length (rs_key st) = 32" "length (record_nonce st) = 12"
    using assms(2) by (simp_all add: record_ok_def record_nonce_def)
  let ?a = "record_aad (unat cl)"
  have la: "length ?a = 5" by (simp add: record_aad_def)
  from aes_gcm_decrypt_spec [OF assms(1), of "int (unat cl)" c b 5 ?a "rs_key st" "record_nonce st" t w3]
    c(2) le cap t(2) k la r(3,4)
  obtain p' where p': "b' = Some p'" "lib_only w3 w'" "drop (unat cl) p' = drop (unat cl) b" "d = int (unat cl)"
    "gcm_open L (rs_key st) (record_nonce st) ?a (take (unat cl) c) t = Some (take (unat cl) p')" 
    "length p' = length b"
    unfolding ti hd(1) nat_int by auto
  define pt where "pt = take (unat cl) p'"
  have lpt: "length pt = unat cl" using p'(6) le(2) cap by (simp add: pt_def min_absorb2)
  from p'(5) have "record_seal L st pt = (take (unat cl) c, t)"
    using gcm.unseal_iff [OF assms(1) k t(2)] unfolding record_seal_def lpt by (simp add: pt_def)
  then have rb: "record_bytes L st pt = ?a @ take (unat cl) (inbox w1) @ take 16 (inbox w2)"
    using record_bytes_parts [OF assms(1), of pt st] le(1) c(1) t(1) by (simp add: lpt)
  have "inbox w = record_bytes L st pt @ inbox w3"
    unfolding rb hd(2) ib by (simp del: drop_drop)
  moreover have "but_inbox w3 = but_inbox w"
    using src.get_other [OF r(1)] src.get_other [OF r(2)] hd(3) by simp
  moreover have "b' = Some (pt @ drop (length pt) b)"
    unfolding lpt p'(3) [symmetric] p'(1) by (simp add: pt_def)
  moreover have "0 < unat cl" using n cl(1) by (simp add: word_le_nat_alt)
  moreover have "l' = Some (of_nat (length pt))" unfolding r(5) p'(4) lpt by simp
  ultimately show ?thesis
    using r(6) p'(2) le lpt by (intro exI [of _ pt] exI [of _ w3]) simp
qed

text \<open>A failed receive, whatever the reason, leaves the length and the sequence number.\<close>

lemma recv_record_failure:
  assumes "recv_encrypted_record L (Some b) cap (Some l0) (Some st) w = Some (rc, b', l', st', w')" and "rc \<noteq> 0"
  shows "l' = Some l0 \<and> st' = Some st"
  using assms by (auto simp: recv_encrypted_record_def Let_def Option.bind_eq_Some_conv split: if_splits)

text \<open>What the endpoints use: a stream that starts with the record of the expected number.\<close>

lemma recv_record_ok:
  assumes "gcm_correct L" and "record_ok st" and "lib_up L" and "io_fine w"
    and "inbox w = record_bytes L st pt @ r" and "0 < length pt" and "length pt \<le> 1024"
    and "length pt \<le> unat cap" and "unat cap \<le> length b"
  shows "\<exists>w2 w'. recv_encrypted_record L (Some b) cap (Some l0) (Some st) w =
       Some (0, Some (pt @ drop (length pt) b), Some (of_nat (length pt)), Some (next_seq st), w') \<and>
     read_from w (21 + length pt) w2 \<and> lib_only w2 w' \<and> inbox w' = r \<and> io_fine w'"
proof -
  let ?n = "length pt" and ?S = "record_seal L st pt"
  define n where "n = (of_nat (?n + 16) :: uint16)"
  define cl where "cl = (ucast n - 16 :: size_t)"
  have un: "unat n = ?n + 16" unfolding n_def using assms(7) by (intro unat_of_nat_uint16) simp
  have "\<not> n \<le> 16" using un assms(6) by (simp add: word_le_nat_alt)
  note n = this record_fragment_len(1) [OF this, folded cl_def, unfolded un]
  have ucl: "unat cl = ?n" using n(2) by simp
  have clle: "\<not> 1024 < cl" "\<not> cap < cl" using assms(7,8) by (simp_all add: word_less_nat_alt ucl)
  have ti: "to_int cl = int ?n" using assms(7) ucl by (subst to_int_small) simp_all
  have lS: "length (fst ?S) = ?n" "length (snd ?S) = 16"
    using gcm.seal_len [OF assms(1)] gcm.seal_tag_len [OF assms(1)] by (simp_all add: record_seal_def)
  have s: "inbox w = record_aad ?n @ fst ?S @ snd ?S @ r"
    using assms(5) record_bytes_parts [OF assms(1,7), of st] by simp
  have la: "length (record_aad ?n) = 5" by (simp add: record_aad_def)
  obtain w1 where 1: "recv_all (local_array 5) 5 w = Some (0, record_aad ?n, w1)" "read_from w 5 w1" "io_fine w1"
    using recv_all_fine [OF assms(4), of 5 "local_array 5"] s la by auto
  from 1(2) s la have s1: "inbox w1 = fst ?S @ snd ?S @ r" by (auto simp: read_from_def)
  obtain w2 where 2: "recv_all (local_array 1024) cl w1 = Some (0, fst ?S @ drop ?n (local_array 1024), w2)"
    "read_from w1 ?n w2" "io_fine w2"
    using recv_all_fine [OF 1(3), of cl "local_array 1024"] s1 lS assms(7) by (auto simp: ucl)
  from 2(2) s1 lS have s2: "inbox w2 = snd ?S @ r" by (auto simp: read_from_def)
  obtain w3 where 3: "recv_all (local_array 16) 16 w2 = Some (0, snd ?S, w3)" "read_from w2 16 w3" "io_fine w3"
    using recv_all_fine [OF 2(3), of 16 "local_array 16"] s2 lS by auto
  from 3(2) s2 lS have s3: "inbox w3 = r" by (auto simp: read_from_def)
  have k: "length (rs_key st) = 32" "length (record_nonce st) = 12"
    using assms(2) by (simp_all add: record_ok_def record_nonce_def)
  have "gcm_open L (rs_key st) (record_nonce st) (record_aad ?n) (fst ?S) (snd ?S) = Some pt"
    unfolding record_seal_def by (rule gcm.unseal_seal [OF assms(1) k])
  with aes_gcm_decrypt_spec [OF assms(1), of "int ?n" "fst ?S @ drop ?n (local_array 1024)" b 5 "record_aad ?n"
      "rs_key st" "record_nonce st" "snd ?S" w3] lS k la assms(3,7,8,9)
  obtain p' w' where 4: "aes_gcm_decrypt L (Some (fst ?S @ drop ?n (local_array 1024))) (int ?n)
      (Some (record_aad ?n)) 5 (Some (snd ?S)) (Some (rs_key st)) (Some (record_nonce st)) (Some b) w3 =
      Some (int ?n, Some p', w')" "lib_only w3 w'" "drop ?n p' = drop ?n b" "take ?n p' = pt"
    by auto
  have p': "p' = pt @ drop ?n b" using 4(3,4) by (metis append_take_drop_id)
  have hd: "recv_record_header (Some (local_array 5)) (Some 0) (Some 0) w =
      Some (0, Some (record_aad ?n), Some 23, Some n, w1)"
    using 1(1) by (simp add: recv_record_header_def record_aad_def record_header_parts Let_def be16_dec_be16
) (simp add: n_def)
  have eq: "recv_encrypted_record L (Some b) cap (Some l0) (Some st) w =
      Some (0, Some p', Some (of_nat ?n), Some (next_seq st), w')"
    using n(1) clle 2(1) 3(1) 4(1) unfolding cl_def record_nonce_def next_seq_def
    by (simp add: recv_encrypted_record_def hd Let_def ti [unfolded cl_def])
  have "5 + ?n + 16 = 21 + ?n" by simp
  with read_from_trans [OF read_from_trans [OF 1(2) 2(2)] 3(2)] have "read_from w (21 + ?n) w3" by (simp only:)
  moreover have "inbox w' = r" "io_fine w'" using s3 3(3) lib_only_frame(2,8) [OF 4(2)] by simp_all
  ultimately show ?thesis unfolding eq p' using 4(2) by blast
qed

subsection \<open>Sequences of records\<close>

text \<open>Several texts sent one after the other, and as many records received, each into a fresh
  buffer of the given capacity.\<close>

fun send_records ::
  "('c, 'm) lib \<Rightarrow> tls_record_state \<Rightarrow> bytes list \<Rightarrow> world \<Rightarrow> (int \<times> tls_record_state \<times> world) option" where
  "send_records L st [] w = Some (0, st, w)"
| "send_records L st (p # ps) w =
     do {
       (rc, st', w) \<leftarrow> send_encrypted_record L (Some p) (of_nat (length p)) (Some st) w;
       st' \<leftarrow> st';
       if rc \<noteq> 0 then Some (rc, st', w) else send_records L st' ps w
     }"

fun recv_records ::
  "('c, 'm) lib \<Rightarrow> tls_record_state \<Rightarrow> nat \<Rightarrow> nat \<Rightarrow> world
     \<Rightarrow> (int \<times> bytes list \<times> tls_record_state \<times> world) option" where
  "recv_records L st cap 0 w = Some (0, [], st, w)"
| "recv_records L st cap (Suc n) w =
     do {
       (rc, b, l, st', w) \<leftarrow>
         recv_encrypted_record L (Some (local_array cap)) (of_nat cap) (Some 0) (Some st) w;
       st' \<leftarrow> st';
       if rc \<noteq> 0 then Some (rc, [], st', w)
       else do {
         b \<leftarrow> b;
         l \<leftarrow> l;
         p \<leftarrow> rd b 0 (unat l);
         (rc, ps, st', w) \<leftarrow> recv_records L st' cap n w;
         Some (rc, p # ps, st', w)
       }
     }"

fun record_stream :: "('c, 'm) lib \<Rightarrow> tls_record_state \<Rightarrow> bytes list \<Rightarrow> bytes" where
  "record_stream L st [] = []"
| "record_stream L st (p # ps) = record_bytes L st p @ record_stream L (next_seq st) ps"

lemma send_records_stream:
  assumes "gcm_correct L"
  shows "record_ok st \<Longrightarrow> send_records L st ps w = Some (0, st', w') \<Longrightarrow>
     list_all (\<lambda>p. 0 < length p \<and> length p \<le> 1024) ps \<Longrightarrow>
     outbox w' = outbox w @ record_stream L st ps \<and> st' = (next_seq ^^ length ps) st"
proof (induction ps arbitrary: st w)
  case Nil
  then show ?case by simp
next
  case (Cons p ps)
  from Cons.prems have p: "0 < length p" "length p \<le> 1024" and ps: "list_all (\<lambda>p. 0 < length p \<and> length p \<le> 1024) ps"
    by simp_all
  have u: "unat (of_nat (length p) :: size_t) = length p" using p by (intro unat_of_nat_size_t) simp
  with p(1) have nz: "(of_nat (length p) :: size_t) \<noteq> 0" by (metis less_irrefl unat_0)
  from send_record_spec [OF assms Cons.prems(1) nz, of p w] p u obtain rc st1 w1 w2 k where
    s: "send_encrypted_record L (Some p) (of_nat (length p)) (Some st) w = Some (rc, Some st1, w2)"
    "lib_only w w1" "sent_to w1 (take k (record_bytes L st p)) w2"
    "rc = 0 \<and> k = 21 + length p \<and> st1 = next_seq st \<or> rc = - 1" by auto
  from s(1,4) Cons.prems(2) have r: "rc = 0" "k = 21 + length p" "st1 = next_seq st"
    and tl: "send_records L st1 ps w2 = Some (0, st', w')" by (auto split: if_splits)
  have "outbox w2 = outbox w @ record_bytes L st p"
    using s(3) r(2) length_record_bytes [OF assms p(2), of st] lib_only_frame(3) [OF s(2)]
    by (simp add: sent_to_iff)
  with Cons.IH [of "next_seq st", OF _ _ ps] tl Cons.prems(1) r(3) show ?case
    by (simp add: funpow_swap1)
qed

lemma recv_records_stream:
  assumes "gcm_correct L" and "lib_up L" and "cap < 18446744073709551616"
  shows "record_ok st \<Longrightarrow> io_fine w \<Longrightarrow> inbox w = record_stream L st ps @ r \<Longrightarrow>
     list_all (\<lambda>p. 0 < length p \<and> length p \<le> 1024 \<and> length p \<le> cap) ps \<Longrightarrow>
     \<exists>w'. recv_records L st cap (length ps) w = Some (0, ps, (next_seq ^^ length ps) st, w') \<and> inbox w' = r"
proof (induction ps arbitrary: st w)
  case Nil
  then show ?case by simp
next
  case (Cons p ps)
  have c: "unat (of_nat cap :: size_t) = cap" using assms(3) by (rule unat_of_nat_size_t)
  from Cons.prems have p: "0 < length p" "length p \<le> 1024" "length p \<le> cap"
    and ps: "list_all (\<lambda>p. 0 < length p \<and> length p \<le> 1024 \<and> length p \<le> cap) ps" by simp_all
  have u: "unat (of_nat (length p) :: size_t) = length p" using p by (intro unat_of_nat_size_t) simp
  obtain w1 where 1: "recv_encrypted_record L (Some (local_array cap)) (of_nat cap) (Some 0) (Some st) w =
       Some (0, Some (p @ drop (length p) (local_array cap)), Some (of_nat (length p)), Some (next_seq st), w1)"
    "inbox w1 = record_stream L (next_seq st) ps @ r" "io_fine w1"
    using recv_record_ok [OF assms(1) Cons.prems(1) assms(2) Cons.prems(2), of p _ "of_nat cap" "local_array cap" 0]
      Cons.prems(3) p by (auto simp: c)
  from Cons.IH [of "next_seq st", OF _ 1(3,2) ps] Cons.prems(1) obtain w' where
    "recv_records L (next_seq st) cap (length ps) w1 = Some (0, ps, (next_seq ^^ length ps) (next_seq st), w')"
    "inbox w' = r" by auto
  with 1(1) u p(3) show ?case by (simp add: rd_def funpow_swap1)
qed

subsection \<open>Properties\<close>

text \<open>C16: The nonces of one direction: counting records from a state, the nonces of the \<open>i\<close>-th and
  the \<open>j\<close>-th are equal only if \<open>j - i\<close> is a multiple of 2^64. A nonce is never repeated before
  the 64-bit sequence number wraps; and then it is, for the code does not stop there.\<close>

theorem record_nonce_period:
  assumes "record_ok st" and "i \<le> j"
  shows "record_nonce ((next_seq ^^ i) st) = record_nonce ((next_seq ^^ j) st) \<longleftrightarrow>
     18446744073709551616 dvd j - i"
proof -
  have s: "sequence_number ((next_seq ^^ n) st) = sequence_number st + of_nat n"
    "rs_static_iv ((next_seq ^^ n) st) = rs_static_iv st" for n
    by (induction n) (simp_all add: next_seq_def)
  have "record_nonce ((next_seq ^^ i) st) = record_nonce ((next_seq ^^ j) st) \<longleftrightarrow>
      sequence_number st + of_nat i = sequence_number st + of_nat j"
    unfolding record_nonce_def s using assms(1)
      make_record_nonce_inj [of "rs_static_iv st" "sequence_number st + of_nat i" "sequence_number st + of_nat j"]
    by (auto simp: record_ok_def)
  also have "\<dots> \<longleftrightarrow> (of_nat (j - i) :: uint64) = 0"
    using assms(2) by (simp add: of_nat_diff) metis
  also have "\<dots> \<longleftrightarrow> 18446744073709551616 dvd j - i"
    by (simp add: word_of_nat_eq_0_iff)
  finally show ?thesis .
qed

theorem record_nonce_period_witness:
  "record_nonce ((next_seq ^^ 3) \<lparr>rs_key = replicate 32 1, rs_static_iv = replicate 12 2, sequence_number = - 1\<rparr>) \<noteq>
   record_nonce ((next_seq ^^ 5) \<lparr>rs_key = replicate 32 1, rs_static_iv = replicate 12 2, sequence_number = - 1\<rparr>)"
  using record_nonce_period [of "\<lparr>rs_key = replicate 32 1, rs_static_iv = replicate 12 2, sequence_number = - 1\<rparr>" 3 5]
  by (simp add: record_ok_def)

text \<open>C15: \<open>send_encrypted_record\<close> refuses an empty text and one of more than 1024 bytes without
  writing or drawing on the library. Otherwise it returns, whatever fails, frees what it
  acquired, and either reports success, having written exactly the sealed record for the
  current sequence number and advanced that number by one, or reports -1 with the number
  unchanged after writing a proper prefix of that record.\<close>

theorem send_encrypted_record_correct:
  assumes "gcm_correct L" and "record_ok st" and "unat n \<le> length p"
  shows "if n = 0 \<or> 1024 < n then send_encrypted_record L (Some p) n (Some st) w = Some (- 1, Some st, w)
     else \<exists>rc st' w' k. send_encrypted_record L (Some p) n (Some st) w = Some (rc, Some st', w') \<and>
        live w' = live w \<and> inbox w' = inbox w \<and>
        outbox w' = outbox w @ take k (record_bytes L st (take (unat n) p)) \<and>
        (rc = 0 \<and> k = 21 + unat n \<and> st' = next_seq st \<or> rc = - 1 \<and> k < 21 + unat n \<and> st' = st)"
proof (cases "n = 0 \<or> 1024 < n")
  case True
  then show ?thesis by (auto simp: send_encrypted_record_def)
next
  case False
  then have n: "n \<noteq> 0" "unat n \<le> 1024" by (simp_all add: word_less_nat_alt)
  obtain rc st' w1 w' k where "send_encrypted_record L (Some p) n (Some st) w = Some (rc, Some st', w')"
     "lib_only w w1" "sent_to w1 (take k (record_bytes L st (take (unat n) p))) w'"
     "rc = 0 \<and> k = 21 + unat n \<and> st' = next_seq st \<or> rc = - 1 \<and> k < 21 + unat n \<and> st' = st"
    using send_record_spec [OF assms(1,2) n assms(3), of w] by blast
  moreover from this(2,3) have "live w' = live w" "inbox w' = inbox w"
    "outbox w' = outbox w @ take k (record_bytes L st (take (unat n) p))"
    using lib_only_frame [of w w1] by (auto simp: sent_to_def)
  ultimately show ?thesis using False by auto
qed

definition sample_record_state :: tls_record_state where
  "sample_record_state =
     \<lparr>rs_key = replicate 32 1, rs_static_iv = replicate 12 2, sequence_number = 7\<rparr>"

lemma sample_record_ok: "record_ok sample_record_state"
  by (simp add: record_ok_def sample_record_state_def)

theorem send_encrypted_record_correct_witness:
  "\<exists>rc st' w' k. send_encrypted_record (failing_lib 4) (Some [5, 6, 7]) 2 (Some sample_record_state) (sample_world []) =
       Some (rc, Some st', w') \<and> live w' = live (sample_world []) \<and>
     outbox w' = take k (record_bytes (failing_lib 4) sample_record_state [5, 6]) \<and>
     (rc = 0 \<and> k = 23 \<and> st' = next_seq sample_record_state \<or> rc = - 1 \<and> k < 23 \<and> st' = sample_record_state)"
  using send_encrypted_record_correct [OF failing_gcm_correct sample_record_ok, of 2 "[5, 6, 7]" 4 "sample_world []"]
  by (auto simp: sample_world_def)

text \<open>C13: whatever the peer sends, however the transfer is cut and whichever calls fail: a record
  \<open>recv_encrypted_record\<close> accepts is the first of the stream and is what sealing the delivered
  text (1 to 1024 bytes, within the capacity) under the receiver's key and current sequence
  number gives; exactly it is consumed and the number advances by one. On any failure the
  number and the length are as before.\<close>

theorem recv_encrypted_record_sound:
  assumes "gcm_correct L" and "record_ok st" and "unat cap \<le> length b"
    and "recv_encrypted_record L (Some b) cap (Some l0) (Some st) w = Some (rc, b', l', st', w')"
  shows "if rc = 0
     then \<exists>pt. 0 < length pt \<and> length pt \<le> 1024 \<and> length pt \<le> unat cap \<and>
        inbox w = record_bytes L st pt @ inbox w' \<and> outbox w' = outbox w \<and> live w' = live w \<and>
        b' = Some (pt @ drop (length pt) b) \<and> l' = Some (of_nat (length pt)) \<and> st' = Some (next_seq st)
     else l' = Some l0 \<and> st' = Some st"
proof (cases "rc = 0")
  case False
  with recv_record_failure [OF assms(4)] show ?thesis by simp
next
  case True
  with recv_record_success [OF assms(1-3), of l0 w b' l' st' w'] assms(4) obtain pt w2 where
    "0 < length pt \<and> length pt \<le> 1024 \<and> length pt \<le> unat cap \<and>
     inbox w = record_bytes L st pt @ inbox w2 \<and> but_inbox w2 = but_inbox w \<and> lib_only w2 w' \<and>
     b' = Some (pt @ drop (length pt) b) \<and> l' = Some (of_nat (length pt)) \<and> st' = Some (next_seq st)"
    by blast
  moreover from this have "live w' = live w" "outbox w' = outbox w" "inbox w' = inbox w2"
    using lib_only_frame [of w2 w'] by (cases w; cases w2; auto simp: but_inbox_def)+
  ultimately show ?thesis using True by auto
qed

theorem recv_encrypted_record_sound_witness:
  "\<exists>w' pt. recv_encrypted_record sample_lib (Some (local_array 9)) 9 (Some 0) (Some sample_record_state)
       (sample_world (record_bytes sample_lib sample_record_state [5, 6])) =
       Some (0, Some (pt @ drop (length pt) (local_array 9)), Some (of_nat (length pt)), Some (next_seq sample_record_state), w') \<and>
     record_bytes sample_lib sample_record_state [5, 6] = record_bytes sample_lib sample_record_state pt @ inbox w'"
proof -
  let ?w = "sample_world (record_bytes sample_lib sample_record_state [5, 6])"
  obtain w' where r: "recv_encrypted_record sample_lib (Some (local_array 9)) 9 (Some 0) (Some sample_record_state) ?w =
      Some (0, Some ([5, 6] @ drop (length [5, 6 :: byte]) (local_array 9)), Some (of_nat (length [5, 6 :: byte])),
        Some (next_seq sample_record_state), w')"
    using recv_record_ok [OF sample_gcm_correct sample_record_ok sample_lib_up sample_world_fine,
        of "record_bytes sample_lib sample_record_state [5, 6]" "[5, 6]" "[]" 9 "local_array 9" 0]
    by (auto simp: sample_world_def)
  from recv_encrypted_record_sound [OF sample_gcm_correct sample_record_ok _ r] r show ?thesis
    by (auto simp: sample_world_def)
qed

text \<open>C12: the channel as a whole: any list of texts (1 to 1024 bytes, within the receiver's
  capacity) sent with success by \<open>send_encrypted_record\<close> is received by as many calls of
  \<open>recv_encrypted_record\<close> from a state with the same key, IV and number: all of them, complete,
  in order and nothing else, whatever the schedule; both ends finish with the same number.\<close>

theorem record_channel:
  assumes "gcm_correct L" and "lib_up L" and "record_ok st" and "cap < 18446744073709551616"
    and "list_all (\<lambda>p. 0 < length p \<and> length p \<le> 1024 \<and> length p \<le> cap) ps"
    and "send_records L st ps w = Some (0, st', w')"
    and "io_fine v" and "inbox v = drop (length (outbox w)) (outbox w') @ r"
  shows "\<exists>v'. recv_records L st cap (length ps) v = Some (0, ps, st', v') \<and> inbox v' = r"
proof -
  have "list_all (\<lambda>p. 0 < length p \<and> length p \<le> 1024) ps"
    using assms(5) by (auto simp: list_all_iff)
  from send_records_stream [OF assms(1,3,6) this] have
    s: "outbox w' = outbox w @ record_stream L st ps" "st' = (next_seq ^^ length ps) st" by auto
  with assms(8) have "inbox v = record_stream L st ps @ r" by simp
  from recv_records_stream [OF assms(1,2,4,3,7) this assms(5)] s(2) show ?thesis by simp
qed

theorem record_channel_witness:
  "\<exists>st' w' v'. send_records sample_lib sample_record_state [[5, 6], [7]] (sample_world []) = Some (0, st', w') \<and>
     recv_records sample_lib sample_record_state 9 2 (sample_world (outbox w')) = Some (0, [[5, 6], [7]], st', v')"
proof -
  let ?L = sample_lib and ?s = sample_record_state
  note F = send_record_fine [OF sample_gcm_correct _ _ _ _ sample_lib_up]
  obtain w1 where 1: "send_encrypted_record ?L (Some [5, 6]) 2 (Some ?s) (sample_world []) = Some (0, Some (next_seq ?s), w1)"
    "io_fine w1" using F [OF sample_record_ok, of 2 "[5, 6]" "sample_world []"] sample_world_fine by auto
  obtain w2 where 2: "send_encrypted_record ?L (Some [7]) 1 (Some (next_seq ?s)) w1 = Some (0, Some (next_seq (next_seq ?s)), w2)"
    using F [of "next_seq ?s" 1 "[7]" w1] 1(2) sample_record_ok by auto
  from 1 2 have s: "send_records ?L ?s [[5, 6], [7]] (sample_world []) = Some (0, next_seq (next_seq ?s), w2)"
    by simp
  from record_channel [OF sample_gcm_correct sample_lib_up sample_record_ok _ _ s sample_world_fine,
      of 9 "outbox w2" "[]"] s show ?thesis
    by (auto simp: numeral_2_eq_2 simp del: recv_records.simps send_records.simps)
qed

text \<open>C14: no replay and no reordering, unless the cipher is forged: if a receiver accepts, for its
  own sequence number, a record that was sealed under the same key and IV for another sequence
  number, then sealing some text under the two different nonces gives the same ciphertext and
  tag.\<close>

theorem replay_needs_forgery:
  assumes "gcm_correct L" and "record_ok st" and "unat cap \<le> length b"
    and "st0 = st\<lparr>sequence_number := s0\<rparr>" and "s0 \<noteq> sequence_number st"
    and "0 < length pt0" and "length pt0 \<le> 1024" and "inbox w = record_bytes L st0 pt0 @ r"
    and "recv_encrypted_record L (Some b) cap (Some l0) (Some st) w = Some (0, b', l', st', w')"
  shows "record_nonce st \<noteq> record_nonce st0 \<and>
     (\<exists>pt. length pt = length pt0 \<and>
        gcm_seal L (rs_key st) (record_nonce st) (record_aad (length pt)) pt =
        gcm_seal L (rs_key st) (record_nonce st0) (record_aad (length pt)) pt0)"
proof
  show "record_nonce st \<noteq> record_nonce st0"
    using assms(2,4,5) make_record_nonce_inj [of "rs_static_iv st" "sequence_number st" s0]
    by (auto simp: record_nonce_def record_ok_def)
  from recv_record_success [OF assms(1-3,9)] obtain pt w2 where
    "0 < length pt \<and> length pt \<le> 1024 \<and> length pt \<le> unat cap \<and>
     inbox w = record_bytes L st pt @ inbox w2 \<and> but_inbox w2 = but_inbox w \<and> lib_only w2 w' \<and>
     b' = Some (pt @ drop (length pt) b) \<and> l' = Some (of_nat (length pt)) \<and> st' = Some (next_seq st)"
    by blast
  then have pt: "0 < length pt" "length pt \<le> 1024" "inbox w = record_bytes L st pt @ inbox w2" by simp_all
  let ?S = "record_seal L st pt" and ?T = "record_seal L st0 pt0"
  have "fst ?S @ snd ?S = fst ?T @ snd ?T"
    using rec.enc_cancel [OF record_frag_valid [OF assms(1) pt(1,2)] record_frag_valid [OF assms(1,6,7)],
        OF trans [OF pt(3) [unfolded record_bytes_def, symmetric] assms(8) [unfolded record_bytes_def]]] by (rule conjunct1)
  moreover have "length (snd ?S) = length (snd ?T)" "length (fst ?S) = length pt" "length (fst ?T) = length pt0"
    using gcm.seal_tag_len [OF assms(1)] gcm.seal_len [OF assms(1)] by (simp_all add: record_seal_def)
  ultimately have "?S = ?T" "length pt = length pt0" by (auto simp: prod_eq_iff)
  then show "\<exists>pt. length pt = length pt0 \<and>
        gcm_seal L (rs_key st) (record_nonce st) (record_aad (length pt)) pt =
        gcm_seal L (rs_key st) (record_nonce st0) (record_aad (length pt)) pt0"
    unfolding record_seal_def using assms(4) by (intro exI [of _ pt]) simp
qed

text \<open>A cipher that ignores its IV: replays go through, and the conclusion holds.\<close>

definition iv_blind_lib :: "(sample_ctx, bytes) lib" where
  "iv_blind_lib = sample_lib\<lparr>cip_key_iv := \<lambda>_ k v c. c\<lparr>s_key := k\<rparr>\<rparr>"

lemma iv_blind_correct: "gcm_correct iv_blind_lib"
proof -
  have "gcm_open iv_blind_lib key iv aad ct tag = Some pt \<longleftrightarrow> gcm_seal iv_blind_lib key iv aad pt = (ct, tag)"
    if "length tag = 16" for key iv aad pt ct tag
    using that by (auto simp: gcm_open_def gcm_seal_def gcm_start_def iv_blind_lib_def sample_lib_def
        sample_tag_def Let_def length_mix)
  then show ?thesis
    by (simp add: gcm_correct_def) (simp add: iv_blind_lib_def sample_lib_def sample_tag_def length_mix)
qed

theorem replay_needs_forgery_witness:
  "\<exists>pt. length pt = Suc (Suc 0) \<and>
     gcm_seal iv_blind_lib (replicate 32 1) (record_nonce sample_record_state) (record_aad (Suc (Suc 0))) pt =
     gcm_seal iv_blind_lib (replicate 32 1) (record_nonce (sample_record_state\<lparr>sequence_number := 3\<rparr>)) (record_aad (Suc (Suc 0))) [5, 6]"
proof -
  let ?L = iv_blind_lib and ?s = sample_record_state
  let ?old = "?s\<lparr>sequence_number := 3\<rparr>"
  let ?w = "sample_world (record_bytes ?L ?s [5, 6])"
  have up: "lib_up ?L" by (simp add: lib_up_def iv_blind_lib_def sample_lib_def)
  have eq: "record_bytes ?L ?old [5, 6] = record_bytes ?L ?s [5, 6]"
    by (simp add: record_bytes_def record_seal_def gcm_seal_def gcm_start_def iv_blind_lib_def sample_lib_def
        sample_tag_def sample_record_state_def Let_def)
  obtain b' l' st' w' where r: "recv_encrypted_record ?L (Some (local_array 9)) 9 (Some 0) (Some ?s) ?w = Some (0, b', l', st', w')"
    using recv_record_ok [OF iv_blind_correct sample_record_ok up sample_world_fine,
        of "record_bytes ?L ?s [5, 6]" "[5, 6]" "[]" 9 "local_array 9" 0]
    by auto
  from replay_needs_forgery [OF iv_blind_correct sample_record_ok _ refl _ _ _ _ r, of 3 "[5, 6]" "[]"] eq show ?thesis
    by (auto simp: sample_record_state_def)
qed

text \<open>C17: a send that fails on the socket leaves the sequence number, although bytes of the record
  may already be on the wire: if the caller retries with another text, both texts have been
  encrypted under the same key and nonce, and the stream holds a part of the first record
  followed by the whole second one.\<close>

theorem retry_reuses_nonce:
  assumes "gcm_correct L" and "record_ok st"
    and "n \<noteq> 0" and "unat n \<le> 1024" and "unat n \<le> length p"
    and "m \<noteq> 0" and "unat m \<le> 1024" and "unat m \<le> length q"
    and "send_encrypted_record L (Some p) n (Some st) w = Some (- 1, Some st1, w1)"
    and "send_encrypted_record L (Some q) m (Some st1) w1 = Some (0, Some st2, w2)"
  shows "rs_key st1 = rs_key st \<and> record_nonce st1 = record_nonce st \<and>
     (\<exists>k. outbox w2 = outbox w @ take k (record_bytes L st (take (unat n) p)) @
                      record_bytes L st (take (unat m) q))"
proof -
  from send_record_spec [OF assms(1-5), of w] assms(9) lib_only_frame(3) obtain k where
    1: "st1 = st" "outbox w1 = outbox w @ take k (record_bytes L st (take (unat n) p))"
    by (fastforce simp: sent_to_iff)
  from send_record_spec [OF assms(1,2,6-8), of w1] assms(10) lib_only_frame(3) 1(1)
  have "outbox w2 = outbox w1 @ take (21 + unat m) (record_bytes L st (take (unat m) q))"
    by (fastforce simp: sent_to_iff)
  also have "take (21 + unat m) (record_bytes L st (take (unat m) q)) = record_bytes L st (take (unat m) q)"
    using length_record_bytes [OF assms(1), of "take (unat m) q" st] assms(7,8) by (simp add: min_absorb2)
  finally show ?thesis using 1 by auto
qed

text \<open>The socket fails once, in the tag of the first record; the retry sends another text.\<close>

definition faulty_world :: world where
  "faulty_world = (sample_world [])\<lparr>io_sched := \<lambda>k. if k = 2 then Io_error else Xfer 50\<rparr>"

lemma case_ret:
  assumes "case x of Some (rc, Some s, w) \<Rightarrow> P rc s w | _ \<Rightarrow> False"
  obtains rc s w where "x = Some (rc, Some s, w)" "P rc s w"
  using assms by (auto split: option.splits prod.splits)

theorem retry_reuses_nonce_witness:
  "\<exists>st1 w1 st2 w2 k. send_encrypted_record sample_lib (Some [5, 6]) 2 (Some sample_record_state) faulty_world =
       Some (- 1, Some st1, w1) \<and>
     send_encrypted_record sample_lib (Some [8]) 1 (Some st1) w1 = Some (0, Some st2, w2) \<and>
     record_nonce st1 = record_nonce sample_record_state \<and> outbox w1 = [23, 3, 3, 0, 18, 5, 6] \<and>
     outbox w2 = take k (record_bytes sample_lib sample_record_state [5, 6]) @
                 record_bytes sample_lib sample_record_state [8]"
proof -
  let ?S = sample_record_state
  have run: "case send_encrypted_record sample_lib (Some [5, 6]) 2 (Some ?S) faulty_world of
      Some (rc, Some st1, w1) \<Rightarrow> rc = - 1 \<and> st1 = ?S \<and> outbox w1 = [23, 3, 3, 0, 18, 5, 6] \<and>
        (case send_encrypted_record sample_lib (Some [8]) 1 (Some st1) w1 of
           Some (rc2, Some st2, w2) \<Rightarrow> rc2 = 0 | _ \<Rightarrow> False)
    | _ \<Rightarrow> False"
    by code_simp
  then obtain w1 st2 w2 where 1: "send_encrypted_record sample_lib (Some [5, 6]) 2 (Some ?S) faulty_world =
      Some (- 1, Some ?S, w1)" "outbox w1 = [23, 3, 3, 0, 18, 5, 6]"
    and 2: "send_encrypted_record sample_lib (Some [8]) 1 (Some ?S) w1 = Some (0, Some st2, w2)"
    by (elim case_ret conjE) simp
  from retry_reuses_nonce [OF sample_gcm_correct sample_record_ok _ _ _ _ _ _ 1(1) 2] 1 2 show ?thesis
    by (auto simp: faulty_world_def)
qed

end
