(* ===== verification/Kdf.thy ===== *)
theory Kdf
  imports Env Sample
begin

section \<open>HKDF derivations (\<open>src/kdf.c\<close>, and the contract of every derivation)\<close>

text \<open>
  Three functions of the program derive key material with OpenSSL's HKDF in the same manner:
  \<open>derive_aes256_key_hkdf\<close> (here), \<open>hkdf_derive_label\<close> (theory \<open>Tls_Key_Schedule\<close>) and
  \<open>derive_finished_key\<close> (theory \<open>Tls_Finished\<close>). The locale \<open>key_derivation\<close> is the contract
  their callers rely on: on success the output is the HKDF of the parameters, nothing outside
  it is written, and on every path all handles are freed. A failed \<open>EVP_KDF_derive\<close> leaves
  arbitrary bytes in the output.
\<close>

text \<open>Documented behaviour of \<open>EVP_KDF_derive\<close>: it produces as many bytes as asked for.\<close>

definition kdf_correct :: "('c, 'm) lib \<Rightarrow> bool" where
  "kdf_correct L \<longleftrightarrow> (\<forall>ps n. length (kdf_derive L ps n) = n)"

lemma kdf_correct_len: "kdf_correct L \<Longrightarrow> length (kdf_derive L ps n) = n"
  by (simp add: kdf_correct_def)

lemma sample_kdf_correct: "kdf_correct sample_lib"
  by (simp add: kdf_correct_def sample_lib_def)

lemma failing_kdf_correct: "kdf_correct (failing_lib n)"
  by (simp add: kdf_correct_def failing_lib_def sample_lib_def)

text \<open>The call: fill the first \<open>n\<close> bytes of the output.\<close>

definition evp_kdf_derive ::
  "('c, 'm) lib \<Rightarrow> kdf_param list \<Rightarrow> ptr \<Rightarrow> size_t \<Rightarrow> world \<Rightarrow> (bool \<times> ptr \<times> world) option" where
  "evp_kdf_derive L ps out n w =
     do {
       let (ok, w') = ext_call L w;
       b \<leftarrow> out;
       b \<leftarrow> wr b 0 (if ok then kdf_derive L ps (unat n) else fresh_mem L (unat n) w);
       Some (ok, Some b, w')
     }"

text \<open>Freeing a handle that may be \<open>NULL\<close>.\<close>

definition free_if :: "bool \<Rightarrow> handle \<Rightarrow> world \<Rightarrow> world option" where
  "free_if held h w = (if held then release h w else Some w)"

lemma free_if_simps [simp]:
  "free_if False h w = Some w" "free_if True h w = release h w"
  by (simp_all add: free_if_def)

subsection \<open>The contract\<close>

locale key_derivation =
  fixes derive :: "('c, 'm) lib \<Rightarrow> 'a \<Rightarrow> ptr \<Rightarrow> size_t \<Rightarrow> world \<Rightarrow> (int \<times> ptr \<times> world) option"
    and params :: "'a \<Rightarrow> kdf_param list"
    and valid :: "'a \<Rightarrow> bool"
  assumes derive_contract:
    "kdf_correct L \<Longrightarrow> valid a \<Longrightarrow> n \<noteq> 0 \<Longrightarrow> unat n \<le> length b \<Longrightarrow>
       \<exists>rc b' w'. derive L a (Some b) n w = Some (rc, Some b', w') \<and> lib_only w w' \<and>
         length b' = length b \<and> drop (unat n) b' = drop (unat n) b \<and>
         (rc = 0 \<and> take (unat n) b' = kdf_derive L (params a) (unat n) \<or> rc = - 1 \<and> \<not> lib_up L)"
begin

text \<open>For an output of exactly the derived length, the form the callers use.\<close>

lemma derive_exact:
  assumes "kdf_correct L" and "valid a" and "n \<noteq> 0" and "length b = unat n"
  shows "\<exists>rc d w'. derive L a (Some b) n w = Some (rc, Some d, w') \<and> lib_only w w' \<and>
     length d = unat n \<and>
     (rc = 0 \<and> d = kdf_derive L (params a) (unat n) \<or> rc = - 1 \<and> \<not> lib_up L)"
proof -
  from derive_contract [OF assms(1-3), of b w] assms(4) obtain rc d w' where
    "derive L a (Some b) n w = Some (rc, Some d, w')" "lib_only w w'" "length d = unat n"
    "rc = 0 \<and> take (unat n) d = kdf_derive L (params a) (unat n) \<or> rc = - 1 \<and> \<not> lib_up L" by auto
  then show ?thesis by auto
qed

lemma derive_up:
  assumes "kdf_correct L" and "lib_up L" and "valid a" and "n \<noteq> 0" and "length b = unat n"
  shows "\<exists>w'. derive L a (Some b) n w = Some (0, Some (kdf_derive L (params a) (unat n)), w') \<and>
     lib_only w w'"
  using derive_exact [OF assms(1,3-5), of w] assms(2) by auto

text \<open>A derivation that reports success has produced the HKDF output.\<close>

lemma derive_success:
  assumes "kdf_correct L" and "valid a" and "n \<noteq> 0" and "length b = unat n"
    and "derive L a (Some b) n w = Some (0, d, w')"
  shows "d = Some (kdf_derive L (params a) (unat n)) \<and> lib_only w w'"
  using derive_exact [OF assms(1-4), of w] assms(5) by auto

end

subsection \<open>\<open>derive_aes256_key_hkdf\<close>\<close>

text \<open>Salt and info are C arrays initialised from a string, used with \<open>sizeof\<close>: they include the
  terminating NUL.\<close>

definition hkdf_salt :: bytes where
  "hkdf_salt = cstr ''ML-KEM-768 AES-256-GCM session key'' @ [0]"

definition hkdf_info :: bytes where
  "hkdf_info = cstr ''ML-KEM-768 AES-256-GCM session key'' @ [0]"

definition derive_aes256_key_hkdf ::
  "('c, 'm) lib \<Rightarrow> ptr \<Rightarrow> size_t \<Rightarrow> ptr \<Rightarrow> size_t \<Rightarrow> world \<Rightarrow> (int \<times> ptr \<times> world) option" where
  "derive_aes256_key_hkdf L shared_secret shared_secret_len aes_key aes_key_len w =
     do {
       let (library_context, w) = acquire L H_LIB_CTX w;
       let (kdf, w) = (if library_context then acquire L H_KDF w else (False, w));
       let (kctx, w) = (if kdf then acquire L H_KDF_CTX w else (False, w));
       (ret, aes_key, w) \<leftarrow>
         (if kctx then do {
            s \<leftarrow> shared_secret;
            key \<leftarrow> rd s 0 (unat shared_secret_len);
            let params = [P_DIGEST ''SHA256'', P_KEY key, P_INFO hkdf_info, P_SALT hkdf_salt];
            (ok, aes_key, w) \<leftarrow> evp_kdf_derive L params aes_key aes_key_len w;
            Some (if ok then 0 else - 1, aes_key, w)
          }
          else Some (- 1, aes_key, w));
       w \<leftarrow> free_if kctx H_KDF_CTX w;
       w \<leftarrow> free_if kdf H_KDF w;
       w \<leftarrow> free_if library_context H_LIB_CTX w;
       Some (ret, aes_key, w)
     }"

interpretation aes_kdf: key_derivation
  "\<lambda>L (s, n) out m w. derive_aes256_key_hkdf L (Some s) n out m w"
  "\<lambda>(s, n). [P_DIGEST ''SHA256'', P_KEY (take (unat n) s), P_INFO hkdf_info, P_SALT hkdf_salt]"
  "\<lambda>(s, n). unat n \<le> length s"
proof (unfold_locales, goal_cases)
  case (1 L a n b w)
  obtain s sn where a: "a = (s, sn)" by (cases a)
  with 1 show ?case
    by (auto simp: derive_aes256_key_hkdf_def evp_kdf_derive_def env_simps Let_def rd_def wr_def
        kdf_correct_len lib_up_def split: if_splits)
qed

subsection \<open>Properties\<close>

text \<open>\<open>derive_aes256_key_hkdf\<close> on valid buffers always returns, frees every handle it acquired
  and never writes behind the requested key; on success the key is the HKDF-SHA256 of the secret
  with the fixed salt and info, and a failure means that a call of OpenSSL failed.\<close>

theorem derive_aes256_key_hkdf_correct:
  assumes "kdf_correct L" and "unat n \<le> length secret" and "m \<noteq> 0" and "unat m \<le> length out"
  shows "\<exists>rc out' w'.
     derive_aes256_key_hkdf L (Some secret) n (Some out) m w = Some (rc, Some out', w') \<and>
     lib_only w w' \<and> length out' = length out \<and> drop (unat m) out' = drop (unat m) out \<and>
     (rc = 0 \<and> take (unat m) out' = kdf_derive L
        [P_DIGEST ''SHA256'', P_KEY (take (unat n) secret), P_INFO hkdf_info, P_SALT hkdf_salt] (unat m) \<or>
      rc = - 1 \<and> \<not> lib_up L)"
  using aes_kdf.derive_contract [OF assms(1) _ assms(3,4), of "(secret, n)" w] assms(2) by simp

theorem derive_aes256_key_hkdf_correct_witness:
  "\<exists>rc out' w'. derive_aes256_key_hkdf sample_lib (Some [1, 2]) 2 (Some (replicate 40 9)) 32 (sample_world []) =
       Some (rc, Some out', w') \<and>
     lib_only (sample_world []) w' \<and> length out' = 40 \<and> drop 32 out' = replicate 8 9 \<and>
     (rc = 0 \<and> take 32 out' = kdf_derive sample_lib
        [P_DIGEST ''SHA256'', P_KEY [1, 2], P_INFO hkdf_info, P_SALT hkdf_salt] 32 \<or>
      rc = - 1 \<and> \<not> lib_up sample_lib)"
  using derive_aes256_key_hkdf_correct [OF sample_kdf_correct, of 2 "[1, 2]" 32 "replicate 40 9" "sample_world []"]
  by simp

end
