(* ===== verification/Tls_Handshake.thy ===== *)
theory Tls_Handshake
  imports Common Sample
begin

section \<open>Handshake messages (\<open>src/tls_handshake.c\<close>)\<close>

text \<open>
  A handshake message is its type (1 byte), the length of its body (3 bytes, big-endian) and
  the body. \<open>encode_handshake_msg\<close> builds it in memory (for the transcript),
  \<open>send_handshake_msg\<close> and \<open>recv_handshake_msg\<close> move it over the socket. The wire format is
  also given as a reference encoding \<open>hs_msg\<close> with a parser \<open>parse_hs\<close>; the format is an
  instance of the interface \<open>prefix_code\<close>, so a stream of messages can be read in one way only.
\<close>

datatype tls_handshake_type =
    TLS_MSG_CLIENT_HELLO
  | TLS_MSG_SERVER_HELLO
  | TLS_MSG_CERTIFICATE
  | TLS_MSG_CERTIFICATE_VERIFY
  | TLS_MSG_FINISHED

fun msg_code :: "tls_handshake_type \<Rightarrow> byte" where
  "msg_code TLS_MSG_CLIENT_HELLO = 1"
| "msg_code TLS_MSG_SERVER_HELLO = 2"
| "msg_code TLS_MSG_CERTIFICATE = 11"
| "msg_code TLS_MSG_CERTIFICATE_VERIFY = 15"
| "msg_code TLS_MSG_FINISHED = 20"

abbreviation TLS_HANDSHAKE_HEADER_LEN :: size_t where
  "TLS_HANDSHAKE_HEADER_LEN \<equiv> 4"

abbreviation TLS_HANDSHAKE_MAX_BODY_LEN :: size_t where
  "TLS_HANDSHAKE_MAX_BODY_LEN \<equiv> 0xFFFFFF"

subsection \<open>Operations\<close>

definition hs_header :: "byte \<Rightarrow> size_t \<Rightarrow> bytes" where
  "hs_header msg_type body_len = msg_type # be24 body_len"

definition send_handshake_msg ::
  "byte \<Rightarrow> ptr \<Rightarrow> size_t \<Rightarrow> world \<Rightarrow> (int \<times> world) option" where
  "send_handshake_msg msg_type body body_len w =
     (if body_len > TLS_HANDSHAKE_MAX_BODY_LEN \<or> (body_len > 0 \<and> body = None)
      then Some (- 1, w)
      else do {
        (rc, w) \<leftarrow> send_all (hs_header msg_type body_len) TLS_HANDSHAKE_HEADER_LEN w;
        if rc = - 1 then Some (- 1, w)
        else if body_len > 0 then do {
          b \<leftarrow> body;
          (rc, w) \<leftarrow> send_all b body_len w;
          if rc = - 1 then Some (- 1, w) else Some (0, w)
        }
        else Some (0, w)
      })"

definition recv_handshake_msg ::
  "byte \<Rightarrow> ptr \<Rightarrow> size_t \<Rightarrow> size_t option \<Rightarrow> world \<Rightarrow> (int \<times> ptr \<times> size_t option \<times> world) option" where
  "recv_handshake_msg expected_type body body_capacity body_len w =
     (if body = None \<or> body_len = None then Some (- 1, body, body_len, w)
      else do {
        (rc, header, w) \<leftarrow> recv_all (local_array 4) TLS_HANDSHAKE_HEADER_LEN w;
        if rc \<noteq> 0 then Some (rc, body, body_len, w)
        else do {
          let len = be24_dec (header ! 1) (header ! 2) (header ! 3);
          if header ! 0 \<noteq> expected_type then Some (- 1, body, body_len, w)
          else if len > body_capacity then Some (- 1, body, body_len, w)
          else do {
            b \<leftarrow> body;
            (rc, b, w) \<leftarrow> recv_all b len w;
            if rc \<noteq> 0 then Some (rc, Some b, body_len, w)
            else Some (0, Some b, Some len, w)
          }
        }
      })"

definition encode_handshake_msg ::
  "byte \<Rightarrow> ptr \<Rightarrow> size_t \<Rightarrow> ptr \<Rightarrow> size_t \<Rightarrow> size_t option \<Rightarrow> (int \<times> ptr \<times> size_t option) option" where
  "encode_handshake_msg msg_type body body_len out out_capacity out_len =
     (if out = None \<or> out_len = None then Some (- 1, out, out_len)
      else if body_len > TLS_HANDSHAKE_MAX_BODY_LEN \<or>
              out_capacity < TLS_HANDSHAKE_HEADER_LEN + body_len
      then Some (- 1, out, out_len)
      else if body_len > 0 \<and> body = None then Some (- 1, out, out_len)
      else do {
        buf \<leftarrow> out;
        buf \<leftarrow> wr buf 0 (hs_header msg_type body_len);
        buf \<leftarrow> (if body_len > 0
                then do { b \<leftarrow> body; d \<leftarrow> rd b 0 (unat body_len); wr buf 4 d }
                else Some buf);
        Some (0, Some buf, Some (TLS_HANDSHAKE_HEADER_LEN + body_len))
      })"

subsection \<open>The wire format\<close>

definition hs_msg :: "byte \<Rightarrow> bytes \<Rightarrow> bytes" where
  "hs_msg msg_type b = hs_header msg_type (of_nat (length b)) @ b"

definition parse_hs :: "bytes \<Rightarrow> ((byte \<times> bytes) \<times> bytes) option" where
  "parse_hs s =
     (case s of
        t # a # b # c # r \<Rightarrow>
          (let n = unat (be24_dec a b c) in
           if n \<le> length r then Some ((t, take n r), drop n r) else None)
      | _ \<Rightarrow> None)"

definition hs_valid :: "byte \<times> bytes \<Rightarrow> bool" where
  "hs_valid m \<longleftrightarrow> length (snd m) \<le> 0xFFFFFF"

lemma length_hs_header [simp]: "length (hs_header t n) = 4"
  by (simp add: hs_header_def)

lemma length_hs_msg [simp]: "length (hs_msg t b) = 4 + length b"
  by (simp add: hs_msg_def)

lemma hs_header_parts: "hs_header t n = [t, be24 n ! 0, be24 n ! 1, be24 n ! 2]"
  by (simp add: hs_header_def be24_def)

lemma be24_len: "n \<le> 0xFFFFFF \<Longrightarrow> unat (be24_dec (be24 (of_nat n) ! 0) (be24 (of_nat n) ! Suc 0) (be24 (of_nat n) ! 2)) = n"
  by (subst be24_dec_be24, subst take_bit_24_id) (simp_all add: word_le_nat_alt unat_of_nat_size_t)

interpretation hs: prefix_code "\<lambda>(t, b). hs_msg t b" parse_hs hs_valid
proof (unfold_locales, goal_cases)
  case (1 x r)
  then show ?case
    by (cases x) (simp add: hs_valid_def hs_msg_def hs_header_parts parse_hs_def be24_len Let_def)
next
  case (2 s x r)
  then obtain t a b c u where s: "s = t # a # b # c # u"
    by (auto simp: parse_hs_def split: list.splits)
  define n where "n = be24_dec a b c"
  from 2 s have n: "unat n \<le> length u" "x = (t, take (unat n) u)" "r = drop (unat n) u"
    by (auto simp: parse_hs_def n_def Let_def split: if_splits)
  have "be24 n = [a, b, c]" by (simp add: n_def be24_be24_dec)
  moreover have "unat n \<le> 0xFFFFFF"
    using unat_byte_lt [of a] unat_byte_lt [of b] unat_byte_lt [of c]
    by (simp add: n_def be24_dec_unat)
  ultimately show ?case
    using n s by (simp add: hs_valid_def hs_msg_def hs_header_def min_absorb2)
next
  case (3 x)
  then show ?case by (cases x) (simp add: hs_msg_def hs_header_def)
qed

lemmas hs_cancel = hs.enc_cancel [of "(t, b)" "(t', b')" for t b t' b', simplified]

subsection \<open>Sending\<close>

definition hs_parts :: "byte \<Rightarrow> bytes \<Rightarrow> size_t \<Rightarrow> (bytes \<times> size_t) list" where
  "hs_parts t b n = (hs_header t n, 4) # (if n > 0 then [(b, n)] else [])"

lemma hs_parts_ok: "unat n \<le> length b \<Longrightarrow> list_all (\<lambda>(d, n). unat n \<le> length d) (hs_parts t b n)"
  by (simp add: hs_parts_def)

lemma parts_hs_parts: "unat n \<le> length b \<Longrightarrow> parts (hs_parts t b n) = hs_msg t (take (unat n) b)"
  by (auto simp: hs_parts_def hs_msg_def min_absorb2 word_gt_0_unat)

lemma send_handshake_put:
  "n \<le> TLS_HANDSHAKE_MAX_BODY_LEN \<Longrightarrow>
     send_handshake_msg t (Some b) n w = put_all send_all (hs_parts t b n) w"
  by (auto simp: send_handshake_msg_def hs_parts_def not_less split: if_splits intro!: Option.bind_cong)

subsection \<open>Receiving\<close>

lemma recv_header:
  assumes "recv_all (local_array 4) 4 w = Some (0, h, w1)"
  shows "\<exists>t n. n \<le> TLS_HANDSHAKE_MAX_BODY_LEN \<and> h = hs_header t n \<and> inbox w = hs_header t n @ inbox w1 \<and>
     be24_dec (h ! 1) (h ! 2) (h ! 3) = n \<and> h ! 0 = t"
proof -
  from src.get_ok [OF assms] have h: "h = take 4 (inbox w)" "4 \<le> length (inbox w)" "inbox w1 = drop 4 (inbox w)"
    by auto
  then obtain t a b c where hd: "h = [t, a, b, c]"
    using length_4 [of h] by auto
  define n where "n = be24_dec a b c"
  have "n \<le> TLS_HANDSHAKE_MAX_BODY_LEN"
    using unat_byte_lt [of a] unat_byte_lt [of b] unat_byte_lt [of c]
    by (simp add: word_le_nat_alt n_def be24_dec_unat)
  moreover have "h = hs_header t n" by (simp add: hd n_def hs_header_def be24_be24_dec)
  moreover have "inbox w = h @ inbox w1" using h by (simp only: append_take_drop_id)
  moreover have "be24_dec (h ! 1) (h ! 2) (h ! 3) = n" "h ! 0 = t" by (simp_all add: hd n_def)
  ultimately show ?thesis by blast
qed

text \<open>Whatever the schedule: a message accepted is the first message of the stream.\<close>

lemma recv_handshake_sound:
  assumes "recv_handshake_msg t (Some b) cap (Some l0) w = Some (0, b', l', w')"
  shows "\<exists>m. hs_valid (t, m) \<and> length m \<le> unat cap \<and> inbox w = hs_msg t m @ inbox w' \<and>
     b' = Some (m @ drop (length m) b) \<and> l' = Some (of_nat (length m)) \<and>
     but_inbox w' = but_inbox w"
proof -
  from assms obtain h w1 where h: "recv_all (local_array 4) 4 w = Some (0, h, w1)"
    by (auto simp: recv_handshake_msg_def Option.bind_eq_Some_conv split: if_splits)
  from recv_header [OF h] obtain t' n where hd: "n \<le> TLS_HANDSHAKE_MAX_BODY_LEN"
    "inbox w = hs_header t' n @ inbox w1" "be24_dec (h ! 1) (h ! 2) (h ! 3) = n" "h ! 0 = t'" by blast
  from assms h hd have t': "t' = t" "n \<le> cap" and b': "\<exists>c. b' = Some c \<and> recv_all b n w1 = Some (0, c, w')"
    and l': "l' = Some n"
    by (auto simp: recv_handshake_msg_def Let_def not_less split: if_splits Option.bind_splits)
  then obtain c where c: "b' = Some c" "recv_all b n w1 = Some (0, c, w')" by blast
  from src.get_ok [OF c(2)] have ok: "unat n \<le> length (inbox w1)"
    "c = take (unat n) (inbox w1) @ drop (unat n) b" "inbox w' = drop (unat n) (inbox w1)" by auto
  define m where "m = take (unat n) (inbox w1)"
  have m: "length m = unat n" using ok(1) by (simp add: m_def)
  have "inbox w1 = m @ inbox w'" by (simp add: m_def ok(3))
  then have "inbox w = hs_msg t m @ inbox w'" using hd(2) t' m by (simp add: hs_msg_def)
  moreover have "hs_valid (t, m)" "length m \<le> unat cap"
    using hd(1) t'(2) m by (simp_all add: hs_valid_def word_le_nat_alt)
  moreover have "b' = Some (m @ drop (length m) b)" "l' = Some (of_nat (length m))"
    using c ok m l' by (simp_all add: m_def)
  moreover have "but_inbox w' = but_inbox w"
    using src.get_other [OF h] src.get_other [OF c(2)] by simp
  ultimately show ?thesis by blast
qed

text \<open>On a fault-free schedule the result is a function of the stream.\<close>

definition recv_hs_ref :: "byte \<Rightarrow> nat \<Rightarrow> bytes \<Rightarrow> int \<times> bytes \<times> nat" where
  "recv_hs_ref t cap s =
     (if length s < 4 then (1, [], length s)
      else let n = unat (be24_dec (s ! 1) (s ! 2) (s ! 3)) in
        if s ! 0 \<noteq> t \<or> cap < n then (- 1, [], 4)
        else if length s < 4 + n then (1, drop 4 s, length s)
        else (0, take n (drop 4 s), 4 + n))"

lemma recv_handshake_fine:
  assumes "io_fine w" and "unat cap \<le> length b" and "recv_hs_ref t (unat cap) (inbox w) = (rc, d, k)"
    and "peer_closed w \<or> rc \<noteq> 1"
  shows "\<exists>w'. recv_handshake_msg t (Some b) cap (Some l0) w =
            Some (rc, Some (d @ drop (length d) b),
                  Some (if rc = 0 then of_nat (length d) else l0), w') \<and>
          read_from w k w' \<and> io_fine w'"
proof -
  let ?s = "inbox w"
  have "peer_closed w \<or> unat (4 :: size_t) \<le> length ?s"
    using assms(3,4) by (auto simp: recv_hs_ref_def split: if_splits)
  from recv_all_fine_cases [OF assms(1) _ this, of "local_array 4"]
  obtain w1 where w1: "read_from w (min 4 (length ?s)) w1" "io_fine w1"
    "recv_all (local_array 4) 4 w = Some (if 4 \<le> length ?s then 0 else 1,
       take 4 ?s @ drop (min 4 (length ?s)) (local_array 4), w1)" by auto
  show ?thesis
  proof (cases "4 \<le> length ?s")
    case False
    with w1 assms(3) show ?thesis
      by (auto simp: recv_handshake_msg_def recv_hs_ref_def min_def)
  next
    case True
    define n where "n = be24_dec (?s ! 1) (?s ! 2) (?s ! 3)"
    from True w1 have h: "recv_all (local_array 4) 4 w = Some (0, take 4 ?s, w1)"
      and s1: "inbox w1 = drop 4 ?s" "peer_closed w1 = peer_closed w" and rf: "read_from w 4 w1"
      by (auto simp: read_from_def min_def)
    note unf = recv_handshake_msg_def [of t "Some b" cap "Some l0" w]
    show ?thesis
    proof (cases "?s ! 0 \<noteq> t \<or> unat cap < unat n")
      case bad: True
      with True assms(3) h rf w1(2) show ?thesis
        by (auto simp: unf recv_hs_ref_def n_def Let_def word_less_nat_alt)
    next
      case good: False
      then have le: "unat n \<le> length b" using assms(2) by simp
      have "peer_closed w1 \<or> unat n \<le> length (inbox w1)"
        using assms(3,4) True good s1 by (auto simp: recv_hs_ref_def n_def Let_def split: if_splits)
      from recv_all_fine_cases [OF w1(2) le this] obtain w2 where w2:
        "read_from w1 (min (unat n) (length (inbox w1))) w2" "io_fine w2"
        "recv_all b n w1 = Some (if unat n \<le> length (inbox w1) then 0 else 1,
           take (unat n) (inbox w1) @ drop (min (unat n) (length (inbox w1))) b, w2)" by blast
      have "recv_handshake_msg t (Some b) cap (Some l0) w =
          (if unat n \<le> length (inbox w1)
           then Some (0, Some (take (unat n) (inbox w1) @ drop (unat n) b), Some n, w2)
           else Some (1, Some (inbox w1 @ drop (length (inbox w1)) b), Some l0, w2))"
        using True good h w2(3) by (auto simp: unf n_def Let_def word_less_nat_alt min_def)
      with True good assms(3) w2(2) read_from_trans [OF rf w2(1)] show ?thesis
        by (auto simp: s1 recv_hs_ref_def n_def Let_def min_def split: if_splits)
    qed
  qed
qed

lemma recv_hs_ref_msg:
  "hs_valid (t, m) \<Longrightarrow> length m \<le> cap \<Longrightarrow> recv_hs_ref t cap (hs_msg t m @ r) = (0, m, 4 + length m)"
  by (simp add: recv_hs_ref_def hs_msg_def hs_header_parts hs_valid_def be24_len Let_def)

text \<open>What the endpoints use: a stream that starts with the expected message.\<close>

lemma recv_handshake_ok:
  assumes "io_fine w" and "inbox w = hs_msg t m @ r" and "hs_valid (t, m)"
    and "length m \<le> unat cap" and "unat cap \<le> length b"
  shows "\<exists>w'. recv_handshake_msg t (Some b) cap (Some l0) w =
            Some (0, Some (m @ drop (length m) b), Some (of_nat (length m)), w') \<and>
          read_from w (4 + length m) w' \<and> io_fine w' \<and> inbox w' = r"
  using recv_handshake_fine [OF assms(1,5), of t 0 m "4 + length m" l0]
    recv_hs_ref_msg [OF assms(3,4), of r] assms(2)
  by (auto simp: read_from_def)

lemma send_handshake_fine:
  assumes "io_fine w" and "unat n \<le> length b" and "n \<le> TLS_HANDSHAKE_MAX_BODY_LEN"
  shows "\<exists>w'. send_handshake_msg t (Some b) n w = Some (0, w') \<and>
           sent_to w (hs_msg t (take (unat n) b)) w' \<and> io_fine w'"
  using put_all_fine [OF assms(1) hs_parts_ok [OF assms(2)], of t]
  unfolding send_handshake_put [OF assms(3)] parts_hs_parts [OF assms(2)] .

subsection \<open>Encoding in memory\<close>

lemma encode_handshake_ok:
  assumes "unat n \<le> 0xFFFFFF" and "4 + unat n \<le> unat cap" and "unat cap \<le> length o'"
    and "unat n \<le> length b"
  shows "encode_handshake_msg t (Some b) n (Some o') cap (Some l) =
           Some (0, Some (hs_msg t (take (unat n) b) @ drop (4 + unat n) o'), Some (4 + n))"
proof -
  have "unat (4 + n) = 4 + unat n" using assms(1) by (simp add: unat_word_ariths)
  with assms(2) have "\<not> cap < 4 + n" by (simp add: word_less_nat_alt)
  with assms show ?thesis
    by (auto simp: encode_handshake_msg_def word_less_nat_alt word_le_nat_alt hs_msg_def wr_def rd_def
        min_absorb2 word_gt_0_unat add.commute [of 4 "unat n"])
qed

subsection \<open>Properties\<close>

text \<open>C21: \<open>send_handshake_msg\<close> refuses a body longer than 2^24 - 1 bytes without writing anything;
  otherwise it returns, having written exactly the encoded message (0) or a proper prefix of
  it (-1), and changes nothing else.\<close>

theorem send_handshake_msg_correct:
  assumes "unat body_len \<le> length b"
  shows "if unat body_len \<le> 0xFFFFFF
     then \<exists>rc w' k. send_handshake_msg t (Some b) body_len w = Some (rc, w') \<and>
        sent_to w (take k (hs_msg t (take (unat body_len) b))) w' \<and>
        (rc = 0 \<and> k = 4 + unat body_len \<or> rc = - 1 \<and> k < 4 + unat body_len)
     else send_handshake_msg t (Some b) body_len w = Some (- 1, w)"
proof (cases "unat body_len \<le> 0xFFFFFF")
  case True
  then have le: "body_len \<le> TLS_HANDSHAKE_MAX_BODY_LEN" by (simp add: word_le_nat_alt)
  from put_all_sent [OF hs_parts_ok [OF assms], of t w] True show ?thesis
    unfolding send_handshake_put [OF le] parts_hs_parts [OF assms]
    using assms by (simp add: min_absorb2)
next
  case False
  then show ?thesis by (simp add: send_handshake_msg_def word_less_nat_alt)
qed

theorem send_handshake_msg_correct_witness:
  "\<exists>rc w' k. send_handshake_msg 1 (Some [5, 6, 7]) 2 (sample_world []) = Some (rc, w') \<and>
     sent_to (sample_world []) (take k (hs_msg 1 [5, 6])) w' \<and> (rc = 0 \<and> k = 6 \<or> rc = - 1 \<and> k < 6)"
  using send_handshake_msg_correct [of 2 "[5, 6, 7]" 1 "sample_world []"] by simp

text \<open>C19: whatever the peer sends and however the transfer is cut, a message that
  \<open>recv_handshake_msg\<close> accepts is the first message of the stream, of the expected type and no
  longer than the buffer; its body is what the buffer then starts with, its length what is
  stored, and the stream has been consumed exactly up to its end.\<close>

theorem recv_handshake_msg_sound:
  assumes "recv_handshake_msg t (Some b) body_capacity (Some l) w = Some (0, b', l', w')"
  shows "\<exists>m. length m \<le> unat body_capacity \<and> length m \<le> 0xFFFFFF \<and>
     inbox w = hs_msg t m @ inbox w' \<and> outbox w' = outbox w \<and>
     b' = Some (m @ drop (length m) b) \<and> l' = Some (of_nat (length m))"
proof -
  from recv_handshake_sound [OF assms] obtain m where
    m: "hs_valid (t, m)" "length m \<le> unat body_capacity" "inbox w = hs_msg t m @ inbox w'"
     "b' = Some (m @ drop (length m) b)" "l' = Some (of_nat (length m))" "but_inbox w' = but_inbox w"
    by blast
  from m(6) have "outbox w' = outbox w" by (cases w, cases w') (simp add: but_inbox_def)
  with m show ?thesis by (auto simp: hs_valid_def)
qed

theorem recv_handshake_msg_sound_witness:
  "\<exists>w' m. recv_handshake_msg 2 (Some [0, 0, 0]) 3 (Some 0) (sample_world (hs_msg 2 [8, 9] @ [1])) =
       Some (0, Some [8, 9, 0], Some 2, w') \<and>
     hs_msg 2 [8, 9] @ [1] = hs_msg 2 m @ inbox w' \<and> [8, 9, 0] = m @ drop (length m) [0, 0, 0]"
proof -
  let ?w = "sample_world (hs_msg 2 [8, 9] @ [1])"
  obtain w' where h: "recv_handshake_msg 2 (Some [0, 0, 0]) 3 (Some 0) ?w = Some (0, Some [8, 9, 0], Some 2, w')"
    using recv_handshake_ok [of ?w 2 "[8, 9]" "[1]" 3 "[0, 0, 0]" 0] sample_world_fine
    by (auto simp: hs_valid_def sample_world_def)
  from recv_handshake_msg_sound [OF h] show ?thesis
    using h by (auto simp: sample_world_def)
qed

text \<open>C20: on a schedule without failures and with a peer that has closed, \<open>recv_handshake_msg\<close>
  returns and its result is a function of the stream, on every branch: a truncated header or
  body gives 1 (connection closed), a wrong type or a length beyond the capacity gives -1 after
  the header, otherwise the message is delivered; a length is stored on success only.\<close>

theorem recv_handshake_msg_branches:
  assumes "io_fine w" and "peer_closed w" and "unat body_capacity \<le> length b"
  shows "case recv_hs_ref t (unat body_capacity) (inbox w) of (rc, d, k) \<Rightarrow>
     \<exists>w'. recv_handshake_msg t (Some b) body_capacity (Some l) w =
            Some (rc, Some (d @ drop (length d) b),
                  Some (if rc = 0 then of_nat (length d) else l), w') \<and>
          inbox w' = drop k (inbox w)"
proof -
  obtain rc d k where ref: "recv_hs_ref t (unat body_capacity) (inbox w) = (rc, d, k)"
    by (cases "recv_hs_ref t (unat body_capacity) (inbox w)")
  from recv_handshake_fine [OF assms(1,3) ref, of l] assms(2) ref show ?thesis
    by (auto simp: read_from_def)
qed

theorem recv_handshake_msg_branches_witness:
  "\<exists>w'. recv_handshake_msg 2 (Some [0, 0]) 2 (Some 7) (sample_world [2, 0, 0, 2, 5]) =
       Some (1, Some [5, 0], Some 7, w') \<and> inbox w' = []"
  using recv_handshake_msg_branches [OF sample_world_fine, of "[2, 0, 0, 2, 5]" 2 "[0, 0]" 2 7]
  by (simp add: sample_world_def recv_hs_ref_def be24_dec_def)

text \<open>C22: \<open>encode_handshake_msg\<close> succeeds exactly when the body has at most 2^24 - 1 bytes and
  header and body fit the capacity (the 64-bit sum in its guard cannot wrap, because the
  length is checked first), and then writes the encoded message at the front of the output and
  nothing else; on an error it writes nothing.\<close>

theorem encode_handshake_msg_correct:
  assumes "unat body_len \<le> length b" and "unat out_capacity \<le> length out"
  shows "encode_handshake_msg t (Some b) body_len (Some out) out_capacity (Some l) =
     (if unat body_len \<le> 0xFFFFFF \<and> 4 + unat body_len \<le> unat out_capacity
      then Some (0, Some (hs_msg t (take (unat body_len) b) @ drop (4 + unat body_len) out),
                 Some (4 + body_len))
      else Some (- 1, Some out, Some l))"
proof (cases "unat body_len \<le> 0xFFFFFF")
  case False
  then show ?thesis by (simp add: encode_handshake_msg_def word_less_nat_alt)
next
  case True
  have sum: "unat (4 + body_len) = 4 + unat body_len" using True by (simp add: unat_word_ariths)
  show ?thesis
  proof (cases "4 + unat body_len \<le> unat out_capacity")
    case room: True
    from encode_handshake_ok [OF True room assms(2,1)] True room show ?thesis by simp
  next
    case False
    then have "out_capacity < 4 + body_len" by (simp add: word_less_nat_alt sum)
    with False show ?thesis by (simp add: encode_handshake_msg_def)
  qed
qed

theorem encode_handshake_msg_correct_witness:
  "encode_handshake_msg 11 (Some [1, 2]) 2 (Some [0, 0, 0, 0, 0, 0, 9]) 7 (Some 0) =
     Some (0, Some [11, 0, 0, 2, 1, 2, 9], Some 6)"
  using encode_handshake_msg_correct [of 2 "[1, 2]" 7 "[0, 0, 0, 0, 0, 0, 9]" 11 0]
  by (simp add: hs_msg_def hs_header_def be24_def)

text \<open>Two lists of handshake messages with the same bytes on the wire are the same list:
  types, boundaries and bodies can be recovered from the stream in one way only.\<close>

theorem handshake_stream_unique:
  assumes "list_all hs_valid ms" and "list_all hs_valid ms'"
    and "concat (map (\<lambda>(t, b). hs_msg t b) ms) = concat (map (\<lambda>(t, b). hs_msg t b) ms')"
  shows "ms = ms'"
  using assms by (rule hs.concat_inj)

theorem handshake_stream_unique_witness:
  "[(1, [2, 3]), (20, [])] = [(msg_code TLS_MSG_CLIENT_HELLO, [2, 3 :: byte]), (msg_code TLS_MSG_FINISHED, [])]"
  by (rule handshake_stream_unique) (simp_all add: hs_valid_def)

text \<open>C18: the round trip over the socket: a body sent by \<open>send_handshake_msg\<close> is delivered by
  \<open>recv_handshake_msg\<close> of the same type at the other end, whatever the schedules, and what
  follows it in the stream stays there.\<close>

theorem handshake_send_recv:
  assumes "unat n \<le> length b" and "send_handshake_msg t (Some b) n w = Some (0, w')"
    and "io_fine v" and "inbox v = drop (length (outbox w)) (outbox w') @ r"
    and "unat n \<le> unat cap" and "unat cap \<le> length c"
  shows "\<exists>v'. recv_handshake_msg t (Some c) cap (Some l) v =
           Some (0, Some (take (unat n) b @ drop (unat n) c), Some n, v') \<and> inbox v' = r"
proof -
  from assms(2) have le: "n \<le> TLS_HANDSHAKE_MAX_BODY_LEN"
    by (auto simp: send_handshake_msg_def split: if_splits)
  from assms(2) have "outbox w' = outbox w @ hs_msg t (take (unat n) b)"
    unfolding send_handshake_put [OF le] parts_hs_parts [OF assms(1), symmetric]
    by (rule snk.put_all_ok)
  with assms(4) have "inbox v = hs_msg t (take (unat n) b) @ r" by simp
  from recv_handshake_ok [OF assms(3) this _ _ assms(6), of l] assms(1,5) le
  show ?thesis by (auto simp: hs_valid_def min_absorb2 word_le_nat_alt)
qed

theorem handshake_send_recv_witness:
  "\<exists>w' v'. send_handshake_msg 15 (Some [4, 5]) 2 (sample_world []) = Some (0, w') \<and>
     recv_handshake_msg 15 (Some [0, 0, 0]) 3 (Some 0) (sample_world (outbox w')) =
       Some (0, Some [4, 5, 0], Some 2, v')"
proof -
  obtain w' where w': "send_handshake_msg 15 (Some [4, 5]) 2 (sample_world []) = Some (0, w')"
    using send_handshake_fine [OF sample_world_fine, of 2 "[4, 5]" 15 "[]"] by auto
  from handshake_send_recv [OF _ w' sample_world_fine, of "outbox w'" "[]" 3 "[0, 0, 0]" 0] w'
  show ?thesis by (auto simp: sample_world_def)
qed

end
