(* ===== verification/Tls_Transcript.thy ===== *)
theory Tls_Transcript
  imports Tls_Handshake
begin

section \<open>The handshake transcript (\<open>src/tls_transcript.c\<close>)\<close>

text \<open>
  A running SHA-256 over the encoded handshake messages. \<open>tls_transcript\<close> holds the digest
  context (\<open>None\<close> is \<open>NULL\<close>). Its abstraction is the list of byte strings absorbed so far,
  \<open>absorbed\<close>; \<open>transcript_update_handshake_msg\<close> refines "append one message" on it, and
  \<open>transcript_get_hash\<close> finalises a copy, so the transcript goes on afterwards.
\<close>

abbreviation TLS_TRANSCRIPT_HASH_LEN :: size_t where
  "TLS_TRANSCRIPT_HASH_LEN \<equiv> 32"

record 'm tls_transcript =
  ctx :: "'m option"

definition transcript_init ::
  "('c, 'm) lib \<Rightarrow> 'm tls_transcript option \<Rightarrow> world \<Rightarrow> (int \<times> 'm tls_transcript option \<times> world) option"
  where
  "transcript_init L transcript w =
     (if transcript = None then Some (- 1, None, w)
      else do {
        let cleared = \<lparr>ctx = None\<rparr>;
        let (ok, w) = acquire L H_MD_CTX w;
        if \<not> ok then Some (- 1, Some cleared, w)
        else do {
          let (ok, w) = ext_call L w;
          if \<not> ok then do {
            w \<leftarrow> release H_MD_CTX w;
            Some (- 1, Some cleared, w)
          }
          else Some (0, Some (cleared\<lparr>ctx := Some (md_init L)\<rparr>), w)
        }
      })"

definition transcript_update ::
  "('c, 'm) lib \<Rightarrow> 'm tls_transcript option \<Rightarrow> ptr \<Rightarrow> size_t \<Rightarrow> world
     \<Rightarrow> (int \<times> 'm tls_transcript option \<times> world) option" where
  "transcript_update L transcript data data_len w =
     (case transcript of
        None \<Rightarrow> Some (- 1, transcript, w)
      | Some tr \<Rightarrow>
        (case ctx tr of
           None \<Rightarrow> Some (- 1, transcript, w)
         | Some m \<Rightarrow>
             if data_len \<le> 0 then Some (- 1, transcript, w)
             else if data_len > 0 \<and> data = None then Some (- 1, transcript, w)
             else do {
               b \<leftarrow> data;
               d \<leftarrow> rd b 0 (unat data_len);
               let (ok, w) = ext_call L w;
               if \<not> ok then Some (- 1, transcript, w)
               else Some (0, Some (tr\<lparr>ctx := Some (md_update L d m)\<rparr>), w)
             }))"

text \<open>\<open>EVP_DigestFinal_ex\<close>: it writes the digest and its length and uses the context up; when it
  fails, what it left in the output is not documented: arbitrary bytes.\<close>

definition evp_digest_final ::
  "('c, 'm) lib \<Rightarrow> 'm \<Rightarrow> ptr \<Rightarrow> 32 word \<Rightarrow> world \<Rightarrow> (bool \<times> 'm \<times> ptr \<times> 32 word \<times> world) option" where
  "evp_digest_final L c out len w =
     do {
       let (ok, w') = ext_call L w;
       let digest = (if ok then md_final L c else fresh_mem L 32 w);
       b \<leftarrow> out;
       b \<leftarrow> wr b 0 digest;
       Some (ok, md_finalised L c, Some b, if ok then of_nat (length digest) else len, w')
     }"

definition transcript_get_hash ::
  "('c, 'm) lib \<Rightarrow> 'm tls_transcript option \<Rightarrow> ptr \<Rightarrow> size_t \<Rightarrow> size_t option \<Rightarrow> world
     \<Rightarrow> (int \<times> 'm tls_transcript option \<times> ptr \<times> size_t option \<times> world) option" where
  "transcript_get_hash L transcript hash hash_capacity hash_len w =
     (case Option.bind transcript ctx of
        None \<Rightarrow> Some (- 1, transcript, hash, hash_len, w)
      | Some m \<Rightarrow>
          if hash = None \<or> hash_len = None then Some (- 1, transcript, hash, hash_len, w)
          else if hash_capacity < TLS_TRANSCRIPT_HASH_LEN then Some (- 1, transcript, hash, hash_len, w)
          else do {
            let (ok, w) = acquire L H_MD_CTX w;
            if \<not> ok then Some (- 1, transcript, hash, hash_len, w)
            else do {
              let (ok, w) = ext_call L w;
              if \<not> ok then do { w \<leftarrow> release H_MD_CTX w; Some (- 1, transcript, hash, hash_len, w) }
              else do {
                let copy = m;
                (ok, copy, hash, len, w) \<leftarrow> evp_digest_final L copy hash 0 w;
                if \<not> ok then do { w \<leftarrow> release H_MD_CTX w; Some (- 1, transcript, hash, hash_len, w) }
                else do {
                  w \<leftarrow> release H_MD_CTX w;
                  Some (0, transcript, hash, Some (ucast len), w)
                }
              }
            }
          })"

definition transcript_free ::
  "'m tls_transcript option \<Rightarrow> world \<Rightarrow> ('m tls_transcript option \<times> world) option" where
  "transcript_free transcript w =
     (case transcript of
        None \<Rightarrow> Some (None, w)
      | Some tr \<Rightarrow> do {
          w \<leftarrow> (if ctx tr = None then Some w else release H_MD_CTX w);
          Some (Some (tr\<lparr>ctx := None\<rparr>), w)
        })"

definition transcript_update_handshake_msg ::
  "('c, 'm) lib \<Rightarrow> 'm tls_transcript option \<Rightarrow> byte \<Rightarrow> ptr \<Rightarrow> size_t \<Rightarrow> world
     \<Rightarrow> (int \<times> 'm tls_transcript option \<times> world) option" where
  "transcript_update_handshake_msg L transcript msg_type body body_len w =
     (if transcript = None then Some (- 1, transcript, w)
      else if body_len > 0 \<and> body = None then Some (- 1, transcript, w)
      else if body_len > TLS_HANDSHAKE_MAX_BODY_LEN then Some (- 1, transcript, w)
      else do {
        let encoded_capacity = TLS_HANDSHAKE_HEADER_LEN + body_len;
        let encoded_msg = fresh_mem L (unat encoded_capacity) w;
        let (ok, w) = acquire L H_MALLOC w;
        if \<not> ok then Some (- 1, transcript, w)
        else do {
          (rc, encoded, encoded_len) \<leftarrow>
            encode_handshake_msg msg_type body body_len (Some encoded_msg) encoded_capacity (Some 0);
          if rc \<noteq> 0 then do { w \<leftarrow> release H_MALLOC w; Some (- 1, transcript, w) }
          else do {
            len \<leftarrow> encoded_len;
            (rc, transcript, w) \<leftarrow> transcript_update L transcript encoded len w;
            if rc \<noteq> 0 then do { w \<leftarrow> release H_MALLOC w; Some (- 1, transcript, w) }
            else do { w \<leftarrow> release H_MALLOC w; Some (0, transcript, w) }
          }
        }
      })"

subsection \<open>The abstraction\<close>

text \<open>The digest state after absorbing a list of byte strings, and the documented behaviour of
  the digest calls: the result depends only on the concatenation (\<open>EVP_DigestUpdate\<close> "can be
  called several times"), and SHA-256 has 32 bytes.\<close>

definition md_of :: "('c, 'm) lib \<Rightarrow> bytes list \<Rightarrow> 'm" where
  "md_of L ds = foldl (\<lambda>m d. md_update L d m) (md_init L) ds"

definition absorbed :: "('c, 'm) lib \<Rightarrow> 'm tls_transcript \<Rightarrow> bytes list \<Rightarrow> bool" where
  "absorbed L tr ds \<longleftrightarrow> ctx tr = Some (md_of L ds)"

lemma md_of_snoc [simp]: "md_of L (ds @ [d]) = md_update L d (md_of L ds)"
  by (simp add: md_of_def)

definition md_correct :: "('c, 'm) lib \<Rightarrow> (bytes \<Rightarrow> bytes) \<Rightarrow> bool" where
  "md_correct L sha256 \<longleftrightarrow>
     (\<forall>ds. md_final L (md_of L ds) = sha256 (concat ds)) \<and> (\<forall>x. length (sha256 x) = 32)"

text \<open>Two inputs a hash function does not tell apart.\<close>

definition collision :: "('a \<Rightarrow> 'b) \<Rightarrow> 'a \<Rightarrow> 'a \<Rightarrow> bool" where
  "collision f x y \<longleftrightarrow> x \<noteq> y \<and> f x = f y"

subsection \<open>What the operations do\<close>

text \<open>Each contract covers every path, with every library call failing or not: the world is
  left with exactly the handles it had, and a failed call leaves the transcript as it was.\<close>

lemma transcript_update_spec:
  assumes "absorbed L tr ds" and "data_len \<noteq> 0" and "unat data_len \<le> length b"
  shows "\<exists>rc tr' w'. transcript_update L (Some tr) (Some b) data_len w = Some (rc, Some tr', w') \<and>
     lib_only w w' \<and>
     (rc = 0 \<and> absorbed L tr' (ds @ [take (unat data_len) b]) \<or>
      rc = - 1 \<and> tr' = tr \<and> \<not> lib_up L)"
  using assms
  by (auto simp: transcript_update_def absorbed_def env_simps rd_def Let_def lib_up_def)

lemma transcript_update_handshake_msg_spec:
  assumes "absorbed L tr ds" and "unat n \<le> length b"
  shows "\<exists>rc tr' w'. transcript_update_handshake_msg L (Some tr) t (Some b) n w = Some (rc, Some tr', w') \<and>
     lib_only w w' \<and>
     (rc = 0 \<and> unat n \<le> 0xFFFFFF \<and> absorbed L tr' (ds @ [hs_msg t (take (unat n) b)]) \<or>
      rc = - 1 \<and> tr' = tr \<and> (\<not> lib_up L \<or> 0xFFFFFF < unat n))"
proof (cases "unat n \<le> 0xFFFFFF \<and> call_ok L (lib_calls w)")
  case False
  then show ?thesis
    by (auto simp: transcript_update_handshake_msg_def env_simps Let_def word_less_nat_alt lib_up_def)
next
  case True
  have sum: "unat (4 + n) = 4 + unat n" using True by (simp add: unat_word_ariths)
  let ?m = "hs_msg t (take (unat n) b)"
  define w1 where "w1 = w\<lparr>lib_calls := Suc (lib_calls w), live := (live w)(H_MALLOC := Suc (live w H_MALLOC))\<rparr>"
  have enc: "encode_handshake_msg t (Some b) n (Some (fresh_mem L (unat (4 + n)) w)) (4 + n) (Some 0) = Some (0, Some ?m, Some (4 + n))"
    using encode_handshake_ok [of n "4 + n" "fresh_mem L (unat (4 + n)) w" b t 0] True assms(2) sum by simp
  have "(4 + n :: size_t) \<noteq> 0" using sum by (metis add_is_0 unsigned_0 zero_neq_numeral)
  moreover have lm: "length ?m = unat (4 + n)" using assms(2) sum by (simp add: min_absorb2)
  ultimately obtain rc tr' w2 where up: "transcript_update L (Some tr) (Some ?m) (4 + n) w1 = Some (rc, Some tr', w2)"
     "lib_only w1 w2" "rc = 0 \<and> absorbed L tr' (ds @ [?m]) \<or> rc = - 1 \<and> tr' = tr \<and> \<not> lib_up L"
    using transcript_update_spec [OF assms(1), of "4 + n" ?m w1] by auto
  have "transcript_update_handshake_msg L (Some tr) t (Some b) n w = 
      do { w \<leftarrow> release H_MALLOC w2; Some (if rc = 0 then 0 else - 1, Some tr', w) }"
    using True enc up(1) 
    by (simp add: transcript_update_handshake_msg_def acquire_def w1_def Let_def word_less_nat_alt)
  moreover have "release H_MALLOC w2 = Some (w\<lparr>lib_calls := lib_calls w2\<rparr>)"
    using up(2) by (auto simp: release_def w1_def lib_only_def)
  ultimately show ?thesis using up(3) True by auto
qed

lemma transcript_get_hash_spec:
  assumes "ctx tr = Some m" and "length (md_final L m) \<le> length h" and "32 \<le> length h" and "32 \<le> unat cap"
  shows "\<exists>rc h' l' w'. transcript_get_hash L (Some tr) (Some h) cap (Some l) w =
       Some (rc, Some tr, Some h', Some l', w') \<and> lib_only w w' \<and>
     (rc = 0 \<and> h' = md_final L m @ drop (length (md_final L m)) h \<and>
      l' = ucast (of_nat (length (md_final L m)) :: 32 word) \<or>
      rc = - 1 \<and> length h' = length h \<and> drop 32 h' = drop 32 h \<and> l' = l \<and> \<not> lib_up L)"
  using assms
  by (auto simp: transcript_get_hash_def evp_digest_final_def env_simps Let_def wr_def word_less_nat_alt lib_up_def)

lemma transcript_init_spec:
  "\<exists>rc tr' w'. transcript_init L (Some tr) w = Some (rc, Some tr', w') \<and>
     (rc = 0 \<and> absorbed L tr' [] \<and>
        w' = w\<lparr>lib_calls := lib_calls w', live := (live w)(H_MD_CTX := Suc (live w H_MD_CTX))\<rparr> \<or>
      rc = - 1 \<and> ctx tr' = None \<and> lib_only w w' \<and> \<not> lib_up L)"
  by (auto simp: transcript_init_def absorbed_def md_of_def env_simps Let_def lib_up_def)

lemma absorbed_hash:
  "md_correct L sha256 \<Longrightarrow> absorbed L tr ds \<Longrightarrow>
     \<exists>m. ctx tr = Some m \<and> md_final L m = sha256 (concat ds) \<and> length (md_final L m) = 32"
  by (auto simp: md_correct_def absorbed_def)

lemma transcript_get_hash_sha:
  assumes "md_correct L sha256" and "absorbed L tr ds" and "32 \<le> length h" and "32 \<le> unat cap"
  shows "\<exists>rc h' l' w'. transcript_get_hash L (Some tr) (Some h) cap (Some l) w =
       Some (rc, Some tr, Some h', Some l', w') \<and> lib_only w w' \<and>
     (rc = 0 \<and> h' = sha256 (concat ds) @ drop 32 h \<and> l' = 32 \<or>
      rc = - 1 \<and> length h' = length h \<and> drop 32 h' = drop 32 h \<and> l' = l \<and> \<not> lib_up L)"
proof -
  from absorbed_hash [OF assms(1,2)] obtain m where m: "ctx tr = Some m"
    "md_final L m = sha256 (concat ds)" "length (md_final L m) = 32" by blast
  from transcript_get_hash_spec [of tr m L h cap l w] m assms(3,4) show ?thesis by auto
qed

subsection \<open>Properties\<close>

text \<open>C23: \<open>transcript_update_handshake_msg\<close> refines appending one encoded message to the absorbed
  data: on success exactly the bytes \<open>send_handshake_msg\<close> puts on the wire for the same
  message were absorbed, on any failure (too long a body, no memory, a failed digest call) the
  transcript is unchanged; on every path it returns and its temporary buffer is freed once.\<close>

theorem transcript_update_handshake_msg_refines:
  assumes "absorbed L tr ds" and "unat body_len \<le> length b"
  shows "\<exists>rc tr' w'.
     transcript_update_handshake_msg L (Some tr) t (Some b) body_len w = Some (rc, Some tr', w') \<and>
     live w' = live w \<and>
     (rc = 0 \<and> absorbed L tr' (ds @ [hs_msg t (take (unat body_len) b)]) \<or> rc = - 1 \<and> tr' = tr)"
  using transcript_update_handshake_msg_spec [OF assms, of t w] lib_only_frame(1) by blast

theorem transcript_update_handshake_msg_refines_witness:
  "\<exists>rc tr' w'. transcript_update_handshake_msg sample_lib (Some \<lparr>ctx = Some [1, 2]\<rparr>) 2 (Some [7, 8, 9]) 2
       (sample_world []) = Some (rc, Some tr', w') \<and> live w' = live (sample_world []) \<and>
     (rc = 0 \<and> absorbed sample_lib tr' ([[1, 2]] @ [[2, 0, 0, 2, 7, 8]]) \<or>
      rc = - 1 \<and> tr' = \<lparr>ctx = Some [1, 2]\<rparr>)"
proof -
  have "absorbed sample_lib \<lparr>ctx = Some [1, 2]\<rparr> [[1, 2]]"
    by (simp add: absorbed_def md_of_def sample_lib_def)
  from transcript_update_handshake_msg_refines [OF this, of 2 "[7, 8, 9]" 2 "sample_world []"]
  show ?thesis by (simp add: hs_msg_def hs_header_def be24_def)
qed

text \<open>C24: \<open>transcript_get_hash\<close> returns the SHA-256 of everything absorbed so far, 32 bytes at the
  front of the caller's buffer and the length 32, or fails, leaving the length and everything
  after those 32 bytes alone. On every path the copy it finalises is freed, and the transcript
  it leaves has absorbed the same data as before: the finalisation, which uses its context up, hit
  the copy, so a later update or hash continues as if this one had not been asked for.\<close>

theorem transcript_get_hash_correct:
  assumes "md_correct L sha256" and "absorbed L tr ds" and "32 \<le> length h" and "32 \<le> unat cap"
  shows "\<exists>rc tr' h' l' w'. transcript_get_hash L (Some tr) (Some h) cap (Some l) w =
       Some (rc, Some tr', Some h', Some l', w') \<and> live w' = live w \<and> absorbed L tr' ds \<and>
     (rc = 0 \<and> h' = sha256 (concat ds) @ drop 32 h \<and> l' = 32 \<or>
      rc = - 1 \<and> length h' = length h \<and> drop 32 h' = drop 32 h \<and> l' = l)"
  using transcript_get_hash_sha [OF assms, of l w] assms(2) lib_only_frame(1) by blast

lemma sample_md_correct: "md_correct sample_lib (pad 32)"
proof -
  have "foldl (\<lambda>m d. m @ d) acc ds = acc @ concat ds" for acc and ds :: "bytes list"
    by (induction ds arbitrary: acc) simp_all
  then show ?thesis by (simp add: md_correct_def md_of_def sample_lib_def)
qed

theorem transcript_get_hash_correct_witness:
  "\<exists>rc tr' h' l' w'. transcript_get_hash sample_lib (Some \<lparr>ctx = Some [1, 2, 3]\<rparr>)
       (Some (replicate 33 9)) 33 (Some 0) (sample_world []) = Some (rc, Some tr', Some h', Some l', w') \<and>
     live w' = live (sample_world []) \<and> absorbed sample_lib tr' [[1], [2, 3]] \<and>
     (rc = 0 \<and> h' = pad 32 [1, 2, 3] @ [9] \<and> l' = 32 \<or>
      rc = - 1 \<and> length h' = 33 \<and> drop 32 h' = [9] \<and> l' = 0)"
proof -
  have "absorbed sample_lib \<lparr>ctx = Some [1, 2, 3]\<rparr> [[1], [2, 3]]"
    by (simp add: absorbed_def md_of_def sample_lib_def)
  from transcript_get_hash_correct [OF sample_md_correct this, of "replicate 33 9" 33 0 "sample_world []"]
  show ?thesis by simp
qed

text \<open>The life cycle is balanced: whatever fails in \<open>transcript_init\<close>, \<open>transcript_free\<close>
  afterwards returns and leaves exactly the handles there were before; a second
  \<open>transcript_free\<close> is harmless, because the first one cleared the pointer.\<close>

theorem transcript_lifecycle:
  "\<exists>rc tr w1 tr' w2. transcript_init L (Some tr0) w = Some (rc, Some tr, w1) \<and>
     transcript_free (Some tr) w1 = Some (Some tr', w2) \<and> lib_only w w2 \<and>
     transcript_free (Some tr') w2 = Some (Some tr', w2)"
  by (auto simp: transcript_init_def transcript_free_def env_simps Let_def)

text \<open>Two endpoints whose transcripts have the same hash have absorbed the same handshake
  messages, types, boundaries and bodies, or else their two transcripts are a collision of
  SHA-256: nothing is lost between the messages and the hashed bytes.\<close>

theorem equal_hashes_equal_messages:
  assumes "md_correct L sha256"
    and "absorbed L tr (map (\<lambda>(t, b). hs_msg t b) ms)" and "list_all hs_valid ms"
    and "absorbed L tr' (map (\<lambda>(t, b). hs_msg t b) ms')" and "list_all hs_valid ms'"
    and "map_option (md_final L) (ctx tr) = map_option (md_final L) (ctx tr')"
  shows "ms = ms' \<or>
     collision sha256 (concat (map (\<lambda>(t, b). hs_msg t b) ms)) (concat (map (\<lambda>(t, b). hs_msg t b) ms'))"
proof -
  let ?c = "\<lambda>ms. concat (map (\<lambda>(t, b). hs_msg t b) ms)"
  have "sha256 (?c ms) = sha256 (?c ms')"
    using absorbed_hash [OF assms(1,2)] absorbed_hash [OF assms(1,4)] assms(6) by auto
  moreover have "?c ms = ?c ms' \<Longrightarrow> ms = ms'" using assms(3,5) by (rule hs.concat_inj)
  ultimately show ?thesis by (auto simp: collision_def)
qed

theorem equal_hashes_equal_messages_witness:
  "[(2, [7 :: byte])] = [(msg_code TLS_MSG_SERVER_HELLO, [7])] \<or>
     collision (pad 32) (concat (map (\<lambda>(t, b). hs_msg t b) [(2, [7])]))
       (concat (map (\<lambda>(t, b). hs_msg t b) [(msg_code TLS_MSG_SERVER_HELLO, [7])]))"
proof (rule equal_hashes_equal_messages
    [OF sample_md_correct, of "\<lparr>ctx = Some [2, 0, 0, 1, 7]\<rparr>" _ "\<lparr>ctx = Some [2, 0, 0, 1, 7]\<rparr>"])
qed (simp_all add: absorbed_def md_of_def sample_lib_def hs_msg_def hs_header_def be24_def hs_valid_def)

end
