(* ===== verification/Tls_Key_Schedule.thy ===== *)
theory Tls_Key_Schedule
  imports Kdf Tls_Transcript
begin

section \<open>The application key schedule (\<open>src/tls_key_schedule.c\<close>)\<close>

text \<open>
  \<open>derive_application_keys\<close> derives a key and an IV for each direction by HKDF from the shared
  secret, salted with the hash of the whole handshake, under four labels. If any derivation
  fails the whole structure is cleared.
\<close>

abbreviation TLS_CLIENT_KEY_LABEL :: string where
  "TLS_CLIENT_KEY_LABEL \<equiv> ''pqc tls demo client application key''"
abbreviation TLS_SERVER_KEY_LABEL :: string where
  "TLS_SERVER_KEY_LABEL \<equiv> ''pqc tls demo server application key''"
abbreviation TLS_CLIENT_IV_LABEL :: string where
  "TLS_CLIENT_IV_LABEL \<equiv> ''pqc tls demo client application iv''"
abbreviation TLS_SERVER_IV_LABEL :: string where
  "TLS_SERVER_IV_LABEL \<equiv> ''pqc tls demo server application iv''"

abbreviation TLS_APPLICATION_KEY_LEN :: size_t where
  "TLS_APPLICATION_KEY_LEN \<equiv> 32"
abbreviation TLS_APPLICATION_IV_LEN :: size_t where
  "TLS_APPLICATION_IV_LEN \<equiv> 12"

record tls_application_keys =
  client_key :: bytes
  server_key :: bytes
  client_iv :: bytes
  server_iv :: bytes

text \<open>\<open>memset(keys, 0, sizeof(*keys))\<close>, and what \<open>OPENSSL_cleanse\<close> leaves.\<close>

definition zero_keys :: tls_application_keys where
  "zero_keys = \<lparr>client_key = replicate 32 0, server_key = replicate 32 0,
     client_iv = replicate 12 0, server_iv = replicate 12 0\<rparr>"

subsection \<open>Operations\<close>

definition hkdf_derive_label ::
  "('c, 'm) lib \<Rightarrow> ptr \<Rightarrow> size_t \<Rightarrow> ptr \<Rightarrow> size_t \<Rightarrow> string option \<Rightarrow> ptr \<Rightarrow> size_t \<Rightarrow> world
     \<Rightarrow> (int \<times> ptr \<times> world) option" where
  "hkdf_derive_label L secret secret_len salt salt_len label out out_len w =
     (if secret = None \<or> secret_len = 0 \<or> salt = None \<or> salt_len = 0 \<or> label = None \<or>
         out = None \<or> out_len = 0
      then Some (- 1, out, w)
      else do {
        let (kdf, w) = acquire L H_KDF w;
        let (ctx, w) = (if kdf then acquire L H_KDF_CTX w else (False, w));
        (result, out, w) \<leftarrow>
          (if ctx then do {
             s \<leftarrow> secret;
             key \<leftarrow> rd s 0 (unat secret_len);
             l \<leftarrow> label;
             t \<leftarrow> salt;
             salt_bytes \<leftarrow> rd t 0 (unat salt_len);
             let params = [P_DIGEST ''SHA256'', P_KEY key, P_INFO (cstr l), P_SALT salt_bytes];
             (ok, out, w) \<leftarrow> evp_kdf_derive L params out out_len w;
             Some (if ok then 0 else - 1, out, w)
           }
           else Some (- 1, out, w));
        w \<leftarrow> free_if ctx H_KDF_CTX w;
        w \<leftarrow> free_if kdf H_KDF w;
        Some (result, out, w)
      })"

definition derive_application_keys ::
  "('c, 'm) lib \<Rightarrow> ptr \<Rightarrow> size_t \<Rightarrow> ptr \<Rightarrow> size_t \<Rightarrow> tls_application_keys option \<Rightarrow> world
     \<Rightarrow> (int \<times> tls_application_keys option \<times> world) option" where
  "derive_application_keys L shared_secret shared_secret_len transcript_hash transcript_hash_len keys w =
     (if shared_secret = None \<or> shared_secret_len = 0 \<or> transcript_hash = None \<or>
         transcript_hash_len = 0 \<or> keys = None
      then Some (- 1, keys, w)
      else do {
        let keys = zero_keys;
        (rc, k, w) \<leftarrow> hkdf_derive_label L shared_secret shared_secret_len transcript_hash
           transcript_hash_len (Some TLS_CLIENT_KEY_LABEL) (Some (client_key keys)) TLS_APPLICATION_KEY_LEN w;
        k \<leftarrow> k;
        let keys = keys\<lparr>client_key := k\<rparr>;
        if rc \<noteq> 0 then Some (- 1, Some zero_keys, w)
        else do {
          (rc, k, w) \<leftarrow> hkdf_derive_label L shared_secret shared_secret_len transcript_hash
             transcript_hash_len (Some TLS_SERVER_KEY_LABEL) (Some (server_key keys)) TLS_APPLICATION_KEY_LEN w;
          k \<leftarrow> k;
          let keys = keys\<lparr>server_key := k\<rparr>;
          if rc \<noteq> 0 then Some (- 1, Some zero_keys, w)
          else do {
            (rc, k, w) \<leftarrow> hkdf_derive_label L shared_secret shared_secret_len transcript_hash
               transcript_hash_len (Some TLS_CLIENT_IV_LABEL) (Some (client_iv keys)) TLS_APPLICATION_IV_LEN w;
            k \<leftarrow> k;
            let keys = keys\<lparr>client_iv := k\<rparr>;
            if rc \<noteq> 0 then Some (- 1, Some zero_keys, w)
            else do {
              (rc, k, w) \<leftarrow> hkdf_derive_label L shared_secret shared_secret_len transcript_hash
                 transcript_hash_len (Some TLS_SERVER_IV_LABEL) (Some (server_iv keys)) TLS_APPLICATION_IV_LEN w;
              k \<leftarrow> k;
              let keys = keys\<lparr>server_iv := k\<rparr>;
              if rc \<noteq> 0 then Some (- 1, Some zero_keys, w)
              else Some (0, Some keys, w)
            }
          }
        }
      })"

subsection \<open>The derivation contract\<close>

text \<open>The parameters of one labelled derivation, and the keys as a function of the inputs.\<close>

definition label_params :: "bytes \<Rightarrow> bytes \<Rightarrow> string \<Rightarrow> kdf_param list" where
  "label_params secret salt label =
     [P_DIGEST ''SHA256'', P_KEY secret, P_INFO (cstr label), P_SALT salt]"

definition app_keys :: "('c, 'm) lib \<Rightarrow> bytes \<Rightarrow> bytes \<Rightarrow> tls_application_keys" where
  "app_keys L secret th = \<lparr>
     client_key = kdf_derive L (label_params secret th TLS_CLIENT_KEY_LABEL) 32,
     server_key = kdf_derive L (label_params secret th TLS_SERVER_KEY_LABEL) 32,
     client_iv = kdf_derive L (label_params secret th TLS_CLIENT_IV_LABEL) 12,
     server_iv = kdf_derive L (label_params secret th TLS_SERVER_IV_LABEL) 12\<rparr>"

interpretation label_kdf: key_derivation
  "\<lambda>L ((s, n), (t, k), l) out m w. hkdf_derive_label L (Some s) n (Some t) k (Some l) out m w"
  "\<lambda>((s, n), (t, k), l). label_params (take (unat n) s) (take (unat k) t) l"
  "\<lambda>((s, n), (t, k), l). n \<noteq> 0 \<and> unat n \<le> length s \<and> k \<noteq> 0 \<and> unat k \<le> length t"
proof (unfold_locales, goal_cases)
  case (1 L a n b w)
  obtain s sn t tn l where a: "a = ((s, sn), (t, tn), l)" by (metis prod.exhaust)
  with 1 show ?case
    by (auto simp: hkdf_derive_label_def evp_kdf_derive_def env_simps Let_def rd_def wr_def
        kdf_correct_len lib_up_def label_params_def split: if_splits)
qed

lemma label_derive:
  assumes "kdf_correct L" and "n \<noteq> 0" and "unat n \<le> length s" and "k \<noteq> 0" and "unat k \<le> length t"
    and "m \<noteq> 0" and "length b = unat m"
  shows "\<exists>rc d w'. hkdf_derive_label L (Some s) n (Some t) k (Some l) (Some b) m w = Some (rc, Some d, w') \<and> lib_only w w' \<and>
     length d = unat m \<and>
     (rc = 0 \<and> d = kdf_derive L (label_params (take (unat n) s) (take (unat k) t) l) (unat m) \<or> rc = - 1 \<and> \<not> lib_up L)"
  using label_kdf.derive_exact [of L "((s, n), (t, k), l)" m b w] assms by simp

lemma derive_application_keys_spec:
  assumes "kdf_correct L" and "n \<noteq> 0" and "unat n \<le> length s" and "k \<noteq> 0" and "unat k \<le> length t"
  shows "\<exists>rc ks w'. derive_application_keys L (Some s) n (Some t) k (Some ks0) w = Some (rc, Some ks, w') \<and>
     lib_only w w' \<and>
     (rc = 0 \<and> ks = app_keys L (take (unat n) s) (take (unat k) t) \<or>
      rc = - 1 \<and> ks = zero_keys \<and> \<not> lib_up L)"
proof -
  note D = label_derive [OF assms]
  obtain r1 d1 w1 where 1: "hkdf_derive_label L (Some s) n (Some t) k (Some TLS_CLIENT_KEY_LABEL) (Some (replicate 32 0)) 32 w = Some (r1, Some d1, w1)"
    "lib_only w w1" "r1 = 0 \<and> d1 = kdf_derive L (label_params (take (unat n) s) (take (unat k) t) TLS_CLIENT_KEY_LABEL) 32 \<or> r1 = - 1 \<and> \<not> lib_up L"
    using D [of 32 "replicate 32 0" TLS_CLIENT_KEY_LABEL w] by auto
  obtain r2 d2 w2 where 2: "hkdf_derive_label L (Some s) n (Some t) k (Some TLS_SERVER_KEY_LABEL) (Some (replicate 32 0)) 32 w1 = Some (r2, Some d2, w2)"
    "lib_only w1 w2" "r2 = 0 \<and> d2 = kdf_derive L (label_params (take (unat n) s) (take (unat k) t) TLS_SERVER_KEY_LABEL) 32 \<or> r2 = - 1 \<and> \<not> lib_up L"
    using D [of 32 "replicate 32 0" TLS_SERVER_KEY_LABEL w1] by auto
  obtain r3 d3 w3 where 3: "hkdf_derive_label L (Some s) n (Some t) k (Some TLS_CLIENT_IV_LABEL) (Some (replicate 12 0)) 12 w2 = Some (r3, Some d3, w3)"
    "lib_only w2 w3" "r3 = 0 \<and> d3 = kdf_derive L (label_params (take (unat n) s) (take (unat k) t) TLS_CLIENT_IV_LABEL) 12 \<or> r3 = - 1 \<and> \<not> lib_up L"
    using D [of 12 "replicate 12 0" TLS_CLIENT_IV_LABEL w2] by auto
  obtain r4 d4 w4 where 4: "hkdf_derive_label L (Some s) n (Some t) k (Some TLS_SERVER_IV_LABEL) (Some (replicate 12 0)) 12 w3 = Some (r4, Some d4, w4)"
    "lib_only w3 w4" "r4 = 0 \<and> d4 = kdf_derive L (label_params (take (unat n) s) (take (unat k) t) TLS_SERVER_IV_LABEL) 12 \<or> r4 = - 1 \<and> \<not> lib_up L"
    using D [of 12 "replicate 12 0" TLS_SERVER_IV_LABEL w3] by auto
  have trans: "lib_only w w2" "lib_only w w3" "lib_only w w4"
    using 1(2) 2(2) 3(2) 4(2) lib_only_trans by blast+
  have eq: "derive_application_keys L (Some s) n (Some t) k (Some ks0) w =
     (if r1 \<noteq> 0 then Some (- 1, Some zero_keys, w1) else if r2 \<noteq> 0 then Some (- 1, Some zero_keys, w2)
      else if r3 \<noteq> 0 then Some (- 1, Some zero_keys, w3) else if r4 \<noteq> 0 then Some (- 1, Some zero_keys, w4)
      else Some (0, Some \<lparr>client_key = d1, server_key = d2, client_iv = d3, server_iv = d4\<rparr>, w4))"
    using assms(2,4) by (simp add: derive_application_keys_def zero_keys_def 1(1) 2(1) 3(1) 4(1))
  show ?thesis unfolding eq app_keys_def using 1(2,3) 2(3) 3(3) 4(3) trans by (simp split: if_splits) fastforce
qed

subsection \<open>Properties\<close>

text \<open>C25: \<open>derive_application_keys\<close> on valid inputs always returns and frees every handle it
  acquired; it returns 0 exactly when all four derivations succeeded, with the four HKDF
  outputs, salted with the transcript hash; if any of them failed it returns -1 and the caller's
  structure is all zero: no partial key survives.\<close>

theorem derive_application_keys_correct:
  assumes "kdf_correct L" and "n \<noteq> 0" and "unat n \<le> length secret"
    and "k \<noteq> 0" and "unat k \<le> length hash"
  shows "\<exists>rc keys w'. derive_application_keys L (Some secret) n (Some hash) k (Some keys0) w =
       Some (rc, Some keys, w') \<and> live w' = live w \<and>
     (rc = 0 \<and> keys = app_keys L (take (unat n) secret) (take (unat k) hash) \<or>
      rc = - 1 \<and> keys = zero_keys)"
  using derive_application_keys_spec [OF assms, of keys0 w] lib_only_frame(1) by blast

theorem derive_application_keys_correct_witness:
  "\<exists>rc keys w'. derive_application_keys (failing_lib 7) (Some [1, 2]) 2 (Some [3]) 1 (Some zero_keys)
       (sample_world []) = Some (rc, Some keys, w') \<and> live w' = live (sample_world []) \<and>
     (rc = 0 \<and> keys = app_keys (failing_lib 7) [1, 2] [3] \<or> rc = - 1 \<and> keys = zero_keys)"
  using derive_application_keys_correct [OF failing_kdf_correct, of 2 "[1, 2]" 1 "[3]" 7 zero_keys "sample_world []"]
  by simp

text \<open>The two directions do not share key material unless HKDF collides: the labels make the
  derivation parameters of client and server different, for the keys and for the IVs.\<close>

theorem application_keys_separated:
  assumes "kdf_correct L" and "n \<noteq> 0" and "unat n \<le> length secret"
    and "k \<noteq> 0" and "unat k \<le> length hash"
    and "derive_application_keys L (Some secret) n (Some hash) k (Some keys0) w = Some (0, Some keys, w')"
    and "client_key keys = server_key keys \<or> client_iv keys = server_iv keys"
  shows "\<exists>len \<in> {32, 12}. \<exists>a b. {a, b} \<subseteq> {TLS_CLIENT_KEY_LABEL, TLS_SERVER_KEY_LABEL,
      TLS_CLIENT_IV_LABEL, TLS_SERVER_IV_LABEL} \<and>
     collision (\<lambda>ps. kdf_derive L ps len)
       (label_params (take (unat n) secret) (take (unat k) hash) a)
       (label_params (take (unat n) secret) (take (unat k) hash) b)"
proof -
  from derive_application_keys_spec [OF assms(1-5), of keys0 w] assms(6)
  have keys: "keys = app_keys L (take (unat n) secret) (take (unat k) hash)" by auto
  have ne: "cstr TLS_CLIENT_KEY_LABEL \<noteq> cstr TLS_SERVER_KEY_LABEL"
    "cstr TLS_CLIENT_IV_LABEL \<noteq> cstr TLS_SERVER_IV_LABEL"
    by (simp_all add: cstr_def)
  from assms(7) show ?thesis
  proof
    assume "client_key keys = server_key keys"
    with ne show ?thesis
      by (intro bexI [of _ 32] exI [of _ TLS_CLIENT_KEY_LABEL] exI [of _ TLS_SERVER_KEY_LABEL])
        (simp_all add: keys app_keys_def collision_def label_params_def)
  next
    assume "client_iv keys = server_iv keys"
    with ne show ?thesis
      by (intro bexI [of _ 12] exI [of _ TLS_CLIENT_IV_LABEL] exI [of _ TLS_SERVER_IV_LABEL])
        (simp_all add: keys app_keys_def collision_def label_params_def)
  qed
qed

theorem application_keys_separated_witness:
  "\<exists>len \<in> {32, 12}. \<exists>a b. {a, b} \<subseteq> {TLS_CLIENT_KEY_LABEL, TLS_SERVER_KEY_LABEL,
      TLS_CLIENT_IV_LABEL, TLS_SERVER_IV_LABEL} \<and>
     collision (\<lambda>ps. kdf_derive (sample_lib\<lparr>kdf_derive := \<lambda>ps n. replicate n 1\<rparr>) ps len)
       (label_params [1, 2] [3] a) (label_params [1, 2] [3] b)"
proof -
  let ?L = "sample_lib\<lparr>kdf_derive := \<lambda>ps n. replicate n 1\<rparr>"
  have L: "kdf_correct ?L" "lib_up ?L"
    by (simp_all add: kdf_correct_def lib_up_def sample_lib_def)
  obtain w' where "derive_application_keys ?L (Some [1, 2]) 2 (Some [3]) 1 (Some zero_keys) (sample_world []) =
      Some (0, Some (app_keys ?L [1, 2] [3]), w')"
    using derive_application_keys_spec [OF L(1), of 2 "[1, 2]" 1 "[3]" zero_keys "sample_world []"] L(2)
    by auto
  from application_keys_separated [OF L(1) _ _ _ _ this] show ?thesis
    by (simp add: app_keys_def)
qed

end
