(* ===== verification/Tls_Finished.thy ===== *)
theory Tls_Finished
  imports Kdf Tls_Transcript
begin

section \<open>Finished messages (\<open>src/tls_finished.c\<close>)\<close>

text \<open>
  The verify data of a Finished message is the HMAC-SHA256 of the transcript hash under a key
  derived by HKDF (without salt) from the shared secret and the sender's label. Besides the
  result, \<open>compute_finished_verify_data\<close> of the model returns what its local array
  \<open>finished_key\<close> holds when the function returns, since the code cleanses it.
\<close>

abbreviation TLS_FINISHED_VERIFY_DATA_LEN :: size_t where
  "TLS_FINISHED_VERIFY_DATA_LEN \<equiv> 32"
abbreviation TLS_FINISHED_KEY_LEN :: size_t where
  "TLS_FINISHED_KEY_LEN \<equiv> 32"
abbreviation TLS_SERVER_FINISHED_LABEL :: string where
  "TLS_SERVER_FINISHED_LABEL \<equiv> ''Server Finished Key''"
abbreviation TLS_CLIENT_FINISHED_LABEL :: string where
  "TLS_CLIENT_FINISHED_LABEL \<equiv> ''Client Finished Key''"

definition derive_finished_key ::
  "('c, 'm) lib \<Rightarrow> ptr \<Rightarrow> size_t \<Rightarrow> string option \<Rightarrow> ptr \<Rightarrow> size_t \<Rightarrow> world
     \<Rightarrow> (int \<times> ptr \<times> world) option" where
  "derive_finished_key L shared_secret shared_secret_len label finished_key finished_key_len w =
     (if shared_secret = None \<or> label = None \<or> finished_key = None
      then Some (- 1, finished_key, w)
      else do {
        let (kdf, w) = acquire L H_KDF w;
        let (kctx, w) = (if kdf then acquire L H_KDF_CTX w else (False, w));
        (ret, finished_key, w) \<leftarrow>
          (if kctx then do {
             s \<leftarrow> shared_secret;
             key \<leftarrow> rd s 0 (unat shared_secret_len);
             l \<leftarrow> label;
             let params = [P_DIGEST ''SHA256'', P_KEY key, P_INFO (cstr l)];
             (ok, finished_key, w) \<leftarrow> evp_kdf_derive L params finished_key finished_key_len w;
             Some (if ok then 0 else - 1, finished_key, w)
           }
           else Some (- 1, finished_key, w));
        w \<leftarrow> free_if kctx H_KDF_CTX w;
        w \<leftarrow> free_if kdf H_KDF w;
        Some (ret, finished_key, w)
      })"

text \<open>\<open>HMAC\<close> with SHA-256 into the block \<open>out\<close>; what a call that fails (returns \<open>NULL\<close>) left in
  its output is not documented: arbitrary bytes.\<close>

definition hmac_call ::
  "('c, 'm) lib \<Rightarrow> bytes \<Rightarrow> bytes \<Rightarrow> bytes \<Rightarrow> world \<Rightarrow> (bool \<times> bytes \<times> bytes \<times> world) option" where
  "hmac_call L key d out w =
     do {
       let (ok, w') = ext_call L w;
       let mac = (if ok then hmac_sha256 L key d else fresh_mem L 32 w);
       out \<leftarrow> wr out 0 mac;
       Some (ok, mac, out, w')
     }"

definition compute_finished_verify_data ::
  "('c, 'm) lib \<Rightarrow> ptr \<Rightarrow> size_t \<Rightarrow> string option \<Rightarrow> ptr \<Rightarrow> size_t \<Rightarrow> ptr \<Rightarrow> size_t \<Rightarrow> world
     \<Rightarrow> (int \<times> ptr \<times> bytes \<times> world) option" where
  "compute_finished_verify_data L shared_secret shared_secret_len label
       transcript_hash transcript_hash_len verify_data verify_data_len w =
     (let finished_key = local_array 32 in
      if shared_secret = None \<or> label = None \<or> transcript_hash = None \<or> verify_data = None
      then Some (- 1, verify_data, finished_key, w)
      else if verify_data_len < TLS_FINISHED_VERIFY_DATA_LEN
      then Some (- 1, verify_data, finished_key, w)
      else do {
        (rc, fk, w) \<leftarrow> derive_finished_key L shared_secret shared_secret_len label
           (Some finished_key) TLS_FINISHED_KEY_LEN w;
        finished_key \<leftarrow> fk;
        if rc \<noteq> 0 then Some (- 1, verify_data, finished_key, w)
        else do {
          th \<leftarrow> transcript_hash;
          d \<leftarrow> rd th 0 (unat transcript_hash_len);
          vd \<leftarrow> verify_data;
          (ok, mac, vd, w) \<leftarrow> hmac_call L finished_key d vd w;
          if \<not> ok then Some (- 1, Some vd, finished_key, w)
          else do {
            let hmac_len = (of_nat (length mac) :: 32 word);
            let finished_key = replicate (length finished_key) 0;
            if hmac_len \<noteq> 32 then Some (- 1, Some vd, finished_key, w)
            else Some (0, Some vd, finished_key, w)
          }
        }
      })"

subsection \<open>What the operations do\<close>

definition finished_params :: "bytes \<Rightarrow> string \<Rightarrow> kdf_param list" where
  "finished_params secret label = [P_DIGEST ''SHA256'', P_KEY secret, P_INFO (cstr label)]"

definition finished_mac :: "('c, 'm) lib \<Rightarrow> bytes \<Rightarrow> string \<Rightarrow> bytes \<Rightarrow> bytes" where
  "finished_mac L secret label th =
     hmac_sha256 L (kdf_derive L (finished_params secret label) 32) th"

text \<open>Documented behaviour of \<open>HMAC\<close> with SHA-256: 32 bytes.\<close>

definition hmac_correct :: "('c, 'm) lib \<Rightarrow> bool" where
  "hmac_correct L \<longleftrightarrow> (\<forall>k d. length (hmac_sha256 L k d) = 32)"

interpretation finished_kdf: key_derivation
  "\<lambda>L ((s, n), l) out m w. derive_finished_key L (Some s) n (Some l) out m w"
  "\<lambda>((s, n), l). finished_params (take (unat n) s) l"
  "\<lambda>((s, n), l). unat n \<le> length s"
proof (unfold_locales, goal_cases)
  case (1 L a n b w)
  obtain s sn l where a: "a = ((s, sn), l)" by (metis prod.exhaust)
  with 1 show ?case
    by (auto simp: derive_finished_key_def evp_kdf_derive_def env_simps Let_def rd_def wr_def
        kdf_correct_len lib_up_def finished_params_def split: if_splits)
qed

lemma compute_finished_spec:
  assumes "kdf_correct L" and "hmac_correct L" and "unat n \<le> length s" and "unat k \<le> length th"
    and "32 \<le> unat m" and "32 \<le> length vd"
  shows "\<exists>rc vd' fk w'. compute_finished_verify_data L (Some s) n (Some l) (Some th) k (Some vd) m w =
       Some (rc, Some vd', fk, w') \<and> lib_only w w' \<and>
     (rc = 0 \<and> vd' = finished_mac L (take (unat n) s) l (take (unat k) th) @ drop 32 vd \<and>
        fk = replicate 32 0 \<or>
      rc = - 1 \<and> length vd' = length vd \<and> drop 32 vd' = drop 32 vd \<and> \<not> lib_up L)"
proof -
  from finished_kdf.derive_exact [OF assms(1), of "((s, n), l)" 32 "local_array 32" w] assms(3)
  obtain r fk w1 where 1: "derive_finished_key L (Some s) n (Some l) (Some (local_array 32)) 32 w =
      Some (r, Some fk, w1)" "lib_only w w1" "length fk = 32"
    "r = 0 \<and> fk = kdf_derive L (finished_params (take (unat n) s) l) 32 \<or> r = - 1 \<and> \<not> lib_up L"
    by auto
  have m: "\<not> m < 32" using assms(5) by (simp add: word_less_nat_alt)
  note unf = compute_finished_verify_data_def [of L "Some s" n "Some l" "Some th" k "Some vd" m w]
  have mac: "length (hmac_sha256 L fk (take (unat k) th)) = 32" using assms(2) by (simp add: hmac_correct_def)
  show ?thesis
  proof (cases "r = 0 \<and> call_ok L (lib_calls w1)")
    case False
    with 1 m assms(4,6) show ?thesis
      by (auto simp: unf hmac_call_def Let_def ext_call_def rd_def wr_def lib_up_def intro: lib_only_step)
  next
    case True
    then have "compute_finished_verify_data L (Some s) n (Some l) (Some th) k (Some vd) m w =
        Some (0, Some (hmac_sha256 L fk (take (unat k) th) @ drop 32 vd), replicate 32 0,
              w1\<lparr>lib_calls := Suc (lib_calls w1)\<rparr>)"
      using 1 m assms(4,6) mac by (simp add: unf hmac_call_def Let_def ext_call_def rd_def wr_def)
    with True 1 show ?thesis by (auto simp: finished_mac_def intro: lib_only_step)
  qed
qed

lemma sample_hmac_correct: "hmac_correct sample_lib"
  by (simp add: hmac_correct_def sample_lib_def)

subsection \<open>Properties\<close>

text \<open>C26: \<open>compute_finished_verify_data\<close> on valid buffers always returns and frees its handles;
  on success the first 32 bytes of the output are the HMAC of the transcript hash under the
  label's HKDF key, and the key has been cleansed from the stack; otherwise it returns -1. Nothing
  after the first 32 bytes of the output is written on any path.\<close>

theorem compute_finished_verify_data_correct:
  assumes "kdf_correct L" and "hmac_correct L" and "unat n \<le> length secret"
    and "unat k \<le> length hash" and "32 \<le> unat m" and "32 \<le> length out"
  shows "\<exists>rc out' fk w'.
     compute_finished_verify_data L (Some secret) n (Some label) (Some hash) k (Some out) m w =
       Some (rc, Some out', fk, w') \<and> live w' = live w \<and>
     (rc = 0 \<and> fk = replicate 32 0 \<and>
        out' = finished_mac L (take (unat n) secret) label (take (unat k) hash) @ drop 32 out \<or>
      rc = - 1 \<and> length out' = length out \<and> drop 32 out' = drop 32 out)"
  using compute_finished_spec [OF assms, of label w] lib_only_frame(1) by blast

lemma replicate_2: "replicate 2 x = [x, x]"
  by (simp add: numeral_2_eq_2)

theorem compute_finished_verify_data_correct_witness:
  "\<exists>rc out' fk w'. compute_finished_verify_data sample_lib (Some [1, 2]) 2
       (Some TLS_CLIENT_FINISHED_LABEL) (Some [3, 4]) 2 (Some (replicate 34 0)) 32 (sample_world []) =
       Some (rc, Some out', fk, w') \<and> live w' = live (sample_world []) \<and>
     (rc = 0 \<and> fk = replicate 32 0 \<and>
        out' = finished_mac sample_lib [1, 2] TLS_CLIENT_FINISHED_LABEL [3, 4] @ [0, 0] \<or>
      rc = - 1 \<and> length out' = 34 \<and> drop 32 out' = [0, 0])"
  using compute_finished_verify_data_correct [OF sample_kdf_correct sample_hmac_correct,
      of 2 "[1, 2]" 2 "[3, 4]" 32 "replicate 34 0" TLS_CLIENT_FINISHED_LABEL "sample_world []"]
  by (simp add: replicate_2)

text \<open>A Finished value stands for one shared secret, one side and one transcript hash: two
  equal values with any of the three different are a collision of HKDF or of HMAC. In particular
  the server's value reflected by a peer is not accepted as the client's.\<close>

theorem finished_mac_binds:
  assumes "finished_mac L s l th = finished_mac L s' l' th'"
  shows "(s = s' \<and> l = l' \<and> th = th') \<or>
    collision (\<lambda>ps. kdf_derive L ps 32) (finished_params s l) (finished_params s' l') \<or>
    collision (\<lambda>(k, d). hmac_sha256 L k d) (kdf_derive L (finished_params s l) 32, th)
      (kdf_derive L (finished_params s' l') 32, th')"
  using assms by (auto simp: finished_mac_def finished_params_def collision_def cstr_inj)

theorem finished_mac_binds_witness:
  "let L = sample_lib\<lparr>hmac_sha256 := \<lambda>_ _. replicate 32 0\<rparr> in
    ([1] = [1 :: byte] \<and> TLS_CLIENT_FINISHED_LABEL = TLS_CLIENT_FINISHED_LABEL \<and> [2] = [3 :: byte]) \<or>
    collision (\<lambda>ps. kdf_derive L ps 32) (finished_params [1] TLS_CLIENT_FINISHED_LABEL)
      (finished_params [1] TLS_CLIENT_FINISHED_LABEL) \<or>
    collision (\<lambda>(k, d). hmac_sha256 L k d)
      (kdf_derive L (finished_params [1] TLS_CLIENT_FINISHED_LABEL) 32, [2])
      (kdf_derive L (finished_params [1] TLS_CLIENT_FINISHED_LABEL) 32, [3])"
  unfolding Let_def by (rule finished_mac_binds) (simp add: finished_mac_def)

text \<open>C27: when \<open>HMAC\<close> itself fails (every call before it succeeds), the function returns -1 without
  cleansing: its local array still holds the derived Finished key, because
  \<open>OPENSSL_cleanse\<close> comes after the early return. All handles are freed and the output is
  untouched but for the 32 bytes \<open>HMAC\<close> was to write.\<close>

theorem finished_key_left_when_mac_fails:
  assumes "kdf_correct L" and "unat n \<le> length secret" and "unat k \<le> length hash" and "32 \<le> length out"
    and "call_ok L (lib_calls w)" and "call_ok L (Suc (lib_calls w))"
    and "call_ok L (Suc (Suc (lib_calls w)))" and "\<not> call_ok L (Suc (Suc (Suc (lib_calls w))))"
  shows "\<exists>out' w'. compute_finished_verify_data L (Some secret) n (Some label) (Some hash) k (Some out) 32 w =
       Some (- 1, Some out', kdf_derive L (finished_params (take (unat n) secret) label) 32, w') \<and>
     live w' = live w \<and> length out' = length out \<and> drop 32 out' = drop 32 out"
  using assms
  by (simp add: compute_finished_verify_data_def hmac_call_def derive_finished_key_def evp_kdf_derive_def
      finished_params_def env_simps Let_def rd_def wr_def kdf_correct_len)

theorem finished_key_left_when_mac_fails_witness:
  "\<exists>out' w'. compute_finished_verify_data (failing_lib 3) (Some [1, 2]) 2 (Some TLS_SERVER_FINISHED_LABEL)
       (Some [3]) 1 (Some (replicate 33 0)) 32 (sample_world []) =
     Some (- 1, Some out',
           kdf_derive (failing_lib 3) (finished_params [1, 2] TLS_SERVER_FINISHED_LABEL) 32, w') \<and>
     live w' = live (sample_world []) \<and> length out' = 33 \<and> drop 32 out' = [0]"
  using finished_key_left_when_mac_fails [OF failing_kdf_correct, of 2 "[1, 2]" 1 "[3]" "replicate 33 0" 3
      "sample_world []" TLS_SERVER_FINISHED_LABEL]
  by (simp add: failing_lib_def sample_world_def)

end
