(* ===== verification/Sig_Utils.thy ===== *)
theory Sig_Utils
  imports Env Sample
begin

section \<open>Key files (\<open>src/sig_utils.c\<close>)\<close>

text \<open>\<open>load_file\<close> reads the first \<open>expected_size\<close> bytes of a file into a buffer. \<open>fopen\<close> fails for a
  file that does not exist or for other reasons, \<open>fread\<close> may return fewer bytes than the file
  has; the file is closed on every path. A longer file is accepted: only its front is read.\<close>

definition sys_fopen :: "('c, 'm) lib \<Rightarrow> string \<Rightarrow> world \<Rightarrow> bool \<times> world" where
  "sys_fopen L filename w =
     (if files w filename = None then (False, w\<lparr>lib_calls := Suc (lib_calls w)\<rparr>)
      else acquire L H_FILE w)"

definition sys_fread :: "('c, 'm) lib \<Rightarrow> bytes \<Rightarrow> nat \<Rightarrow> world \<Rightarrow> bytes \<times> world" where
  "sys_fread L contents n w =
     (let (ok, w') = ext_call L w
      in (take (if ok then n else min n (io_short L (lib_calls w))) contents, w'))"

definition load_file ::
  "('c, 'm) lib \<Rightarrow> string \<Rightarrow> ptr \<Rightarrow> size_t \<Rightarrow> world \<Rightarrow> (int \<times> ptr \<times> world) option" where
  "load_file L filename buffer expected_size w =
     do {
       let (fp, w) = sys_fopen L filename w;
       if \<not> fp then Some (- 1, buffer, w)
       else do {
         contents \<leftarrow> files w filename;
         let (data, w) = sys_fread L contents (unat expected_size) w;
         b \<leftarrow> buffer;
         b \<leftarrow> wr b 0 data;
         let ret = (if length data \<noteq> unat expected_size then - 1 else 0);
         w \<leftarrow> release H_FILE w;
         Some (ret, Some b, w)
       }
     }"

text \<open>What a file holds as a key of \<open>n\<close> bytes: nothing when it is missing or too short.\<close>

definition key_file :: "world \<Rightarrow> string \<Rightarrow> nat \<Rightarrow> bytes option" where
  "key_file w filename n =
     (case files w filename of
        None \<Rightarrow> None
      | Some c \<Rightarrow> if n \<le> length c then Some (take n c) else None)"

lemma load_file_spec:
  assumes "length b = unat n"
  shows "\<exists>rc b' w'. load_file L filename (Some b) n w = Some (rc, Some b', w') \<and> lib_only w w' \<and>
     length b' = unat n \<and>
     (rc = 0 \<and> key_file w filename (unat n) = Some b' \<or>
      rc = - 1 \<and> (\<not> lib_up L \<or> key_file w filename (unat n) = None))"
proof (cases "files w filename")
  case None
  then show ?thesis
    using assms by (simp add: load_file_def sys_fopen_def key_file_def)
next
  case (Some c)
  then show ?thesis
    using assms
    by (auto simp: load_file_def sys_fopen_def sys_fread_def key_file_def env_simps wr_def Let_def
        lib_up_def min_def not_le split: if_splits)
qed

subsection \<open>Properties\<close>

text \<open>C40: \<open>load_file\<close> returns and closes the file on every path; it reports success exactly with
  the first \<open>expected_size\<close> bytes of a file at least that long in the buffer, and when no call
  fails it succeeds for every such file. Trailing bytes of a longer file are ignored.\<close>

theorem load_file_correct:
  assumes "length b = unat n"
  shows "\<exists>rc b' w'. load_file L filename (Some b) n w = Some (rc, Some b', w') \<and> live w' = live w \<and>
     (rc = 0 \<and> (\<exists>c. files w filename = Some c \<and> unat n \<le> length c \<and> b' = take (unat n) c) \<or>
      rc = - 1 \<and> (lib_up L \<longrightarrow>
        (case files w filename of None \<Rightarrow> True | Some c \<Rightarrow> length c < unat n)))"
  using load_file_spec [OF assms, of L filename w] lib_only_frame(1)
  by (fastforce simp: key_file_def split: option.splits if_splits)

theorem load_file_correct_witness:
  "\<exists>b' w'. load_file sample_lib ''k'' (Some [0, 0]) 2
       ((sample_world [])\<lparr>files := [''k'' \<mapsto> [4, 5, 6]]\<rparr>) = Some (0, Some [4, 5], w')"
  using load_file_correct [of "[0, 0]" 2 sample_lib "''k''" "(sample_world [])\<lparr>files := [''k'' \<mapsto> [4, 5, 6]]\<rparr>"]
    sample_lib_up by auto

end
