(* ===== verification/Endpoint.thy ===== *)
theory Endpoint
  imports Tls_Record Tls_Key_Schedule Tls_Finished Sig_Utils
begin

section \<open>What the two endpoint programs share\<close>

text \<open>
  The calls the endpoints make into the operating system and liboqs, the way they are put
  together from phases that may \<open>goto end\<close>, the frame of a run (what it read and wrote), and the
  contracts of the message functions in the form the endpoint proofs use.
\<close>

subsection \<open>liboqs and sockets\<close>

text \<open>\<open>OQS_MEM_malloc\<close> gives indeterminate memory or \<open>NULL\<close>. A function of liboqs that fails
  leaves arbitrary bytes in its outputs.\<close>

definition oqs_malloc :: "('c, 'm) lib \<Rightarrow> size_t \<Rightarrow> world \<Rightarrow> ptr \<times> world" where
  "oqs_malloc L n w =
     (let (ok, w') = acquire L H_OQS_MEM w
      in (if ok then Some (fresh_mem L (unat n) w) else None, w'))"

definition oqs_free :: "ptr \<Rightarrow> world \<Rightarrow> world option" where
  "oqs_free p w = free_if (p \<noteq> None) H_OQS_MEM w"

definition random_call :: "('c, 'm) lib \<Rightarrow> world \<Rightarrow> bool \<times> world" where
  "random_call L w = (let (ok, w) = ext_call L w in (ok, w\<lparr>rng := Suc (rng w)\<rparr>))"

definition oqs_kem_keypair ::
  "('c, 'm) lib \<Rightarrow> ptr \<Rightarrow> ptr \<Rightarrow> world \<Rightarrow> (bool \<times> ptr \<times> ptr \<times> world) option" where
  "oqs_kem_keypair L public_key secret_key w =
     do {
       let (ok, w') = random_call L w;
       let (pk, sk) = (if ok then kem_keypair L (rng w)
                       else (fresh_mem L (unat (kem_len_pk L)) w, fresh_mem L (unat (kem_len_sk L)) w));
       p \<leftarrow> public_key;
       p \<leftarrow> wr p 0 pk;
       s \<leftarrow> secret_key;
       s \<leftarrow> wr s 0 sk;
       Some (ok, Some p, Some s, w')
     }"

definition oqs_sig_keypair ::
  "('c, 'm) lib \<Rightarrow> ptr \<Rightarrow> ptr \<Rightarrow> world \<Rightarrow> (bool \<times> ptr \<times> ptr \<times> world) option" where
  "oqs_sig_keypair L public_key secret_key w =
     do {
       let (ok, w') = random_call L w;
       let (pk, sk) = (if ok then sig_keypair L (rng w)
                       else (fresh_mem L (unat (sig_len_pk L)) w, fresh_mem L (unat (sig_len_sk L)) w));
       p \<leftarrow> public_key;
       p \<leftarrow> wr p 0 pk;
       s \<leftarrow> secret_key;
       s \<leftarrow> wr s 0 sk;
       Some (ok, Some p, Some s, w')
     }"

definition oqs_kem_encaps ::
  "('c, 'm) lib \<Rightarrow> ptr \<Rightarrow> ptr \<Rightarrow> ptr \<Rightarrow> world \<Rightarrow> (bool \<times> ptr \<times> ptr \<times> world) option" where
  "oqs_kem_encaps L ciphertext shared_secret public_key w =
     do {
       pk \<leftarrow> public_key;
       pk \<leftarrow> rd pk 0 (unat (kem_len_pk L));
       let (ok, w') = random_call L w;
       let (ct, ss) = (if ok then kem_encaps L (rng w) pk
                       else (fresh_mem L (unat (kem_len_ct L)) w, fresh_mem L (unat (kem_len_ss L)) w));
       c \<leftarrow> ciphertext;
       c \<leftarrow> wr c 0 ct;
       s \<leftarrow> shared_secret;
       s \<leftarrow> wr s 0 ss;
       Some (ok, Some c, Some s, w')
     }"

definition oqs_kem_decaps ::
  "('c, 'm) lib \<Rightarrow> ptr \<Rightarrow> ptr \<Rightarrow> ptr \<Rightarrow> world \<Rightarrow> (bool \<times> ptr \<times> world) option" where
  "oqs_kem_decaps L shared_secret ciphertext secret_key w =
     do {
       c \<leftarrow> ciphertext;
       c \<leftarrow> rd c 0 (unat (kem_len_ct L));
       k \<leftarrow> secret_key;
       k \<leftarrow> rd k 0 (unat (kem_len_sk L));
       let (ok, w') = ext_call L w;
       s \<leftarrow> shared_secret;
       s \<leftarrow> wr s 0 (if ok then kem_decaps L c k else fresh_mem L (unat (kem_len_ss L)) w);
       Some (ok, Some s, w')
     }"

definition oqs_sig_sign ::
  "('c, 'm) lib \<Rightarrow> ptr \<Rightarrow> size_t \<Rightarrow> bytes \<Rightarrow> size_t \<Rightarrow> ptr \<Rightarrow> world
     \<Rightarrow> (bool \<times> ptr \<times> size_t \<times> world) option" where
  "oqs_sig_sign L signature signature_len message message_len secret_key w =
     do {
       m \<leftarrow> rd message 0 (unat message_len);
       k \<leftarrow> secret_key;
       k \<leftarrow> rd k 0 (unat (sig_len_sk L));
       let (ok, w') = random_call L w;
       let s = (if ok then sig_sign L (rng w) m k else fresh_mem L (unat (sig_len_sig L)) w);
       b \<leftarrow> signature;
       b \<leftarrow> wr b 0 s;
       Some (ok, Some b, if ok then of_nat (length s) else signature_len, w')
     }"

definition oqs_sig_verify ::
  "('c, 'm) lib \<Rightarrow> bytes \<Rightarrow> size_t \<Rightarrow> ptr \<Rightarrow> size_t \<Rightarrow> ptr \<Rightarrow> world \<Rightarrow> (bool \<times> world) option" where
  "oqs_sig_verify L message message_len signature signature_len public_key w =
     do {
       m \<leftarrow> rd message 0 (unat message_len);
       s \<leftarrow> signature;
       s \<leftarrow> rd s 0 (unat signature_len);
       p \<leftarrow> public_key;
       p \<leftarrow> rd p 0 (unat (sig_len_pk L));
       let (ok, w') = ext_call L w;
       Some (ok \<and> sig_verify L m s p, w')
     }"

text \<open>The documented sizes: non-empty keys, ciphertexts and secrets that fit a handshake
  message, and outputs of the announced lengths.\<close>

definition oqs_correct :: "('c, 'm) lib \<Rightarrow> bool" where
  "oqs_correct L \<longleftrightarrow>
     unat (kem_len_pk L) \<le> 0xFFFFFF \<and> unat (kem_len_ct L) \<le> 0xFFFFFF \<and>
     unat (sig_len_pk L) \<le> 0xFFFFFF \<and> unat (sig_len_sig L) \<le> 0xFFFFFF \<and> kem_len_ss L \<noteq> 0 \<and>
     (\<forall>n. length (fst (kem_keypair L n)) = unat (kem_len_pk L) \<and>
          length (snd (kem_keypair L n)) = unat (kem_len_sk L)) \<and>
     (\<forall>n pk. length (fst (kem_encaps L n pk)) = unat (kem_len_ct L) \<and>
             length (snd (kem_encaps L n pk)) = unat (kem_len_ss L)) \<and>
     (\<forall>ct sk. length (kem_decaps L ct sk) = unat (kem_len_ss L)) \<and>
     (\<forall>n m sk. 0 < length (sig_sign L n m sk) \<and> length (sig_sign L n m sk) \<le> unat (sig_len_sig L))"

lemma oqs_correctD:
  assumes "oqs_correct L"
  shows "unat (kem_len_pk L) \<le> 0xFFFFFF" "unat (kem_len_ct L) \<le> 0xFFFFFF"
    "unat (sig_len_pk L) \<le> 0xFFFFFF" "unat (sig_len_sig L) \<le> 0xFFFFFF" "kem_len_ss L \<noteq> 0"
    "length (fst (kem_keypair L n)) = unat (kem_len_pk L)" "length (snd (kem_keypair L n)) = unat (kem_len_sk L)"
    "length (fst (kem_encaps L n pk)) = unat (kem_len_ct L)" "length (snd (kem_encaps L n pk)) = unat (kem_len_ss L)"
    "length (kem_decaps L ct sk) = unat (kem_len_ss L)"
    "0 < length (sig_sign L n m sk)" "length (sig_sign L n m sk) \<le> unat (sig_len_sig L)"
  using assms by (auto simp: oqs_correct_def)

lemma sample_oqs_correct: "oqs_correct sample_lib"
  by (auto simp: oqs_correct_def sample_lib_def)

abbreviation EXIT_SUCCESS :: int where "EXIT_SUCCESS \<equiv> 0"
abbreviation EXIT_FAILURE :: int where "EXIT_FAILURE \<equiv> 1"

subsection \<open>Phases\<close>

text \<open>A phase runs on the local variables and the world; it ends with \<open>True\<close> when control goes on
  behind it and with \<open>False\<close> after \<open>goto end\<close>.\<close>

type_synonym 's phase = "'s \<Rightarrow> world \<Rightarrow> (bool \<times> 's \<times> world) option"

fun run_phases :: "'s phase list \<Rightarrow> 's phase" where
  "run_phases [] s w = Some (True, s, w)"
| "run_phases (f # fs) s w =
     do { (ok, s, w) \<leftarrow> f s w; if ok then run_phases fs s w else Some (False, s, w) }"

text \<open>\<open>ends I Q G r\<close>: the result \<open>r\<close> of a phase is a return; the invariant \<open>I\<close> holds however it
  ended, \<open>Q\<close> when control goes on, and under \<open>G\<close> it does go on. \<open>phase_ok\<close> says so of every run
  from a state with \<open>P\<close>.\<close>

definition ends ::
  "('s \<Rightarrow> world \<Rightarrow> bool) \<Rightarrow> ('s \<Rightarrow> world \<Rightarrow> bool) \<Rightarrow> bool \<Rightarrow> (bool \<times> 's \<times> world) option \<Rightarrow> bool" where
  "ends I Q G r \<longleftrightarrow>
     (case r of None \<Rightarrow> False
      | Some (ok, s', w') \<Rightarrow> I s' w' \<and> (ok \<longrightarrow> Q s' w') \<and> (G \<longrightarrow> ok))"

lemma ends_Some [simp]: "ends I Q G (Some (ok, s, w)) \<longleftrightarrow> I s w \<and> (ok \<longrightarrow> Q s w) \<and> (G \<longrightarrow> ok)"
  by (simp add: ends_def)

lemma ends_mono:
  "ends I Q G r \<Longrightarrow> (\<And>s w. Q s w \<Longrightarrow> Q' s w) \<Longrightarrow> (G' \<Longrightarrow> G) \<Longrightarrow> ends I Q' G' r"
  by (auto simp: ends_def split: option.splits)

lemma endsE:
  assumes "ends I Q G r"
  obtains ok s w where "r = Some (ok, s, w)" "I s w" "ok \<Longrightarrow> Q s w" "G \<Longrightarrow> ok"
  using assms by (auto simp: ends_def split: option.splits)

lemma ends_TrueE:
  assumes "ends I Q True r"
  obtains s w where "r = Some (True, s, w)" "Q s w"
  using assms by (auto elim: endsE)

definition phase_ok ::
  "('s \<Rightarrow> world \<Rightarrow> bool) \<Rightarrow> ('s \<Rightarrow> world \<Rightarrow> bool) \<Rightarrow> 's phase \<Rightarrow> ('s \<Rightarrow> world \<Rightarrow> bool) \<Rightarrow> bool \<Rightarrow> bool" where
  "phase_ok I P f Q G \<longleftrightarrow> (\<forall>s w. P s w \<longrightarrow> ends I Q G (f s w))"

lemma phase_okI: "(\<And>s w. P s w \<Longrightarrow> ends I Q G (f s w)) \<Longrightarrow> phase_ok I P f Q G"
  by (simp add: phase_ok_def)

lemma phase_okD: "phase_ok I P f Q G \<Longrightarrow> P s w \<Longrightarrow> ends I Q G (f s w)"
  by (simp add: phase_ok_def)

lemma run_phases_ok_Nil: "(\<And>s w. P s w \<Longrightarrow> I s w) \<Longrightarrow> phase_ok I P (run_phases []) P G"
  by (simp add: phase_ok_def)

lemma run_phases_ok_Cons:
  assumes "phase_ok I P f Q G" and "phase_ok I Q (run_phases fs) R G"
  shows "phase_ok I P (run_phases (f # fs)) R G"
proof (rule phase_okI)
  fix s w assume "P s w"
  from phase_okD [OF assms(1) this] show "ends I R G (run_phases (f # fs) s w)"
    using phase_okD [OF assms(2)] by (auto elim!: endsE)
qed

lemma ends_bind:
  assumes "ends I Q G r" and "\<And>s w. Q s w \<Longrightarrow> ends I Q' G' (k s w)" and "G' \<Longrightarrow> G"
  shows "ends I Q' G' (do { (ok, s, w) \<leftarrow> r; if \<not> ok then Some (False, s, w) else k s w })"
  using assms(1)
proof (rule endsE)
  fix ok s w assume r: "r = Some (ok, s, w)" "I s w" "ok \<Longrightarrow> Q s w" "G \<Longrightarrow> ok"
  show ?thesis using assms(2) [of s w] assms(3) r by (cases ok) auto
qed

text \<open>A phase that finds a value: the rest may be proved for each value it can have found.\<close>

lemma run_phases_ok_choose:
  assumes "phase_ok I P f (\<lambda>s w. \<exists>x. Q x s w) G"
    and "\<And>x s w. Q x s w \<Longrightarrow> phase_ok I (Q x) (run_phases fs) R G"
  shows "phase_ok I P (run_phases (f # fs)) R G"
proof (rule run_phases_ok_Cons [OF assms(1)], rule phase_okI, elim exE)
  fix s w x assume "Q x s w"
  from phase_okD [OF assms(2) [OF this] this] show "ends I R G (run_phases fs s w)" .
qed

lemma phase_ok_ex:
  assumes "\<And>x. phase_ok I (P x) f (Q x) G"
  shows "phase_ok I (\<lambda>s w. \<exists>x. P x s w) f (\<lambda>s w. \<exists>x. Q x s w) G"
proof (rule phase_okI)
  fix s w assume "\<exists>x. P x s w"
  then obtain x where "P x s w" by blast
  from phase_okD [OF assms this] show "ends I (\<lambda>s w. \<exists>x. Q x s w) G (f s w)"
    by (rule ends_mono) auto
qed

lemma phase_ok_inv:
  assumes "phase_ok I P f Q G" and "\<And>s w. I s w \<Longrightarrow> I' s w"
  shows "phase_ok I' P f Q G"
proof (rule phase_okI)
  fix s w assume "P s w"
  from phase_okD [OF assms(1) this] assms(2) show "ends I' Q G (f s w)" by (auto elim!: endsE)
qed

lemma phase_ok_keep: "phase_ok I P f Q G \<Longrightarrow> phase_ok I P f (\<lambda>s w. Q s w \<and> I s w) G"
proof (rule phase_okI)
  fix s w assume "phase_ok I P f Q G" "P s w"
  then have "ends I Q G (f s w)" by (rule phase_okD)
  then show "ends I (\<lambda>s w. Q s w \<and> I s w) G (f s w)" by (auto elim!: endsE)
qed

lemma phase_ok_conseq: "phase_ok I P f Q G \<Longrightarrow> (\<And>s w. Q s w \<Longrightarrow> Q' s w) \<Longrightarrow> phase_ok I P f Q' G"
  unfolding phase_ok_def by (blast intro: ends_mono)

subsection \<open>Frames\<close>

text \<open>\<open>frame w i out d w'\<close>: from \<open>w\<close> to \<open>w'\<close> the program read exactly \<open>i\<close>, wrote exactly \<open>out\<close>,
  made \<open>d\<close> draws of random bytes, changed no file and raised \<open>SIGPIPE\<close> only if the schedule has
  a broken pipe. Handles are tracked apart.\<close>

definition frame :: "world \<Rightarrow> bytes \<Rightarrow> bytes \<Rightarrow> nat \<Rightarrow> world \<Rightarrow> bool" where
  "frame w i out d w' \<longleftrightarrow>
     inbox w = i @ inbox w' \<and> outbox w' = outbox w @ out \<and> rng w' = rng w + d \<and>
     peer_closed w' = peer_closed w \<and> io_sched w' = io_sched w \<and> files w' = files w \<and> pipe_to w w'"

lemma frame_refl: "frame w [] [] 0 w"
  by (simp add: frame_def)

lemma frame_trans: "frame w i u c w1 \<Longrightarrow> frame w1 j v d w2 \<Longrightarrow> frame w (i @ j) (u @ v) (c + d) w2"
  using pipe_to_trans [of w w1 w2] by (simp add: frame_def)

lemma frame_lib: "lib_only w w' \<Longrightarrow> frame w [] [] 0 w' \<and> live w' = live w"
  by (simp add: frame_def lib_only_frame)

lemma frame_sent: "sent_to w d w' \<Longrightarrow> frame w [] d 0 w' \<and> live w' = live w"
  by (cases w; cases w') (simp add: frame_def sent_to_iff but_outbox_def)

lemma frame_fine: "frame w i u d w' \<Longrightarrow> io_fine w' = io_fine w"
  by (simp add: frame_def io_fine_def)

lemma frame_pipe: "frame w i u d w' \<Longrightarrow> io_fine w \<Longrightarrow> broken_pipe w' = broken_pipe w"
  by (metis frame_def io_choice.distinct(5) io_fine_def pipe_to_def)

lemma frame_closed: "frame w i u d w' \<Longrightarrow> peer_closed w' = peer_closed w"
  by (simp add: frame_def)

lemma frame_files: "frame w i u d w' \<Longrightarrow> files w' = files w"
  by (simp add: frame_def)

text \<open>Reading a prefix that is known leaves the rest.\<close>

lemma frame_rest: "frame w i u d w' \<Longrightarrow> inbox w = i @ r \<Longrightarrow> inbox w' = r"
  by (simp add: frame_def)

lemma frame_but_inbox:
  assumes "but_inbox w' = but_inbox w" and "inbox w = i @ inbox w'"
  shows "frame w i [] 0 w' \<and> live w' = live w"
  using assms by (cases w; cases w') (simp add: frame_def but_inbox_def)

subsection \<open>The message functions as the endpoints use them\<close>

lemma send_msg:
  assumes "unat n \<le> length b" and "unat n \<le> 0xFFFFFF"
  shows "\<exists>rc out w'. send_handshake_msg t (Some b) n w = Some (rc, w') \<and>
     frame w [] out 0 w' \<and> live w' = live w \<and>
     (rc = 0 \<and> out = hs_msg t (take (unat n) b) \<or> rc = - 1 \<and> \<not> io_fine w)"
proof -
  have le: "n \<le> TLS_HANDSHAKE_MAX_BODY_LEN" using assms(2) by (simp add: word_le_nat_alt)
  from put_all_sent [OF hs_parts_ok [OF assms(1)], of t w] obtain rc w' k where
    s: "send_handshake_msg t (Some b) n w = Some (rc, w')"
    "sent_to w (take k (hs_msg t (take (unat n) b))) w'"
    "rc = 0 \<and> k = length (hs_msg t (take (unat n) b)) \<or> rc = - 1"
    unfolding send_handshake_put [OF le] parts_hs_parts [OF assms(1)] by blast
  moreover have "io_fine w \<Longrightarrow> rc = 0" using send_handshake_fine [OF _ assms(1) le, of w t] s(1) by auto
  ultimately show ?thesis using frame_sent [OF s(2)] by auto
qed

lemma recv_all_closed:
  assumes "unat n \<le> length b" and "peer_closed w"
  shows "\<exists>rc b' i w'. recv_all b n w = Some (rc, b', w') \<and> frame w i [] 0 w' \<and> live w' = live w \<and>
     length b' = length b \<and> (rc = 0 \<or> rc = 1 \<or> rc = - 1)"
proof -
  obtain rc b' w' where r: "recv_all b n w = Some (rc, b', w')"
    using src.get_returns [OF assms(1), of w] assms(2) by blast
  obtain k where "inbox w' = drop k (inbox w)" using src.get_suffix [OF r] by blast
  then have "inbox w = take k (inbox w) @ inbox w'" by simp
  with src.get_other [OF r] have "frame w (take k (inbox w)) [] 0 w' \<and> live w' = live w"
    by (intro frame_but_inbox) simp_all
  with r src.get_rc [OF r] src.get_len [OF r] show ?thesis by blast
qed

lemma recv_msg_closed:
  assumes "unat cap \<le> length b" and "peer_closed w"
  shows "\<exists>rc b' l' i w'. recv_handshake_msg t (Some b) cap (Some l) w = Some (rc, Some b', Some l', w') \<and>
     frame w i [] 0 w' \<and> live w' = live w \<and> length b' = length b \<and> (rc = 0 \<or> rc = 1 \<or> rc = - 1)"
proof -
  note unf = recv_handshake_msg_def [of t "Some b" cap "Some l" w]
  obtain rc h i w1 where 1: "recv_all (local_array 4) 4 w = Some (rc, h, w1)" "frame w i [] 0 w1 \<and> live w1 = live w"
    "rc = 0 \<or> rc = 1 \<or> rc = - 1"
    using recv_all_closed [OF _ assms(2), of 4 "local_array 4"] by auto
  define n where "n = be24_dec (h ! 1) (h ! 2) (h ! 3)"
  show ?thesis
  proof (cases "rc \<noteq> 0 \<or> h ! 0 \<noteq> t \<or> cap < n")
    case True
    with 1 show ?thesis by (auto simp: unf n_def Let_def)
  next
    case False
    then have "unat n \<le> length b" using assms(1) by (auto simp: not_less word_le_nat_alt)
    moreover have "peer_closed w1" using frame_closed 1(2) assms(2) by blast
    ultimately obtain rc2 b' j w2 where 2: "recv_all b n w1 = Some (rc2, b', w2)"
      "frame w1 j [] 0 w2 \<and> live w2 = live w1" "length b' = length b" "rc2 = 0 \<or> rc2 = 1 \<or> rc2 = - 1"
      using recv_all_closed [of n b w1] by blast
    have "frame w (i @ j) [] 0 w2 \<and> live w2 = live w"
      using frame_trans [of w i "[]" 0 w1 j "[]" 0 w2] 1(2) 2(2) by simp
    with False 1(1) 2 show ?thesis by (auto simp: unf n_def Let_def)
  qed
qed

lemma recv_msg:
  assumes "unat cap \<le> length b" and "peer_closed w"
  shows "\<exists>rc b' l' i w'. recv_handshake_msg t (Some b) cap (Some l) w = Some (rc, Some b', Some l', w') \<and>
     frame w i [] 0 w' \<and> live w' = live w \<and> length b' = length b \<and> (rc = 0 \<or> rc = 1 \<or> rc = - 1) \<and>
     (rc = 0 \<longrightarrow> (\<exists>m. hs_valid (t, m) \<and> length m \<le> unat cap \<and> i = hs_msg t m \<and>
        b' = m @ drop (length m) b \<and> l' = of_nat (length m))) \<and>
     (\<forall>m r. io_fine w \<and> inbox w = hs_msg t m @ r \<and> hs_valid (t, m) \<and> length m \<le> unat cap \<longrightarrow> rc = 0)"
proof -
  obtain rc b' l' i w' where r: "recv_handshake_msg t (Some b) cap (Some l) w = Some (rc, Some b', Some l', w')"
    and f: "frame w i [] 0 w'" "live w' = live w" "length b' = length b" "rc = 0 \<or> rc = 1 \<or> rc = - 1"
    using recv_msg_closed [OF assms, of t l] by blast
  have "\<exists>m. hs_valid (t, m) \<and> length m \<le> unat cap \<and> i = hs_msg t m \<and>
        b' = m @ drop (length m) b \<and> l' = of_nat (length m)" if "rc = 0"
  proof -
    from recv_handshake_sound [of t b cap l w "Some b'" "Some l'" w'] r that obtain m where
      "hs_valid (t, m)" "length m \<le> unat cap" "inbox w = hs_msg t m @ inbox w'"
      "b' = m @ drop (length m) b" "l' = of_nat (length m)" by auto
    moreover from this(3) f(1) have "i = hs_msg t m" by (simp add: frame_def)
    ultimately show ?thesis by blast
  qed
  moreover have "rc = 0" if "io_fine w" "inbox w = hs_msg t m @ s" "hs_valid (t, m)" "length m \<le> unat cap" for m s
    using recv_handshake_ok [OF that assms(1), of l] r by auto
  ultimately show ?thesis using r f by blast
qed

subsection \<open>The library functions as the endpoints use them\<close>

text \<open>The documented behaviour of all of OpenSSL and liboqs that the endpoints rely on.\<close>

definition library_correct :: "('c, 'm) lib \<Rightarrow> (bytes \<Rightarrow> bytes) \<Rightarrow> bool" where
  "library_correct L sha256 \<longleftrightarrow>
     md_correct L sha256 \<and> kdf_correct L \<and> hmac_correct L \<and> gcm_correct L \<and> oqs_correct L"

lemma library_correctD:
  assumes "library_correct L sha256"
  shows "md_correct L sha256" "kdf_correct L" "hmac_correct L" "gcm_correct L" "oqs_correct L"
  using assms by (simp_all add: library_correct_def)

lemma sample_library_correct: "library_correct sample_lib (pad 32)"
  by (simp add: library_correct_def sample_md_correct sample_kdf_correct sample_hmac_correct
      sample_gcm_correct sample_oqs_correct)

lemma failing_library_correct: "library_correct (failing_lib n) (pad 32)"
proof -
  have "md_of (failing_lib n) ds = md_of sample_lib ds" for ds
    by (simp add: md_of_def failing_lib_def)
  then have "md_correct (failing_lib n) (pad 32)" "hmac_correct (failing_lib n)" "oqs_correct (failing_lib n)"
    using sample_md_correct sample_hmac_correct sample_oqs_correct
    by (simp_all add: md_correct_def hmac_correct_def oqs_correct_def failing_lib_def)
  then show ?thesis by (simp add: library_correct_def failing_kdf_correct failing_gcm_correct)
qed

lemma tr_update:
  assumes "absorbed L tr ds" and "unat n \<le> length b" and "unat n \<le> 0xFFFFFF"
  shows "\<exists>rc tr' w'. transcript_update_handshake_msg L (Some tr) t (Some b) n w = Some (rc, Some tr', w') \<and>
     frame w [] [] 0 w' \<and> live w' = live w \<and>
     (rc = 0 \<and> absorbed L tr' (ds @ [hs_msg t (take (unat n) b)]) \<or> rc = - 1 \<and> tr' = tr \<and> \<not> lib_up L)"
proof -
  from transcript_update_handshake_msg_spec [OF assms(1,2), of t w] obtain rc tr' w' where
    "transcript_update_handshake_msg L (Some tr) t (Some b) n w = Some (rc, Some tr', w')" "lib_only w w'"
    "rc = 0 \<and> absorbed L tr' (ds @ [hs_msg t (take (unat n) b)]) \<or>
      rc = - 1 \<and> tr' = tr \<and> (\<not> lib_up L \<or> 0xFFFFFF < unat n)" by blast
  with assms(3) frame_lib [of w w'] show ?thesis
    by (intro exI [of _ rc] exI [of _ tr'] exI [of _ w']) auto
qed

lemma tr_hash:
  assumes "library_correct L sha256" and "absorbed L tr ds" and "length h = 32"
  shows "\<exists>rc h' l' w'. transcript_get_hash L (Some tr) (Some h) 32 (Some l) w =
       Some (rc, Some tr, Some h', Some l', w') \<and>
     frame w [] [] 0 w' \<and> live w' = live w \<and> length h' = 32 \<and>
     (rc = 0 \<and> h' = sha256 (concat ds) \<and> l' = 32 \<or> rc = - 1 \<and> \<not> lib_up L)"
proof -
  note md = library_correctD(1) [OF assms(1)]
  obtain rc h' l' w' where "transcript_get_hash L (Some tr) (Some h) 32 (Some l) w =
      Some (rc, Some tr, Some h', Some l', w')"
    "lib_only w w'" "rc = 0 \<and> h' = sha256 (concat ds) \<and> l' = 32 \<or> rc = - 1 \<and> length h' = 32 \<and> \<not> lib_up L"
    using transcript_get_hash_sha [OF md assms(2), of h 32 l w] assms(3) by auto
  moreover have "length (sha256 (concat ds)) = 32" using md by (simp add: md_correct_def)
  ultimately show ?thesis using frame_lib [of w w'] assms(3) by auto
qed

lemma finished_data:
  assumes "library_correct L sha256" and "unat n = length s" and "length th = 32" and "length vd = 32"
  shows "\<exists>rc vd' fk w'. compute_finished_verify_data L (Some s) n (Some l) (Some th) 32 (Some vd) 32 w =
       Some (rc, Some vd', fk, w') \<and> frame w [] [] 0 w' \<and> live w' = live w \<and> length vd' = 32 \<and>
     (rc = 0 \<and> vd' = finished_mac L s l th \<or> rc = - 1 \<and> \<not> lib_up L)"
proof -
  note lib = library_correctD [OF assms(1)]
  from compute_finished_spec [OF lib(2,3), of n s 32 th 32 vd l w] assms(2-4)
  obtain rc vd' fk w' where "compute_finished_verify_data L (Some s) n (Some l) (Some th) 32 (Some vd) 32 w =
       Some (rc, Some vd', fk, w')" "lib_only w w'"
     "rc = 0 \<and> vd' = finished_mac L s l th \<or> rc = - 1 \<and> length vd' = 32 \<and> \<not> lib_up L" by auto
  moreover have "length (finished_mac L s l th) = 32" using lib(3) by (simp add: finished_mac_def hmac_correct_def)
  ultimately show ?thesis using frame_lib [of w w'] assms(4) by auto
qed

lemma app_key_derivation:
  assumes "library_correct L sha256" and "unat n = length s" and "n \<noteq> 0" and "length th = 32"
  shows "\<exists>rc ks w'. derive_application_keys L (Some s) n (Some th) 32 (Some ks0) w = Some (rc, Some ks, w') \<and>
     frame w [] [] 0 w' \<and> live w' = live w \<and>
     (rc = 0 \<and> ks = app_keys L s th \<or> rc = - 1 \<and> ks = zero_keys \<and> \<not> lib_up L)"
proof -
  from derive_application_keys_spec [OF library_correctD(2) [OF assms(1)] assms(3), of s 32 th ks0 w] assms(2,4)
  obtain rc ks w' where "derive_application_keys L (Some s) n (Some th) 32 (Some ks0) w = Some (rc, Some ks, w')"
    "lib_only w w'" "rc = 0 \<and> ks = app_keys L s th \<or> rc = - 1 \<and> ks = zero_keys \<and> \<not> lib_up L" by auto
  then show ?thesis using frame_lib [of w w'] by blast
qed

lemma app_keys_len:
  assumes "library_correct L sha256"
  shows "length (client_key (app_keys L s th)) = 32" "length (server_key (app_keys L s th)) = 32"
    "length (client_iv (app_keys L s th)) = 12" "length (server_iv (app_keys L s th)) = 12"
  using library_correctD(2) [OF assms] by (simp_all add: app_keys_def kdf_correct_len)

text \<open>The state of a direction as \<open>tls_record_state_init\<close> makes it.\<close>

definition record_start :: "bytes \<Rightarrow> bytes \<Rightarrow> tls_record_state" where
  "record_start key iv = \<lparr>rs_key = key, rs_static_iv = iv, sequence_number = 0\<rparr>"

lemma tls_record_state_init_ok:
  "length key = 32 \<Longrightarrow> length iv = 12 \<Longrightarrow>
     tls_record_state_init (Some st) (Some key) (Some iv) = Some (0, Some (record_start key iv))"
  by (simp add: tls_record_state_init_def record_start_def rd_def)

lemma record_start_ok: "length key = 32 \<Longrightarrow> length iv = 12 \<Longrightarrow> record_ok (record_start key iv)"
  by (simp add: record_ok_def record_start_def)

lemma send_rec:
  assumes "library_correct L sha256" and "record_ok st" and "n \<noteq> 0" and "unat n \<le> 1024" and "unat n = length p"
  shows "\<exists>rc st' out w'. send_encrypted_record L (Some p) n (Some st) w = Some (rc, Some st', w') \<and>
     frame w [] out 0 w' \<and> live w' = live w \<and>
     (rc = 0 \<and> out = record_bytes L st p \<and> st' = next_seq st \<or>
      rc = - 1 \<and> st' = st \<and> (\<not> lib_up L \<or> \<not> io_fine w))"
proof -
  note gcm = library_correctD(4) [OF assms(1)]
  have le: "unat n \<le> length p" and tk: "take (unat n) p = p" using assms(5) by simp_all
  obtain rc st' w1 w' k where r: "send_encrypted_record L (Some p) n (Some st) w = Some (rc, Some st', w')"
    "lib_only w w1" "sent_to w1 (take k (record_bytes L st p)) w'"
    "rc = 0 \<and> k = 21 + unat n \<and> st' = next_seq st \<or> rc = - 1 \<and> k < 21 + unat n \<and> st' = st"
    using send_record_spec [OF gcm assms(2-4) le, of w] unfolding tk by blast
  have f: "frame w [] (take k (record_bytes L st p)) 0 w' \<and> live w' = live w"
    using frame_trans [of w "[]" "[]" 0 w1 "[]" _ 0 w'] frame_lib [OF r(2)] frame_sent [OF r(3)] by simp
  have "length (record_bytes L st p) = 21 + unat n"
    using length_record_bytes [OF gcm, of p st] assms(4,5) by simp
  then have "k = 21 + unat n \<Longrightarrow> take k (record_bytes L st p) = record_bytes L st p" by simp
  moreover have "rc = 0" if "lib_up L" "io_fine w"
    using send_record_fine [OF gcm assms(2-4) le that] r(1) by auto
  ultimately show ?thesis using r(1,4) f
    by (intro exI [of _ rc] exI [of _ st'] exI [of _ "take k (record_bytes L st p)"] exI [of _ w']) auto
qed

lemma recv_header_closed:
  assumes "peer_closed w"
  shows "\<exists>rc h t n i w'. recv_record_header (Some (local_array 5)) (Some 0) (Some 0) w =
       Some (rc, Some h, Some t, Some n, w') \<and> frame w i [] 0 w' \<and> live w' = live w \<and> length h = 5"
  using recv_all_closed [OF _ assms, of 5 "local_array 5"]
  by (auto simp: recv_record_header_def Let_def)

lemma recv_rec_closed:
  assumes "library_correct L sha256" and "record_ok st" and "unat cap \<le> length b" and "peer_closed w"
  shows "\<exists>rc b' l' st' i w'. recv_encrypted_record L (Some b) cap (Some l0) (Some st) w =
       Some (rc, Some b', Some l', Some st', w') \<and> frame w i [] 0 w' \<and> live w' = live w \<and> length b' = length b"
proof -
  note unf = recv_encrypted_record_def [of L "Some b" cap "Some l0" "Some st" w]
  obtain rc h t n i w1 where 1: "recv_record_header (Some (local_array 5)) (Some 0) (Some 0) w =
       Some (rc, Some h, Some t, Some n, w1)" "frame w i [] 0 w1" "live w1 = live w" "length h = 5"
    using recv_header_closed [OF assms(4)] by blast
  define cl where "cl = (ucast n - 16 :: size_t)"
  show ?thesis
  proof (cases "rc \<noteq> 0 \<or> t \<noteq> 23 \<or> n \<le> 16 \<or> 1024 < cl \<or> cap < cl")
    case True
    with 1 show ?thesis by (auto simp: unf cl_def Let_def)
  next
    case good: False
    then have cl: "unat cl \<le> 1024" "unat cl \<le> unat cap" by (auto simp: word_le_nat_alt not_less)
    have ti: "to_int cl = int (unat cl)" using cl(1) by (intro to_int_small) simp
    have "peer_closed w1" using frame_closed [OF 1(2)] assms(4) by simp
    then obtain r2 c j w2 where 2: "recv_all (local_array 1024) cl w1 = Some (r2, c, w2)"
      "frame w1 j [] 0 w2" "live w2 = live w1" "length c = 1024"
      using recv_all_closed [of cl "local_array 1024" w1] cl(1) by auto
    then have "peer_closed w2" using frame_closed [OF 2(2)] \<open>peer_closed w1\<close> by simp
    then obtain r3 g m w3 where 3: "recv_all (local_array 16) 16 w2 = Some (r3, g, w3)"
      "frame w2 m [] 0 w3" "live w3 = live w2" "length g = 16"
      using recv_all_closed [of 16 "local_array 16" w2] by auto
    have f2: "frame w (i @ j) [] 0 w2" and f3: "frame w (i @ j @ m) [] 0 w3"
      using frame_trans [OF 1(2) 2(2)] frame_trans [OF frame_trans [OF 1(2) 2(2)] 3(2)] by simp_all
    have k: "length (rs_key st) = 32" "length (record_nonce st) = 12"
      using assms(2) by (simp_all add: record_ok_def record_nonce_def)
    obtain d p' w4 where 4: "aes_gcm_decrypt L (Some c) (int (unat cl)) (Some h) 5 (Some g) (Some (rs_key st))
        (Some (record_nonce st)) (Some b) w3 = Some (d, Some p', w4)" "lib_only w3 w4" "length p' = length b"
      using aes_gcm_decrypt_spec [OF library_correctD(4) [OF assms(1)], of "int (unat cl)" c b 5 h "rs_key st"
          "record_nonce st" g w3] cl 2(4) 3(4) 1(4) k assms(3) by auto
    have f4: "frame w (i @ j @ m) [] 0 w4" "live w4 = live w"
      using frame_trans [OF f3, of "[]" "[]" 0 w4] frame_lib [OF 4(2)] 1(3) 2(3) 3(3) by simp_all
    have "recv_encrypted_record L (Some b) cap (Some l0) (Some st) w =
      (if r2 \<noteq> 0 then Some (r2, Some b, Some l0, Some st, w2)
       else if r3 \<noteq> 0 then Some (r3, Some b, Some l0, Some st, w3)
       else if d < 0 then Some (- 1, Some p', Some l0, Some st, w4)
       else Some (0, Some p', Some (of_int d), Some (next_seq st), w4))"
      using good 1(1) 2(1) 3(1) 4(1) unfolding cl_def
      by (simp add: unf Let_def next_seq_def record_nonce_def ti [unfolded cl_def])
    with f2 f3 f4 1(3) 2(3) 3(3) 4(3) show ?thesis by auto
  qed
qed

lemma recv_rec:
  assumes "library_correct L sha256" and "record_ok st" and "unat cap \<le> length b" and "peer_closed w"
  shows "\<exists>rc b' l' st' i w'. recv_encrypted_record L (Some b) cap (Some l0) (Some st) w =
       Some (rc, Some b', Some l', Some st', w') \<and>
     frame w i [] 0 w' \<and> live w' = live w \<and> length b' = length b \<and>
     (rc = 0 \<longrightarrow> (\<exists>pt. 0 < length pt \<and> length pt \<le> 1024 \<and> length pt \<le> unat cap \<and> i = record_bytes L st pt \<and>
        b' = pt @ drop (length pt) b \<and> l' = of_nat (length pt) \<and> st' = next_seq st)) \<and>
     (rc \<noteq> 0 \<longrightarrow> l' = l0 \<and> st' = st) \<and>
     (\<forall>pt r. lib_up L \<and> io_fine w \<and> inbox w = record_bytes L st pt @ r \<and> 0 < length pt \<and> length pt \<le> 1024 \<and>
        length pt \<le> unat cap \<longrightarrow> rc = 0)"
proof -
  note gcm = library_correctD(4) [OF assms(1)]
  obtain rc b' l' st' i w' where r: "recv_encrypted_record L (Some b) cap (Some l0) (Some st) w =
       Some (rc, Some b', Some l', Some st', w')" and f: "frame w i [] 0 w'" "live w' = live w" "length b' = length b"
    using recv_rec_closed [OF assms, of l0] by blast
  have "\<exists>pt. 0 < length pt \<and> length pt \<le> 1024 \<and> length pt \<le> unat cap \<and> i = record_bytes L st pt \<and>
        b' = pt @ drop (length pt) b \<and> l' = of_nat (length pt) \<and> st' = next_seq st" if "rc = 0"
  proof -
    from recv_record_success [OF gcm assms(2,3), of l0 w "Some b'" "Some l'" "Some st'" w'] r that
    obtain pt w2 where pt: "0 < length pt" "length pt \<le> 1024" "length pt \<le> unat cap"
      "inbox w = record_bytes L st pt @ inbox w2" "lib_only w2 w'" "b' = pt @ drop (length pt) b"
      "l' = of_nat (length pt)" "st' = next_seq st" by auto
    moreover have "inbox w = i @ inbox w'" using f(1) by (simp add: frame_def)
    ultimately show ?thesis using lib_only_frame(2) [OF pt(5)] by auto
  qed
  moreover have "rc \<noteq> 0 \<longrightarrow> l' = l0 \<and> st' = st" using recv_record_failure [OF r] by simp
  moreover have "rc = 0" if "lib_up L" "io_fine w" "inbox w = record_bytes L st pt @ s" "0 < length pt"
      "length pt \<le> 1024" "length pt \<le> unat cap" for pt s
    using recv_record_ok [OF gcm assms(2) that assms(3), of l0] r by auto
  ultimately show ?thesis using r f
    by (intro exI [of _ rc] exI [of _ b'] exI [of _ l'] exI [of _ st'] exI [of _ i] exI [of _ w']) blast
qed

subsection \<open>Counting handles\<close>

text \<open>A flag as a number of handles.\<close>

definition nb :: "bool \<Rightarrow> nat" where
  "nb b = of_bool b"

lemma nb_simps [simp]: "nb True = 1" "nb False = 0"
  by (simp_all add: nb_def)

lemma free_if_live:
  "nb held \<le> live w h \<Longrightarrow>
     free_if held h w = Some (w\<lparr>live := (live w)(h := live w h - nb held)\<rparr>)"
  by (cases held; cases w) (auto simp: release_def)

definition ptrs :: "ptr list \<Rightarrow> nat" where
  "ptrs ps = sum_list (map (\<lambda>p. nb (p \<noteq> None)) ps)"

lemma ptrs_simps [simp]: "ptrs [] = 0" "ptrs (p # ps) = nb (p \<noteq> None) + ptrs ps"
  by (simp_all add: ptrs_def)

lemma acquire_spec:
  "acquire L h w = (ok, w') \<Longrightarrow>
     frame w [] [] 0 w' \<and> live w' = (live w)(h := live w h + nb ok) \<and> (lib_up L \<longrightarrow> ok)"
  by (auto simp: acquire_def frame_def lib_up_def split: if_splits)

lemma ext_call_spec:
  "ext_call L w = (ok, w') \<Longrightarrow> frame w [] [] 0 w' \<and> live w' = live w \<and> (lib_up L \<longrightarrow> ok)"
  by (auto simp: ext_call_def frame_def lib_up_def)

lemma oqs_malloc_spec:
  "oqs_malloc L n w = (p, w') \<Longrightarrow>
     frame w [] [] 0 w' \<and> live w' = (live w)(H_OQS_MEM := live w H_OQS_MEM + nb (p \<noteq> None)) \<and>
     (lib_up L \<longrightarrow> p \<noteq> None) \<and> (\<forall>b. p = Some b \<longrightarrow> length b = unat n)"
  by (auto simp: oqs_malloc_def frame_def lib_up_def acquire_def Let_def split: if_splits)

lemma frame_trans0: "frame w i u c w1 \<Longrightarrow> frame w1 [] [] 0 w2 \<Longrightarrow> frame w i u c w2"
  using frame_trans [of w i u c w1 "[]" "[]" 0 w2] by simp

lemma key_file_len: "key_file w f n = Some k \<Longrightarrow> length k = n"
  by (auto simp: key_file_def split: option.splits if_splits)

lemma key_file_frame: "frame w0 i u d w \<Longrightarrow> key_file w f n = key_file w0 f n"
  by (simp add: key_file_def frame_files)

lemma tr_init:
  "\<exists>rc tr' w'. transcript_init L (Some tr) w = Some (rc, Some tr', w') \<and> frame w [] [] 0 w' \<and>
     (rc = 0 \<and> absorbed L tr' [] \<and> live w' = (live w)(H_MD_CTX := Suc (live w H_MD_CTX)) \<or>
      rc = - 1 \<and> ctx tr' = None \<and> live w' = live w \<and> \<not> lib_up L)"
  by (auto simp: transcript_init_def absorbed_def md_of_def env_simps Let_def lib_up_def frame_def)

lemma hs_valid_iff [simp]: "hs_valid (t, m) \<longleftrightarrow> length m \<le> 0xFFFFFF"
  by (simp add: hs_valid_def)

subsection \<open>liboqs as the endpoints use it\<close>

lemma random_call_spec:
  "random_call L w = (ok, w') \<Longrightarrow> frame w [] [] 1 w' \<and> live w' = live w \<and> (lib_up L \<longrightarrow> ok)"
  by (auto simp: random_call_def ext_call_def frame_def lib_up_def)

lemma keypair_ok:
  assumes "oqs_correct L" and "length p = unat (kem_len_pk L)" and "length s = unat (kem_len_sk L)"
  obtains ok p' s' w' where "oqs_kem_keypair L (Some p) (Some s) w = Some (ok, Some p', Some s', w')"
    "frame w [] [] 1 w'" "live w' = live w" "length p' = length p" "length s' = length s"
    "ok \<Longrightarrow> kem_keypair L (rng w) = (p', s')" "lib_up L \<Longrightarrow> ok"
proof -
  obtain ok w' where r: "random_call L w = (ok, w')" by fastforce
  define q where "q = (if ok then kem_keypair L (rng w)
    else (fresh_mem L (unat (kem_len_pk L)) w, fresh_mem L (unat (kem_len_sk L)) w))"
  have l: "length (fst q) = length p" "length (snd q) = length s"
    using assms oqs_correctD(6,7) [OF assms(1)] by (auto simp: q_def)
  have eq: "oqs_kem_keypair L (Some p) (Some s) w = Some (ok, Some (fst q), Some (snd q), w')"
    using l by (simp add: oqs_kem_keypair_def r flip: q_def) (simp add: case_prod_beta wr_all)
  show thesis by (rule that [OF eq]) (use random_call_spec [OF r] l in \<open>auto simp: q_def\<close>)
qed

text \<open>The signature scheme's key generation keeps to its sizes.\<close>

definition sig_sizes :: "('c, 'm) lib \<Rightarrow> bool" where
  "sig_sizes L \<longleftrightarrow> (\<forall>n. length (fst (sig_keypair L n)) = unat (sig_len_pk L) \<and>
     length (snd (sig_keypair L n)) = unat (sig_len_sk L))"

lemma sample_sig_sizes: "sig_sizes sample_lib" "sig_sizes (failing_lib n)"
  by (simp_all add: sig_sizes_def failing_lib_def)

lemma sig_keypair_ok:
  assumes "sig_sizes L" and "length p = unat (sig_len_pk L)" and "length s = unat (sig_len_sk L)"
  obtains ok p' s' w' where "oqs_sig_keypair L (Some p) (Some s) w = Some (ok, Some p', Some s', w')"
    "frame w [] [] 1 w'" "live w' = live w" "length p' = length p" "length s' = length s"
    "ok \<Longrightarrow> sig_keypair L (rng w) = (p', s')" "lib_up L \<Longrightarrow> ok"
proof -
  obtain ok w' where r: "random_call L w = (ok, w')" by fastforce
  define q where "q = (if ok then sig_keypair L (rng w)
    else (fresh_mem L (unat (sig_len_pk L)) w, fresh_mem L (unat (sig_len_sk L)) w))"
  have l: "length (fst q) = length p" "length (snd q) = length s"
    using assms by (auto simp: q_def sig_sizes_def)
  have eq: "oqs_sig_keypair L (Some p) (Some s) w = Some (ok, Some (fst q), Some (snd q), w')"
    using l by (simp add: oqs_sig_keypair_def r flip: q_def) (simp add: case_prod_beta wr_all)
  show thesis by (rule that [OF eq]) (use random_call_spec [OF r] l in \<open>auto simp: q_def\<close>)
qed

lemma encaps_ok:
  assumes "oqs_correct L" and "length pk = unat (kem_len_pk L)" and "length c = unat (kem_len_ct L)"
    and "length k = unat (kem_len_ss L)"
  obtains ok c' k' w' where "oqs_kem_encaps L (Some c) (Some k) (Some pk) w = Some (ok, Some c', Some k', w')"
    "frame w [] [] 1 w'" "live w' = live w" "length c' = length c" "length k' = length k"
    "ok \<Longrightarrow> kem_encaps L (rng w) pk = (c', k')" "lib_up L \<Longrightarrow> ok"
proof -
  obtain ok w' where r: "random_call L w = (ok, w')" by fastforce
  define q where "q = (if ok then kem_encaps L (rng w) pk
    else (fresh_mem L (unat (kem_len_ct L)) w, fresh_mem L (unat (kem_len_ss L)) w))"
  have l: "length (fst q) = length c" "length (snd q) = length k"
    using assms oqs_correctD(8,9) [OF assms(1)] by (auto simp: q_def)
  have "rd pk 0 (unat (kem_len_pk L)) = Some pk" unfolding assms(2) [symmetric] by simp
  then have eq: "oqs_kem_encaps L (Some c) (Some k) (Some pk) w = Some (ok, Some (fst q), Some (snd q), w')"
    using l by (simp add: oqs_kem_encaps_def r flip: q_def) (simp add: case_prod_beta wr_all)
  show thesis by (rule that [OF eq]) (use random_call_spec [OF r] l in \<open>auto simp: q_def\<close>)
qed

lemma decaps_ok:
  assumes "oqs_correct L" and "length c = unat (kem_len_ct L)" and "length sk = unat (kem_len_sk L)"
    and "length k = unat (kem_len_ss L)"
  obtains ok k' w' where "oqs_kem_decaps L (Some k) (Some c) (Some sk) w = Some (ok, Some k', w')"
    "frame w [] [] 0 w'" "live w' = live w" "length k' = length k"
    "ok \<Longrightarrow> k' = kem_decaps L c sk" "lib_up L \<Longrightarrow> ok"
proof -
  obtain ok w' where r: "ext_call L w = (ok, w')" by fastforce
  define q where "q = (if ok then kem_decaps L c sk else fresh_mem L (unat (kem_len_ss L)) w)"
  have l: "length q = length k" using assms oqs_correctD(10) [OF assms(1)] by (auto simp: q_def)
  have "rd c 0 (unat (kem_len_ct L)) = Some c" "rd sk 0 (unat (kem_len_sk L)) = Some sk"
    unfolding assms(2,3) [symmetric] by simp_all
  then have eq: "oqs_kem_decaps L (Some k) (Some c) (Some sk) w = Some (ok, Some q, w')"
    using l by (simp add: oqs_kem_decaps_def r wr_all flip: q_def)
  show thesis by (rule that [OF eq]) (use ext_call_spec [OF r] l in \<open>auto simp: q_def\<close>)
qed

lemma sign_ok:
  assumes "oqs_correct L" and "length m = unat n" and "length sk = unat (sig_len_sk L)"
    and "length b = unat (sig_len_sig L)"
  obtains ok b' l' w' where "oqs_sig_sign L (Some b) l m n (Some sk) w = Some (ok, Some b', l', w')"
    "frame w [] [] 1 w'" "live w' = live w" "length b' = length b"
    "ok \<Longrightarrow> take (unat l') b' = sig_sign L (rng w) m sk \<and> unat l' = length (sig_sign L (rng w) m sk) \<and>
       unat l' \<le> length b" "lib_up L \<Longrightarrow> ok"
proof -
  obtain ok w' where r: "random_call L w = (ok, w')" by fastforce
  define q where "q = (if ok then sig_sign L (rng w) m sk else fresh_mem L (unat (sig_len_sig L)) w)"
  have l: "length q \<le> length b" using assms oqs_correctD(12) [OF assms(1)] by (auto simp: q_def)
  have u: "unat (of_nat (length q) :: size_t) = length q"
    using l assms(4) oqs_correctD(4) [OF assms(1)] by (intro unat_of_nat_size_t) simp
  have "rd m 0 (unat n) = Some m" "rd sk 0 (unat (sig_len_sk L)) = Some sk"
    unfolding assms(2,3) [symmetric] by simp_all
  then have eq: "oqs_sig_sign L (Some b) l m n (Some sk) w =
      Some (ok, Some (q @ drop (length q) b), if ok then of_nat (length q) else l, w')"
    using l by (simp add: oqs_sig_sign_def r wr_def flip: q_def)
  show thesis by (rule that [OF eq]) (use random_call_spec [OF r] l u in \<open>auto simp: q_def\<close>)
qed

lemma verify_ok:
  assumes "length m = unat n" and "unat k \<le> length b" and "length pk = unat (sig_len_pk L)"
  obtains ok w' where "oqs_sig_verify L m n (Some b) k (Some pk) w = Some (ok, w')"
    "frame w [] [] 0 w'" "live w' = live w" "ok \<Longrightarrow> sig_verify L m (take (unat k) b) pk"
    "lib_up L \<Longrightarrow> sig_verify L m (take (unat k) b) pk \<Longrightarrow> ok"
proof -
  obtain ok w' where r: "ext_call L w = (ok, w')" by fastforce
  have "rd m 0 (unat n) = Some m" "rd pk 0 (unat (sig_len_pk L)) = Some pk" "rd b 0 (unat k) = Some (take (unat k) b)"
    using assms(2) unfolding assms(1,3) [symmetric] by (simp_all add: rd_def)
  then have eq: "oqs_sig_verify L m n (Some b) k (Some pk) w = Some (ok \<and> sig_verify L m (take (unat k) b) pk, w')"
    by (simp add: oqs_sig_verify_def r)
  show thesis by (rule that [OF eq]) (use ext_call_spec [OF r] in auto)
qed

end
