(* ===== verification/Protocol.thy ===== *)
theory Protocol
  imports Endpoint
begin

section \<open>The protocol, abstractly\<close>

text \<open>
  What one run of the handshake is about, apart from how the programs get there: the values
  the two sides exchange, the messages they make, the Finished values, the session keys and the
  byte streams in the two directions. Both endpoint programs are proved against these
  functions, and so against each other.
\<close>

record handshake =
  hv_pk :: bytes
  hv_ct :: bytes
  hv_ss :: bytes
  hv_cert :: bytes
  hv_sig :: bytes

definition hello_log :: "handshake \<Rightarrow> bytes list" where
  "hello_log h = [hs_msg (msg_code TLS_MSG_CLIENT_HELLO) (hv_pk h),
     hs_msg (msg_code TLS_MSG_SERVER_HELLO) (hv_ct h), hs_msg (msg_code TLS_MSG_CERTIFICATE) (hv_cert h)]"

definition signed_hash :: "(bytes \<Rightarrow> bytes) \<Rightarrow> handshake \<Rightarrow> bytes" where
  "signed_hash sha256 h = sha256 (concat (hello_log h))"

definition cv_msg :: "handshake \<Rightarrow> bytes" where
  "cv_msg h = hs_msg (msg_code TLS_MSG_CERTIFICATE_VERIFY) (hv_sig h)"

definition server_fin :: "('c, 'm) lib \<Rightarrow> (bytes \<Rightarrow> bytes) \<Rightarrow> handshake \<Rightarrow> bytes" where
  "server_fin L sha256 h =
     finished_mac L (hv_ss h) TLS_SERVER_FINISHED_LABEL (sha256 (concat (hello_log h @ [cv_msg h])))"

definition sf_msg :: "('c, 'm) lib \<Rightarrow> (bytes \<Rightarrow> bytes) \<Rightarrow> handshake \<Rightarrow> bytes" where
  "sf_msg L sha256 h = hs_msg (msg_code TLS_MSG_FINISHED) (server_fin L sha256 h)"

definition client_fin :: "('c, 'm) lib \<Rightarrow> (bytes \<Rightarrow> bytes) \<Rightarrow> handshake \<Rightarrow> bytes" where
  "client_fin L sha256 h =
     finished_mac L (hv_ss h) TLS_CLIENT_FINISHED_LABEL
       (sha256 (concat (hello_log h @ [cv_msg h, sf_msg L sha256 h])))"

definition cf_msg :: "('c, 'm) lib \<Rightarrow> (bytes \<Rightarrow> bytes) \<Rightarrow> handshake \<Rightarrow> bytes" where
  "cf_msg L sha256 h = hs_msg (msg_code TLS_MSG_FINISHED) (client_fin L sha256 h)"

definition session_keys :: "('c, 'm) lib \<Rightarrow> (bytes \<Rightarrow> bytes) \<Rightarrow> handshake \<Rightarrow> tls_application_keys" where
  "session_keys L sha256 h =
     app_keys L (hv_ss h) (sha256 (concat (hello_log h @ [cv_msg h, sf_msg L sha256 h, cf_msg L sha256 h])))"

text \<open>The states of the two directions when the keys have been installed, and the first record of
  each.\<close>

definition client_dir :: "('c, 'm) lib \<Rightarrow> (bytes \<Rightarrow> bytes) \<Rightarrow> handshake \<Rightarrow> tls_record_state" where
  "client_dir L sha256 h = record_start (client_key (session_keys L sha256 h)) (client_iv (session_keys L sha256 h))"

definition server_dir :: "('c, 'm) lib \<Rightarrow> (bytes \<Rightarrow> bytes) \<Rightarrow> handshake \<Rightarrow> tls_record_state" where
  "server_dir L sha256 h = record_start (server_key (session_keys L sha256 h)) (server_iv (session_keys L sha256 h))"

definition client_record :: "('c, 'm) lib \<Rightarrow> (bytes \<Rightarrow> bytes) \<Rightarrow> handshake \<Rightarrow> bytes \<Rightarrow> bytes" where
  "client_record L sha256 h = record_bytes L (client_dir L sha256 h)"

definition server_record :: "('c, 'm) lib \<Rightarrow> (bytes \<Rightarrow> bytes) \<Rightarrow> handshake \<Rightarrow> bytes \<Rightarrow> bytes" where
  "server_record L sha256 h = record_bytes L (server_dir L sha256 h)"

text \<open>Everything the client writes, and everything the server writes, with one message each.\<close>

definition client_stream :: "('c, 'm) lib \<Rightarrow> (bytes \<Rightarrow> bytes) \<Rightarrow> handshake \<Rightarrow> bytes \<Rightarrow> bytes" where
  "client_stream L sha256 h msg =
     hs_msg (msg_code TLS_MSG_CLIENT_HELLO) (hv_pk h) @ cf_msg L sha256 h @ client_record L sha256 h msg"

definition server_stream :: "('c, 'm) lib \<Rightarrow> (bytes \<Rightarrow> bytes) \<Rightarrow> handshake \<Rightarrow> bytes \<Rightarrow> bytes" where
  "server_stream L sha256 h msg =
     hs_msg (msg_code TLS_MSG_SERVER_HELLO) (hv_ct h) @ hs_msg (msg_code TLS_MSG_CERTIFICATE) (hv_cert h) @
     cv_msg h @ sf_msg L sha256 h @ server_record L sha256 h msg"

definition client_message :: bytes where
  "client_message = cstr ''Hello Secure PQC from Client!''"

definition server_message :: bytes where
  "server_message = cstr ''Hello Secure PQC from Server!''"

lemma length_fin:
  assumes "library_correct L sha256"
  shows "length (server_fin L sha256 h) = 32" "length (client_fin L sha256 h) = 32"
  using library_correctD(3) [OF assms] by (simp_all add: server_fin_def client_fin_def finished_mac_def hmac_correct_def)

lemma session_keys_len:
  assumes "library_correct L sha256"
  shows "length (client_key (session_keys L sha256 h)) = 32" "length (server_key (session_keys L sha256 h)) = 32"
    "length (client_iv (session_keys L sha256 h)) = 12" "length (server_iv (session_keys L sha256 h)) = 12"
  unfolding session_keys_def by (rule app_keys_len [OF assms])+

lemma dir_ok: "library_correct L sha256 \<Longrightarrow> record_ok (client_dir L sha256 h) \<and> record_ok (server_dir L sha256 h)"
  by (simp add: client_dir_def server_dir_def record_start_ok session_keys_len)

text \<open>The stream of a client determines its key and its message.\<close>

lemma client_stream_cancel:
  assumes lib: "library_correct L sha256"
    and "length (hv_pk g) \<le> 0xFFFFFF" "length (hv_pk h) \<le> 0xFFFFFF" and "hv_pk g = hv_pk h \<Longrightarrow> g = h"
    and "0 < length p" "length p \<le> 1024" "0 < length q" "length q \<le> 1024"
    and eq: "client_stream L sha256 g p @ r = client_stream L sha256 h q @ r'"
  shows "g = h \<and> p = q \<and> r = r'"
proof -
  have "hv_pk g = hv_pk h"
    using hs_cancel [of 1 "hv_pk g" 1 "hv_pk h"] assms(2,3) eq by (auto simp: client_stream_def)
  then have gh: "g = h" by (rule assms(4))
  with eq have "client_record L sha256 h p @ r = client_record L sha256 h q @ r'"
    by (simp add: client_stream_def)
  with record_bytes_cancel [OF library_correctD(4) [OF lib] conjunct1 [OF dir_ok [OF lib]] assms(5-8)] gh
  show ?thesis unfolding client_record_def by blast
qed

text \<open>The stream of a server determines what it sent.\<close>

lemma server_stream_cancel:
  assumes lib: "library_correct L sha256"
    and g: "length (hv_ct g) \<le> 0xFFFFFF" "length (hv_cert g) \<le> 0xFFFFFF" "length (hv_sig g) \<le> 0xFFFFFF"
    and h: "length (hv_ct h) \<le> 0xFFFFFF" "length (hv_cert h) \<le> 0xFFFFFF" "length (hv_sig h) \<le> 0xFFFFFF"
    and gh: "hv_ct g = hv_ct h \<Longrightarrow> hv_cert g = hv_cert h \<Longrightarrow> hv_sig g = hv_sig h \<Longrightarrow> g = h"
    and len: "0 < length p" "length p \<le> 1024" "0 < length q" "length q \<le> 1024"
    and eq: "server_stream L sha256 g p @ r = server_stream L sha256 h q @ r'"
  shows "g = h \<and> p = q \<and> r = r'"
proof -
  note s = eq [unfolded server_stream_def cv_msg_def msg_code.simps append_assoc]
  have 1: "hs_valid (2, hv_ct g)" "hs_valid (2, hv_ct h)" "hs_valid (11, hv_cert g)" "hs_valid (11, hv_cert h)"
    "hs_valid (15, hv_sig g)" "hs_valid (15, hv_sig h)" using g h by simp_all
  note a = hs_cancel [OF 1(1,2) s]
  note b = hs_cancel [OF 1(3,4) conjunct2 [OF conjunct2 [OF a]]]
  note c = hs_cancel [OF 1(5,6) conjunct2 [OF conjunct2 [OF b]]]
  have e: "g = h" by (rule gh) (use a b c in blast)+
  with eq have "server_record L sha256 h p @ r = server_record L sha256 h q @ r'"
    by (simp add: server_stream_def)
  with record_bytes_cancel [OF library_correctD(4) [OF lib] conjunct2 [OF dir_ok [OF lib]] len] e
  show ?thesis unfolding server_record_def by blast
qed

text \<open>What a client with the key pair of draw \<open>n\<close> makes of what it received.\<close>

definition client_view :: "('c, 'm) lib \<Rightarrow> nat \<Rightarrow> bytes \<Rightarrow> bytes \<Rightarrow> bytes \<Rightarrow> handshake" where
  "client_view L n ct cert sg =
     \<lparr>hv_pk = fst (kem_keypair L n), hv_ct = ct, hv_ss = kem_decaps L ct (snd (kem_keypair L n)),
      hv_cert = cert, hv_sig = sg\<rparr>"

lemma client_view_sel [simp]:
  "hv_pk (client_view L n ct cert sg) = fst (kem_keypair L n)" "hv_ct (client_view L n ct cert sg) = ct"
  "hv_ss (client_view L n ct cert sg) = kem_decaps L ct (snd (kem_keypair L n))"
  "hv_cert (client_view L n ct cert sg) = cert" "hv_sig (client_view L n ct cert sg) = sg"
  by (simp_all add: client_view_def)

text \<open>The choices of a server with signing key \<open>sk\<close> and certificate \<open>cert\<close> whose generator has made
  \<open>n\<close> draws, answering a client that sends \<open>pk\<close>.\<close>

definition server_view :: "('c, 'm) lib \<Rightarrow> (bytes \<Rightarrow> bytes) \<Rightarrow> nat \<Rightarrow> bytes \<Rightarrow> bytes \<Rightarrow> bytes \<Rightarrow> handshake" where
  "server_view L sha256 n sk cert pk =
     (let (ct, ss) = kem_encaps L n pk;
          h = \<lparr>hv_pk = pk, hv_ct = ct, hv_ss = ss, hv_cert = cert, hv_sig = []\<rparr>
      in h\<lparr>hv_sig := sig_sign L (Suc n) (signed_hash sha256 h) sk\<rparr>)"

lemma server_view_sel [simp]:
  "hv_pk (server_view L sha256 n sk cert pk) = pk"
  "hv_ct (server_view L sha256 n sk cert pk) = fst (kem_encaps L n pk)"
  "hv_ss (server_view L sha256 n sk cert pk) = snd (kem_encaps L n pk)"
  "hv_cert (server_view L sha256 n sk cert pk) = cert"
  by (simp_all add: server_view_def Let_def split: prod.splits)

lemma server_view_sig:
  "hv_sig (server_view L sha256 n sk cert pk) =
     sig_sign L (Suc n) (signed_hash sha256 (server_view L sha256 n sk cert pk)) sk"
  by (simp add: server_view_def Let_def signed_hash_def hello_log_def split: prod.splits)

end
