(* ===== verification/Secure_Server.thy ===== *)
theory Secure_Server
  imports Protocol
begin

section \<open>The server (\<open>network/secure_server.c\<close>)\<close>

text \<open>
  \<open>main\<close> as a sequence of phases on its local variables: each numbered block of the source is a
  phase, and a \<open>goto end\<close> stops the sequence. A descriptor and the OQS objects are booleans
  (opened or not, \<open>NULL\<close> or not), buffers on the heap are pointers, arrays are byte lists.
\<close>

abbreviation PUBLIC_KEY_FILE :: string where "PUBLIC_KEY_FILE \<equiv> ''keys/server_mldsa_public.key''"
abbreviation SECRET_KEY_FILE :: string where "SECRET_KEY_FILE \<equiv> ''keys/server_mldsa_secret.key''"

record 'm server =
  sv_listenfd :: bool
  sv_connfd :: bool
  sv_ret :: int
  sv_transcript_initialized :: bool
  sv_sig :: bool
  sv_sig_secret_key :: ptr
  sv_sig_public_key :: ptr
  sv_signature :: ptr
  sv_signature_length :: size_t
  sv_kem :: bool
  sv_kem_public_key :: ptr
  sv_ciphertext :: ptr
  sv_shared_secret :: ptr
  sv_application_keys :: tls_application_keys
  sv_body_len :: size_t
  sv_transcript :: "'m tls_transcript"
  sv_transcript_hash :: bytes
  sv_transcript_hash_len :: size_t
  sv_server_finished :: bytes
  sv_client_finished :: bytes
  sv_expected_client_finished :: bytes
  sv_send_state :: tls_record_state
  sv_recv_state :: tls_record_state
  sv_plaintext :: bytes
  sv_plaintext_len :: size_t

definition server_locals :: "'m server" where
  "server_locals = \<lparr>sv_listenfd = False, sv_connfd = False, sv_ret = EXIT_FAILURE,
     sv_transcript_initialized = False, sv_sig = False, sv_sig_secret_key = None,
     sv_sig_public_key = None, sv_signature = None, sv_signature_length = 0, sv_kem = False,
     sv_kem_public_key = None, sv_ciphertext = None, sv_shared_secret = None,
     sv_application_keys = zero_keys, sv_body_len = 0, sv_transcript = \<lparr>ctx = None\<rparr>,
     sv_transcript_hash = local_array 32, sv_transcript_hash_len = 0,
     sv_server_finished = local_array 32, sv_client_finished = local_array 32,
     sv_expected_client_finished = local_array 32,
     sv_send_state = \<lparr>rs_key = local_array 32, rs_static_iv = local_array 12, sequence_number = 0\<rparr>,
     sv_recv_state = \<lparr>rs_key = local_array 32, rs_static_iv = local_array 12, sequence_number = 0\<rparr>,
     sv_plaintext = local_array 1024, sv_plaintext_len = 0\<rparr>"

subsection \<open>Set-up\<close>

definition server_new_sig :: "('c, 'm) lib \<Rightarrow> 'm server phase" where
  "server_new_sig L s w =
     (let (ok, w) = acquire L H_SIG w in Some (ok, s\<lparr>sv_sig := ok\<rparr>, w))"

definition server_alloc_sig :: "('c, 'm) lib \<Rightarrow> 'm server phase" where
  "server_alloc_sig L s w =
     (let (p1, w) = oqs_malloc L (sig_len_sk L) w;
          (p2, w) = oqs_malloc L (sig_len_pk L) w;
          (p3, w) = oqs_malloc L (sig_len_sig L) w;
          s = s\<lparr>sv_sig_secret_key := p1, sv_sig_public_key := p2, sv_signature := p3\<rparr>
      in Some (\<not> (p1 = None \<or> p2 = None \<or> p3 = None), s, w))"

definition server_load_keys :: "('c, 'm) lib \<Rightarrow> 'm server phase" where
  "server_load_keys L s w =
     do {
       (rc, p, w) \<leftarrow> load_file L SECRET_KEY_FILE (sv_sig_secret_key s) (sig_len_sk L) w;
       let s = s\<lparr>sv_sig_secret_key := p\<rparr>;
       if rc \<noteq> 0 then Some (False, s, w)
       else do {
         (rc, p, w) \<leftarrow> load_file L PUBLIC_KEY_FILE (sv_sig_public_key s) (sig_len_pk L) w;
         let s = s\<lparr>sv_sig_public_key := p\<rparr>;
         if rc \<noteq> 0 then Some (False, s, w) else Some (True, s, w)
       }
     }"

definition server_new_kem :: "('c, 'm) lib \<Rightarrow> 'm server phase" where
  "server_new_kem L s w =
     (let (ok, w) = acquire L H_KEM w; s = s\<lparr>sv_kem := ok\<rparr>
      in if \<not> ok then Some (False, s, w)
         else
           (let (p1, w) = oqs_malloc L (kem_len_pk L) w;
                (p2, w) = oqs_malloc L (kem_len_ct L) w;
                (p3, w) = oqs_malloc L (kem_len_ss L) w;
                s = s\<lparr>sv_kem_public_key := p1, sv_ciphertext := p2, sv_shared_secret := p3\<rparr>
            in Some (\<not> (p1 = None \<or> p2 = None \<or> p3 = None), s, w)))"

definition server_accept :: "('c, 'm) lib \<Rightarrow> 'm server phase" where
  "server_accept L s w =
     (let (ok, w) = acquire L H_SOCKET w; s = s\<lparr>sv_listenfd := ok\<rparr>
      in if \<not> ok then Some (False, s, w)
         else
           (let (ok, w) = ext_call L w
            in if \<not> ok then Some (False, s, w)
               else
                 (let (ok, w) = ext_call L w
                  in if \<not> ok then Some (False, s, w)
                     else
                       (let (ok, w) = ext_call L w
                        in if \<not> ok then Some (False, s, w)
                           else (let (ok, w) = acquire L H_SOCKET w
                                 in Some (ok, s\<lparr>sv_connfd := ok\<rparr>, w))))))"

definition server_init_transcript :: "('c, 'm) lib \<Rightarrow> 'm server phase" where
  "server_init_transcript L s w =
     do {
       (rc, tr, w) \<leftarrow> transcript_init L (Some (sv_transcript s)) w;
       tr \<leftarrow> tr;
       let s = s\<lparr>sv_transcript := tr\<rparr>;
       if rc \<noteq> 0 then Some (False, s, w)
       else Some (True, s\<lparr>sv_transcript_initialized := True\<rparr>, w)
     }"

subsection \<open>Handshake\<close>

text \<open>The two calls every message goes through: into the transcript, and the current hash.\<close>

definition server_update ::
  "('c, 'm) lib \<Rightarrow> byte \<Rightarrow> ptr \<Rightarrow> size_t \<Rightarrow> 'm server phase" where
  "server_update L t body body_len s w =
     do {
       (rc, tr, w) \<leftarrow> transcript_update_handshake_msg L (Some (sv_transcript s)) t body body_len w;
       tr \<leftarrow> tr;
       Some (rc = 0, s\<lparr>sv_transcript := tr\<rparr>, w)
     }"

definition server_hash :: "('c, 'm) lib \<Rightarrow> 'm server phase" where
  "server_hash L s w =
     do {
       (rc, tr, h, l, w) \<leftarrow> transcript_get_hash L (Some (sv_transcript s)) (Some (sv_transcript_hash s))
         TLS_TRANSCRIPT_HASH_LEN (Some (sv_transcript_hash_len s)) w;
       tr \<leftarrow> tr;
       h \<leftarrow> h;
       l \<leftarrow> l;
       Some (rc = 0, s\<lparr>sv_transcript := tr, sv_transcript_hash := h, sv_transcript_hash_len := l\<rparr>, w)
     }"

definition server_client_hello :: "('c, 'm) lib \<Rightarrow> 'm server phase" where
  "server_client_hello L s w =
     do {
       (received_bytes, p, l, w) \<leftarrow> recv_handshake_msg (msg_code TLS_MSG_CLIENT_HELLO)
          (sv_kem_public_key s) (kem_len_pk L) (Some (sv_body_len s)) w;
       l \<leftarrow> l;
       let s = s\<lparr>sv_kem_public_key := p, sv_body_len := l\<rparr>;
       if received_bytes = - 1 then Some (False, s, w)
       else if received_bytes = 1 then Some (False, s, w)
       else if sv_body_len s \<noteq> kem_len_pk L then Some (False, s, w)
       else server_update L (msg_code TLS_MSG_CLIENT_HELLO) (sv_kem_public_key s) (kem_len_pk L) s w
     }"

definition server_hello :: "('c, 'm) lib \<Rightarrow> 'm server phase" where
  "server_hello L s w =
     do {
       (ok, c, k, w) \<leftarrow> oqs_kem_encaps L (sv_ciphertext s) (sv_shared_secret s) (sv_kem_public_key s) w;
       let s = s\<lparr>sv_ciphertext := c, sv_shared_secret := k\<rparr>;
       if \<not> ok then Some (False, s, w)
       else do {
         (rc, w) \<leftarrow> send_handshake_msg (msg_code TLS_MSG_SERVER_HELLO) (sv_ciphertext s) (kem_len_ct L) w;
         if rc = - 1 then Some (False, s, w)
         else server_update L (msg_code TLS_MSG_SERVER_HELLO) (sv_ciphertext s) (kem_len_ct L) s w
       }
     }"

definition server_certificate :: "('c, 'm) lib \<Rightarrow> 'm server phase" where
  "server_certificate L s w =
     do {
       (rc, w) \<leftarrow> send_handshake_msg (msg_code TLS_MSG_CERTIFICATE) (sv_sig_public_key s) (sig_len_pk L) w;
       if rc = - 1 then Some (False, s, w)
       else server_update L (msg_code TLS_MSG_CERTIFICATE) (sv_sig_public_key s) (sig_len_pk L) s w
     }"

definition server_certificate_verify :: "('c, 'm) lib \<Rightarrow> 'm server phase" where
  "server_certificate_verify L s w =
     do {
       (ok, s, w) \<leftarrow> server_hash L s w;
       if \<not> ok then Some (False, s, w)
       else do {
         (ok, g, n, w) \<leftarrow> oqs_sig_sign L (sv_signature s) (sv_signature_length s)
            (sv_transcript_hash s) (sv_transcript_hash_len s) (sv_sig_secret_key s) w;
         let s = s\<lparr>sv_signature := g, sv_signature_length := n\<rparr>;
         if \<not> ok then Some (False, s, w)
         else do {
           (rc, w) \<leftarrow> send_handshake_msg (msg_code TLS_MSG_CERTIFICATE_VERIFY) (sv_signature s)
              (sv_signature_length s) w;
           if rc = - 1 then Some (False, s, w)
           else server_update L (msg_code TLS_MSG_CERTIFICATE_VERIFY) (sv_signature s)
                  (sv_signature_length s) s w
         }
       }
     }"

definition server_send_finished :: "('c, 'm) lib \<Rightarrow> 'm server phase" where
  "server_send_finished L s w =
     do {
       (ok, s, w) \<leftarrow> server_hash L s w;
       if \<not> ok then Some (False, s, w)
       else do {
         (rc, f, fk, w) \<leftarrow> compute_finished_verify_data L (sv_shared_secret s) (kem_len_ss L)
            (Some TLS_SERVER_FINISHED_LABEL) (Some (sv_transcript_hash s)) (sv_transcript_hash_len s)
            (Some (sv_server_finished s)) TLS_FINISHED_VERIFY_DATA_LEN w;
         f \<leftarrow> f;
         let s = s\<lparr>sv_server_finished := f\<rparr>;
         if rc \<noteq> 0 then Some (False, s, w)
         else do {
           (rc, w) \<leftarrow> send_handshake_msg (msg_code TLS_MSG_FINISHED) (Some (sv_server_finished s))
              TLS_FINISHED_VERIFY_DATA_LEN w;
           if rc = - 1 then Some (False, s, w)
           else server_update L (msg_code TLS_MSG_FINISHED) (Some (sv_server_finished s))
                  TLS_FINISHED_VERIFY_DATA_LEN s w
         }
       }
     }"

definition server_recv_finished :: "('c, 'm) lib \<Rightarrow> 'm server phase" where
  "server_recv_finished L s w =
     do {
       (received_bytes, f, l, w) \<leftarrow> recv_handshake_msg (msg_code TLS_MSG_FINISHED)
          (Some (sv_client_finished s)) TLS_FINISHED_VERIFY_DATA_LEN (Some (sv_body_len s)) w;
       f \<leftarrow> f;
       l \<leftarrow> l;
       let s = s\<lparr>sv_client_finished := f, sv_body_len := l\<rparr>;
       if received_bytes = - 1 then Some (False, s, w)
       else if received_bytes = 1 then Some (False, s, w)
       else if sv_body_len s \<noteq> TLS_FINISHED_VERIFY_DATA_LEN then Some (False, s, w)
       else do {
         (ok, s, w) \<leftarrow> server_hash L s w;
         if \<not> ok then Some (False, s, w)
         else do {
           (rc, f, fk, w) \<leftarrow> compute_finished_verify_data L (sv_shared_secret s) (kem_len_ss L)
              (Some TLS_CLIENT_FINISHED_LABEL) (Some (sv_transcript_hash s)) (sv_transcript_hash_len s)
              (Some (sv_expected_client_finished s)) TLS_FINISHED_VERIFY_DATA_LEN w;
           f \<leftarrow> f;
           let s = s\<lparr>sv_expected_client_finished := f\<rparr>;
           if rc \<noteq> 0 then Some (False, s, w)
           else do {
             a \<leftarrow> rd (sv_client_finished s) 0 (unat TLS_FINISHED_VERIFY_DATA_LEN);
             b \<leftarrow> rd (sv_expected_client_finished s) 0 (unat TLS_FINISHED_VERIFY_DATA_LEN);
             if a \<noteq> b then Some (False, s, w)
             else server_update L (msg_code TLS_MSG_FINISHED) (Some (sv_client_finished s))
                    TLS_FINISHED_VERIFY_DATA_LEN s w
           }
         }
       }
     }"

subsection \<open>Application data\<close>

definition server_application_keys :: "('c, 'm) lib \<Rightarrow> 'm server phase" where
  "server_application_keys L s w =
     do {
       (ok, s, w) \<leftarrow> server_hash L s w;
       if \<not> ok then Some (False, s, w)
       else do {
         (rc, ks, w) \<leftarrow> derive_application_keys L (sv_shared_secret s) (kem_len_ss L)
            (Some (sv_transcript_hash s)) (sv_transcript_hash_len s) (Some (sv_application_keys s)) w;
         ks \<leftarrow> ks;
         let s = s\<lparr>sv_application_keys := ks\<rparr>;
         if rc \<noteq> 0 then Some (False, s, w)
         else do {
           (rc, r) \<leftarrow> tls_record_state_init (Some (sv_recv_state s)) (Some (client_key ks)) (Some (client_iv ks));
           r \<leftarrow> r;
           let s = s\<lparr>sv_recv_state := r\<rparr>;
           if rc \<noteq> 0 then Some (False, s, w)
           else do {
             (rc, r) \<leftarrow> tls_record_state_init (Some (sv_send_state s)) (Some (server_key ks)) (Some (server_iv ks));
             r \<leftarrow> r;
             Some (rc = 0, s\<lparr>sv_send_state := r\<rparr>, w)
           }
         }
       }
     }"

definition server_recv_data :: "('c, 'm) lib \<Rightarrow> 'm server phase" where
  "server_recv_data L s w =
     do {
       (rc, p, l, r, w) \<leftarrow> recv_encrypted_record L (Some (sv_plaintext s)) (1024 - 1)
          (Some (sv_plaintext_len s)) (Some (sv_recv_state s)) w;
       p \<leftarrow> p;
       l \<leftarrow> l;
       r \<leftarrow> r;
       let s = s\<lparr>sv_plaintext := p, sv_plaintext_len := l, sv_recv_state := r\<rparr>;
       if rc \<noteq> 0 then Some (False, s, w)
       else do {
         p \<leftarrow> wr (sv_plaintext s) (unat (sv_plaintext_len s)) [0];
         Some (True, s\<lparr>sv_plaintext := p\<rparr>, w)
       }
     }"

definition server_send_data :: "('c, 'm) lib \<Rightarrow> 'm server phase" where
  "server_send_data L s w =
     do {
       (rc, r, w) \<leftarrow> send_encrypted_record L (Some server_message) (of_nat (length server_message))
          (Some (sv_send_state s)) w;
       r \<leftarrow> r;
       let s = s\<lparr>sv_send_state := r\<rparr>;
       if rc \<noteq> 0 then Some (False, s, w)
       else Some (True, s\<lparr>sv_ret := EXIT_SUCCESS\<rparr>, w)
     }"

subsection \<open>The end\<close>

definition server_cleanup_mlkem :: "ptr \<Rightarrow> ptr \<Rightarrow> ptr \<Rightarrow> bool \<Rightarrow> world \<Rightarrow> world option" where
  "server_cleanup_mlkem shared_secret kem_public_key ciphertext kem w =
     do {
       w \<leftarrow> (if kem then oqs_free shared_secret w else Some w);
       w \<leftarrow> oqs_free kem_public_key w;
       w \<leftarrow> oqs_free ciphertext w;
       free_if kem H_KEM w
     }"

definition server_cleanup_mldsa :: "ptr \<Rightarrow> ptr \<Rightarrow> ptr \<Rightarrow> bool \<Rightarrow> world \<Rightarrow> world option" where
  "server_cleanup_mldsa sig_secret_key sig_public_key signature sig w =
     do {
       w \<leftarrow> (if sig then oqs_free sig_secret_key w else Some w);
       w \<leftarrow> oqs_free sig_public_key w;
       w \<leftarrow> oqs_free signature w;
       free_if sig H_SIG w
     }"

definition server_end :: "'m server \<Rightarrow> world \<Rightarrow> (int \<times> 'm server \<times> world) option" where
  "server_end s w =
     do {
       w \<leftarrow> free_if (sv_connfd s) H_SOCKET w;
       w \<leftarrow> free_if (sv_listenfd s) H_SOCKET w;
       (tr, w) \<leftarrow> (if sv_transcript_initialized s then transcript_free (Some (sv_transcript s)) w
                   else Some (Some (sv_transcript s), w));
       tr \<leftarrow> tr;
       let s = s\<lparr>sv_transcript := tr, sv_application_keys := zero_keys\<rparr>;
       w \<leftarrow> server_cleanup_mlkem (sv_shared_secret s) (sv_kem_public_key s) (sv_ciphertext s) (sv_kem s) w;
       w \<leftarrow> server_cleanup_mldsa (sv_sig_secret_key s) (sv_sig_public_key s) (sv_signature s) (sv_sig s) w;
       Some (sv_ret s, s, w)
     }"

definition server_setup :: "('c, 'm) lib \<Rightarrow> 'm server phase list" where
  "server_setup L = [server_alloc_sig L, server_load_keys L, server_new_kem L, server_accept L,
     server_init_transcript L]"

definition server_session :: "('c, 'm) lib \<Rightarrow> 'm server phase list" where
  "server_session L = [server_client_hello L, server_hello L, server_certificate L,
     server_certificate_verify L, server_send_finished L, server_recv_finished L,
     server_application_keys L, server_recv_data L, server_send_data L]"

definition server_main :: "('c, 'm) lib \<Rightarrow> world \<Rightarrow> (int \<times> 'm server \<times> world) option" where
  "server_main L w =
     do {
       (ok, s, w) \<leftarrow> server_new_sig L server_locals w;
       if \<not> ok then Some (EXIT_FAILURE, s, w)
       else do {
         (ok, s, w) \<leftarrow> run_phases (server_setup L @ server_session L) s w;
         server_end s w
       }
     }"

text \<open>The server as a process: \<open>main\<close>, unless a \<open>send\<close> kills it by \<open>SIGPIPE\<close>.\<close>

definition server_process :: "('c, 'm) lib \<Rightarrow> bool \<Rightarrow> world \<Rightarrow> 'm server outcome option" where
  "server_process L sigpipe_default w = map_option (process_outcome sigpipe_default w) (server_main L w)"

subsection \<open>Resources\<close>

definition server_held :: "'m server \<Rightarrow> handle \<Rightarrow> nat" where
  "server_held s = (\<lambda>_. 0)(H_SIG := nb (sv_sig s), H_KEM := nb (sv_kem s),
     H_SOCKET := nb (sv_connfd s) + nb (sv_listenfd s),
     H_MD_CTX := nb (sv_transcript_initialized s),
     H_OQS_MEM := ptrs [sv_sig_secret_key s, sv_sig_public_key s, sv_signature s,
        sv_kem_public_key s, sv_ciphertext s, sv_shared_secret s])"

definition server_res :: "world \<Rightarrow> 'm server \<Rightarrow> world \<Rightarrow> bool" where
  "server_res w0 s w \<longleftrightarrow>
     (\<forall>h. live w h = live w0 h + server_held s h) \<and>
     (sv_shared_secret s \<noteq> None \<longrightarrow> sv_kem s) \<and> (sv_sig_secret_key s \<noteq> None \<longrightarrow> sv_sig s) \<and>
     (sv_transcript_initialized s \<longrightarrow> ctx (sv_transcript s) \<noteq> None) \<and>
     (\<exists>i out d. frame w0 i out d w)"

text \<open>The invariant of the phases: besides, success has not been reported.\<close>

definition server_inv :: "world \<Rightarrow> 'm server \<Rightarrow> world \<Rightarrow> bool" where
  "server_inv w0 s w \<longleftrightarrow> server_res w0 s w \<and> sv_ret s = EXIT_FAILURE"

lemma server_cleanup_mlkem_held:
  "(ss \<noteq> None \<Longrightarrow> kem) \<Longrightarrow> server_cleanup_mlkem ss pk ct kem w =
     do { w \<leftarrow> free_if (ss \<noteq> None) H_OQS_MEM w; w \<leftarrow> free_if (pk \<noteq> None) H_OQS_MEM w;
          w \<leftarrow> free_if (ct \<noteq> None) H_OQS_MEM w; free_if kem H_KEM w }"
  by (cases ss; cases kem) (simp_all add: server_cleanup_mlkem_def oqs_free_def)

lemma server_cleanup_mldsa_held:
  "(sk \<noteq> None \<Longrightarrow> sig) \<Longrightarrow> server_cleanup_mldsa sk pk sg sig w =
     do { w \<leftarrow> free_if (sk \<noteq> None) H_OQS_MEM w; w \<leftarrow> free_if (pk \<noteq> None) H_OQS_MEM w;
          w \<leftarrow> free_if (sg \<noteq> None) H_OQS_MEM w; free_if sig H_SIG w }"
  by (cases sk; cases sig) (simp_all add: server_cleanup_mldsa_def oqs_free_def)

lemma server_end_ok:
  assumes "server_res w0 s w"
  shows "\<exists>s'. server_end s w = Some (sv_ret s, s', w\<lparr>live := live w0\<rparr>) \<and>
     s' = s\<lparr>sv_transcript := sv_transcript s', sv_application_keys := zero_keys\<rparr> \<and>
     (sv_transcript_initialized s \<longrightarrow> ctx (sv_transcript s') = None)"
proof -
  from assms have lv: "live w = (\<lambda>h. live w0 h + server_held s h)"
    and c: "sv_shared_secret s \<noteq> None \<Longrightarrow> sv_kem s" "sv_sig_secret_key s \<noteq> None \<Longrightarrow> sv_sig s"
     "sv_transcript_initialized s \<Longrightarrow> ctx (sv_transcript s) \<noteq> None"
    by (auto simp: server_res_def)
  define tr where "tr = (if sv_transcript_initialized s then (sv_transcript s)\<lparr>ctx := None\<rparr> else sv_transcript s)"
  have t: "(if sv_transcript_initialized s then transcript_free (Some (sv_transcript s)) w'
                   else Some (Some (sv_transcript s), w')) = do { w' \<leftarrow> free_if (sv_transcript_initialized s) H_MD_CTX w'; Some (Some tr, w') }" for w'
    using c(3) by (auto simp: transcript_free_def tr_def)
  have "server_end s w = Some (sv_ret s, s\<lparr>sv_transcript := tr, sv_application_keys := zero_keys\<rparr>, w\<lparr>live := live w0\<rparr>)"
    by (simp add: server_end_def server_cleanup_mlkem_held [OF c(1)] server_cleanup_mldsa_held [OF c(2)] t
        free_if_live lv server_held_def Let_def) (simp add: fun_eq_iff)
  then show ?thesis by (simp add: tr_def)
qed

end
