(* ===== verification/Session.thy ===== *)
theory Session
  imports Protocol
begin

section \<open>The contract of a session\<close>

text \<open>
  Client and server run the same handshake from its two ends: both keep a transcript, hash it,
  send or check Finished values, install the application keys and exchange records. The locale
  \<open>session\<close> says what a program's state must offer for that: a predicate \<open>ready ds i out d\<close>
  (the transcript has absorbed \<open>ds\<close>; since the start \<open>i\<close> was read, \<open>out\<close> written, and \<open>d\<close> draws
  of random bytes were made), the fields it updates, and the two operations every message goes
  through. The locales that extend it state one step of the protocol each, with the program's code
  as an equation, and prove the step once; \<open>Server_Session\<close> and \<open>Client_Session\<close> interpret
  them on the two programs.
\<close>

subsection \<open>Receiving a message\<close>

text \<open>A message of at most the buffer's length (a signature), and one that must fill the buffer (all
  others).\<close>

lemma recv_upto:
  assumes "length b = unat cap" and "unat cap \<le> 0xFFFFFF" and "peer_closed w"
  obtains rc b' l i w' where
    "recv_handshake_msg t (Some b) cap (Some l0) w = Some (rc, Some b', Some l, w')"
    "frame w i [] 0 w'" "live w' = live w" "length b' = unat cap" "rc = 0 \<or> rc = 1 \<or> rc = - 1"
    "rc = 0 \<Longrightarrow> l \<le> cap \<and> i = hs_msg t (take (unat l) b')"
    "\<And>m r. io_fine w \<Longrightarrow> inbox w = hs_msg t m @ r \<Longrightarrow> length m \<le> unat cap \<Longrightarrow>
       rc = 0 \<and> unat l = length m \<and> take (unat l) b' = m"
proof -
  have le: "unat cap \<le> length b" using assms(1) by simp
  obtain rc b' l i w' where r: "recv_handshake_msg t (Some b) cap (Some l0) w = Some (rc, Some b', Some l, w')"
    "frame w i [] 0 w'" "live w' = live w" "length b' = length b" "rc = 0 \<or> rc = 1 \<or> rc = - 1"
    "rc = 0 \<longrightarrow> (\<exists>m. hs_valid (t, m) \<and> length m \<le> unat cap \<and> i = hs_msg t m \<and>
        b' = m @ drop (length m) b \<and> l = of_nat (length m))"
    "\<forall>m r. io_fine w \<and> inbox w = hs_msg t m @ r \<and> hs_valid (t, m) \<and> length m \<le> unat cap \<longrightarrow> rc = 0"
    using recv_msg [OF le assms(3), of t l0] by blast
  have got: "\<exists>m. length m \<le> unat cap \<and> i = hs_msg t m \<and> unat l = length m \<and> take (unat l) b' = m" if "rc = 0"
  proof -
    from r(6) that obtain m where m: "length m \<le> unat cap" "i = hs_msg t m" "b' = m @ drop (length m) b"
      "l = of_nat (length m)" by auto
    have "unat l = length m" unfolding m(4) using m(1) assms(2) by (intro unat_of_nat_size_t) simp
    with m show ?thesis by simp
  qed
  then have upto: "l \<le> cap \<and> i = hs_msg t (take (unat l) b')" if "rc = 0"
    using that by (auto simp: word_le_nat_alt)
  have hon: "rc = 0 \<and> unat l = length m \<and> take (unat l) b' = m"
    if f: "io_fine w" "inbox w = hs_msg t m @ s" "length m \<le> unat cap" for m s
  proof -
    have rc: "rc = 0" using r(7) [rule_format, of m s] f assms(2) by simp
    from got [OF rc] obtain m' where m: "length m' \<le> unat cap" "i = hs_msg t m'" "unat l = length m'"
      "take (unat l) b' = m'" by blast
    have e: "hs_msg t m' @ inbox w' = hs_msg t m @ s" using r(2) f(2) m(2) by (simp add: frame_def)
    have "hs_valid (t, m')" "hs_valid (t, m)" using m(1) f(3) assms(2) by simp_all
    from hs_cancel [OF this e] have "m' = m" by blast
    with m rc show ?thesis by simp
  qed
  have "length b' = unat cap" using r(4) assms(1) by simp
  from that [OF r(1-3) this r(5) upto hon] show thesis .
qed

lemma recv_exact:
  assumes "length b = unat cap" and "unat cap \<le> 0xFFFFFF" and "peer_closed w"
  obtains rc b' l i w' where
    "recv_handshake_msg t (Some b) cap (Some l0) w = Some (rc, Some b', Some l, w')"
    "frame w i [] 0 w'" "live w' = live w" "length b' = unat cap" "rc = 0 \<or> rc = 1 \<or> rc = - 1"
    "rc = 0 \<Longrightarrow> l = cap \<Longrightarrow> i = hs_msg t b'"
    "\<And>m r. io_fine w \<Longrightarrow> inbox w = hs_msg t m @ r \<Longrightarrow> length m = unat cap \<Longrightarrow> rc = 0 \<and> l = cap \<and> b' = m"
proof (rule recv_upto [OF assms, of t l0])
  fix rc b' l i w'
  assume r: "recv_handshake_msg t (Some b) cap (Some l0) w = Some (rc, Some b', Some l, w')"
    "frame w i [] 0 w'" "live w' = live w" "length b' = unat cap" "rc = 0 \<or> rc = 1 \<or> rc = - 1"
    and u: "rc = 0 \<Longrightarrow> l \<le> cap \<and> i = hs_msg t (take (unat l) b')"
    and h: "\<And>m r. io_fine w \<Longrightarrow> inbox w = hs_msg t m @ r \<Longrightarrow> length m \<le> unat cap \<Longrightarrow>
       rc = 0 \<and> unat l = length m \<and> take (unat l) b' = m"
  have "i = hs_msg t b'" if "rc = 0" "l = cap" using u [OF that(1)] that(2) r(4) by simp
  moreover have "rc = 0 \<and> l = cap \<and> b' = m"
    if "io_fine w" "inbox w = hs_msg t m @ s" "length m = unat cap" for m s
    using h [of m s] that r(4) by (auto simp: word_unat_eq_iff)
  ultimately show thesis by (rule that [OF r])
qed

subsection \<open>Transcript and messages\<close>

locale session =
  fixes L :: "('c, 'm) lib" and w0 :: world
    and ready :: "bytes list \<Rightarrow> bytes \<Rightarrow> bytes \<Rightarrow> nat \<Rightarrow> 's \<Rightarrow> world \<Rightarrow> bool"
    and inv :: "'s \<Rightarrow> world \<Rightarrow> bool"
    and tr :: "'s \<Rightarrow> 'm tls_transcript" and set_tr :: "'m tls_transcript \<Rightarrow> 's \<Rightarrow> 's"
    and hash :: "'s \<Rightarrow> bytes" and hash_len :: "'s \<Rightarrow> size_t"
    and set_hash :: "bytes \<Rightarrow> size_t \<Rightarrow> 's \<Rightarrow> 's"
    and upd :: "byte \<Rightarrow> ptr \<Rightarrow> size_t \<Rightarrow> 's phase"
    and get_hash :: "'s phase"
  assumes upd_eq: "upd t b n s w = do {
        (rc, tr', w) \<leftarrow> transcript_update_handshake_msg L (Some (tr s)) t b n w;
        tr' \<leftarrow> tr';
        Some (rc = 0, set_tr tr' s, w)
      }"
    and get_hash_eq: "get_hash s w = do {
       (rc, tr', h, l, w) \<leftarrow> transcript_get_hash L (Some (tr s)) (Some (hash s)) TLS_TRANSCRIPT_HASH_LEN
         (Some (hash_len s)) w;
       tr' \<leftarrow> tr';
       h \<leftarrow> h;
       l \<leftarrow> l;
       Some (rc = 0, set_hash h l (set_tr tr' s), w)
     }"
    and ready_inv: "ready ds i out d s w \<Longrightarrow> inv s w"
    and ready_frame: "ready ds i out d s w \<Longrightarrow> frame w0 i out d w"
    and ready_absorbed: "ready ds i out d s w \<Longrightarrow> absorbed L (tr s) ds"
    and ready_hash_len: "ready ds i out d s w \<Longrightarrow> length (hash s) = 32"
    and ready_io: "ready ds i out d s w \<Longrightarrow> frame w j u e w' \<Longrightarrow> live w' = live w \<Longrightarrow>
      ready ds (i @ j) (out @ u) (d + e) s w'"
    and ready_tr: "ready ds i out d s w \<Longrightarrow> absorbed L t' ds' \<Longrightarrow> ready ds' i out d (set_tr t' s) w"
    and ready_hash: "ready ds i out d s w \<Longrightarrow> length h = 32 \<Longrightarrow> ready ds i out d (set_hash h l s) w"
    and tr_same [simp]: "set_tr (tr s) s = s"
    and hash_set [simp]: "hash (set_hash h l s) = h" "hash_len (set_hash h l s) = l"
begin

lemma ready_lib:
  "ready ds i out d s w \<Longrightarrow> frame w [] [] 0 w' \<Longrightarrow> live w' = live w \<Longrightarrow> ready ds i out d s w'"
  using ready_io [of ds i out d s w "[]" "[]" 0 w'] by simp

lemma ready_fine: "ready ds i out d s w \<Longrightarrow> io_fine w = io_fine w0"
  by (rule frame_fine) (rule ready_frame)

lemma ready_closed: "ready ds i out d s w \<Longrightarrow> peer_closed w = peer_closed w0"
  by (rule frame_closed) (rule ready_frame)

text \<open>Adding a message to the transcript.\<close>

lemma upd_ok:
  assumes R: "ready ds i out d s w" and n: "unat n \<le> length b" "unat n \<le> 0xFFFFFF"
  shows "ends inv
     (\<lambda>s' w'. ready (ds @ [hs_msg t (take (unat n) b)]) i out d s' w' \<and> (\<exists>tr'. s' = set_tr tr' s))
     (lib_up L) (upd t (Some b) n s w)"
proof -
  obtain rc t' w' where u: "transcript_update_handshake_msg L (Some (tr s)) t (Some b) n w = Some (rc, Some t', w')"
    "frame w [] [] 0 w'" "live w' = live w"
    "rc = 0 \<and> absorbed L t' (ds @ [hs_msg t (take (unat n) b)]) \<or> rc = - 1 \<and> t' = tr s \<and> \<not> lib_up L"
    using tr_update [OF ready_absorbed [OF R] n, of t w] by blast
  note R' = ready_lib [OF R u(2,3)]
  from u(4) have "ready (if rc = 0 then ds @ [hs_msg t (take (unat n) b)] else ds) i out d (set_tr t' s) w'"
    using ready_tr [OF R'] ready_absorbed [OF R] by auto
  with ready_inv [OF this] u(1,4) show ?thesis by (auto simp: upd_eq)
qed

text \<open>Sending a message and adding it to the transcript.\<close>

lemma send_upd_ok:
  assumes R: "ready ds i out d s w" and n: "unat n \<le> length b" "unat n \<le> 0xFFFFFF"
  shows "ends inv
     (\<lambda>s' w'. ready (ds @ [hs_msg t (take (unat n) b)]) i (out @ hs_msg t (take (unat n) b)) d s' w' \<and>
        (\<exists>tr'. s' = set_tr tr' s))
     (lib_up L \<and> io_fine w0)
     (do {
        (rc, w) \<leftarrow> send_handshake_msg t (Some b) n w;
        if rc = - 1 then Some (False, s, w) else upd t (Some b) n s w
      })"
proof -
  obtain rc o' w1 where u: "send_handshake_msg t (Some b) n w = Some (rc, w1)"
    "frame w [] o' 0 w1" "live w1 = live w"
    "rc = 0 \<and> o' = hs_msg t (take (unat n) b) \<or> rc = - 1 \<and> \<not> io_fine w"
    using send_msg [OF n, of t w] by blast
  from ready_io [OF R u(2,3)] have R1: "ready ds i (out @ o') d s w1" by simp
  from u(4) show ?thesis
  proof
    assume "rc = 0 \<and> o' = hs_msg t (take (unat n) b)"
    with R1 u(1) show ?thesis
      by (auto intro: ends_mono [OF upd_ok [OF _ n]])
  next
    assume "rc = - 1 \<and> \<not> io_fine w"
    with u(1) ready_inv [OF R1] ready_fine [OF R] show ?thesis by simp
  qed
qed

text \<open>The current hash.\<close>

lemma get_hash_ok:
  assumes lib: "library_correct L sha256" and R: "ready ds i out d s w"
  obtains ok h l w' where "get_hash s w = Some (ok, set_hash h l s, w')"
    "ready ds i out d (set_hash h l s) w'"
    "ok \<Longrightarrow> h = sha256 (concat ds) \<and> l = 32" "length h = 32" "lib_up L \<Longrightarrow> ok"
proof -
  obtain rc h l w' where u: "transcript_get_hash L (Some (tr s)) (Some (hash s)) 32 (Some (hash_len s)) w =
       Some (rc, Some (tr s), Some h, Some l, w')"
    "frame w [] [] 0 w'" "live w' = live w" "length h = 32"
    "rc = 0 \<and> h = sha256 (concat ds) \<and> l = 32 \<or> rc = - 1 \<and> \<not> lib_up L"
    using tr_hash [OF lib ready_absorbed [OF R] ready_hash_len [OF R]] by blast
  show thesis
    by (rule that [of "rc = 0" h l w'])
      (use u ready_hash [OF ready_lib [OF R u(2,3)] u(4), of l] in \<open>auto simp: get_hash_eq\<close>)
qed

end

subsection \<open>Finished\<close>

text \<open>Sending one's own Finished.\<close>

locale finisher = session L w0 ready inv tr set_tr hash hash_len set_hash upd get_hash
  for L :: "('c, 'm) lib" and w0 :: world and ready inv and tr :: "'s \<Rightarrow> 'm tls_transcript" and set_tr
    and hash hash_len set_hash upd get_hash +
  fixes label :: string and ss :: "'s \<Rightarrow> ptr" and fin :: "'s \<Rightarrow> bytes" and set_fin :: "bytes \<Rightarrow> 's \<Rightarrow> 's"
    and send_fin :: "'s phase"
  assumes send_fin_eq: "send_fin s w =
     do {
       (ok, s, w) \<leftarrow> get_hash s w;
       if \<not> ok then Some (False, s, w)
       else do {
         (rc, f, fk, w) \<leftarrow> compute_finished_verify_data L (ss s) (kem_len_ss L)
            (Some label) (Some (hash s)) (hash_len s) (Some (fin s)) TLS_FINISHED_VERIFY_DATA_LEN w;
         f \<leftarrow> f;
         let s = set_fin f s;
         if rc \<noteq> 0 then Some (False, s, w)
         else do {
           (rc, w) \<leftarrow> send_handshake_msg (msg_code TLS_MSG_FINISHED) (Some (fin s))
              TLS_FINISHED_VERIFY_DATA_LEN w;
           if rc = - 1 then Some (False, s, w)
           else upd (msg_code TLS_MSG_FINISHED) (Some (fin s)) TLS_FINISHED_VERIFY_DATA_LEN s w
         }
       }
     }"
    and ready_fin: "ready ds i out d s w \<Longrightarrow> length f = 32 \<Longrightarrow> ready ds i out d (set_fin f s) w"
    and ready_fin_len: "ready ds i out d s w \<Longrightarrow> length (fin s) = 32"
    and ss_hash: "ss (set_hash h l s) = ss s"
    and fin_set: "fin (set_fin f s) = f"
begin

lemma send_fin_ok:
  assumes lib: "library_correct L sha256" and R: "ready ds i out d s w"
    and k: "ss s = Some k" "unat (kem_len_ss L) = length k"
    and m: "m = hs_msg (msg_code TLS_MSG_FINISHED) (finished_mac L k label (sha256 (concat ds)))"
  shows "ends inv
     (\<lambda>s' w'. ready (ds @ [m]) i (out @ m) d s' w' \<and> (\<exists>t f h l. s' = set_tr t (set_fin f (set_hash h l s))))
     (lib_up L \<and> io_fine w0) (send_fin s w)"
proof -
  obtain o1 th l w1 where H: "get_hash s w = Some (o1, set_hash th l s, w1)"
    "ready ds i out d (set_hash th l s) w1"
    "o1 \<Longrightarrow> th = sha256 (concat ds) \<and> l = 32" "length th = 32" "lib_up L \<Longrightarrow> o1"
    by (rule get_hash_ok [OF lib R]) (rule that)
  let ?s1 = "set_hash th l s"
  obtain rc f fk w2 where F: "compute_finished_verify_data L (Some k) (kem_len_ss L)
      (Some label) (Some th) 32 (Some (fin ?s1)) 32 w1 = Some (rc, Some f, fk, w2)"
    "frame w1 [] [] 0 w2" "live w2 = live w1" "length f = 32"
    "rc = 0 \<and> f = finished_mac L k label th \<or> rc = - 1 \<and> \<not> lib_up L"
    using finished_data [OF lib k(2) H(4) ready_fin_len [OF H(2)], of label w1] by blast
  let ?s2 = "set_fin f ?s1"
  note R2 = ready_fin [OF ready_lib [OF H(2) F(2,3)] F(4)]
  note unf = send_fin_eq [of s w]
  show ?thesis
  proof (cases "o1 \<and> rc = 0")
    case False
    with H ready_inv [OF H(2)] ready_inv [OF R2] F(1,5) k(1) show ?thesis
      by (cases o1) (auto simp: unf ss_hash Let_def)
  next
    case True
    with H(3) F(5) have e: "th = sha256 (concat ds)" "l = 32" "m = hs_msg 20 f" by (simp_all add: m)
    have n: "unat (32 :: size_t) \<le> length f" "unat (32 :: size_t) \<le> 0xFFFFFF" "take (unat (32 :: size_t)) f = f"
      using F(4) by simp_all
    have eq: "send_fin s w = do {
          (rc, w) \<leftarrow> send_handshake_msg 20 (Some f) 32 w2;
          if rc = - 1 then Some (False, ?s2, w) else upd 20 (Some f) 32 ?s2 w }"
      using True H(1) F(1) k(1) e(2) by (simp add: unf ss_hash fin_set Let_def cong: if_cong)
    show ?thesis unfolding eq
      by (rule ends_mono [OF send_upd_ok [OF R2 n(1,2)], unfolded n(3)]) (auto simp: e(3))
  qed
qed

end

text \<open>Receiving and checking the peer's Finished.\<close>

locale verifier = session L w0 ready inv tr set_tr hash hash_len set_hash upd get_hash
  for L :: "('c, 'm) lib" and w0 :: world and ready inv and tr :: "'s \<Rightarrow> 'm tls_transcript" and set_tr
    and hash hash_len set_hash upd get_hash +
  fixes label :: string and ss :: "'s \<Rightarrow> ptr" and got :: "'s \<Rightarrow> bytes" and got_len :: "'s \<Rightarrow> size_t"
    and set_got :: "bytes \<Rightarrow> size_t \<Rightarrow> 's \<Rightarrow> 's"
    and wanted :: "'s \<Rightarrow> bytes" and set_wanted :: "bytes \<Rightarrow> 's \<Rightarrow> 's"
    and recv_fin :: "'s phase"
  assumes recv_fin_eq: "recv_fin s w =
     do {
       (received_bytes, f, l, w) \<leftarrow> recv_handshake_msg (msg_code TLS_MSG_FINISHED)
          (Some (got s)) TLS_FINISHED_VERIFY_DATA_LEN (Some (got_len s)) w;
       f \<leftarrow> f;
       l \<leftarrow> l;
       let s = set_got f l s;
       if received_bytes = - 1 then Some (False, s, w)
       else if received_bytes = 1 then Some (False, s, w)
       else if got_len s \<noteq> TLS_FINISHED_VERIFY_DATA_LEN then Some (False, s, w)
       else do {
         (ok, s, w) \<leftarrow> get_hash s w;
         if \<not> ok then Some (False, s, w)
         else do {
           (rc, f, fk, w) \<leftarrow> compute_finished_verify_data L (ss s) (kem_len_ss L)
              (Some label) (Some (hash s)) (hash_len s) (Some (wanted s)) TLS_FINISHED_VERIFY_DATA_LEN w;
           f \<leftarrow> f;
           let s = set_wanted f s;
           if rc \<noteq> 0 then Some (False, s, w)
           else do {
             a \<leftarrow> rd (got s) 0 (unat TLS_FINISHED_VERIFY_DATA_LEN);
             b \<leftarrow> rd (wanted s) 0 (unat TLS_FINISHED_VERIFY_DATA_LEN);
             if a \<noteq> b then Some (False, s, w)
             else upd (msg_code TLS_MSG_FINISHED) (Some (got s)) TLS_FINISHED_VERIFY_DATA_LEN s w
           }
         }
       }
     }"
    and ready_got: "ready ds i out d s w \<Longrightarrow> length f = 32 \<Longrightarrow> ready ds i out d (set_got f l s) w"
    and ready_wanted: "ready ds i out d s w \<Longrightarrow> length f = 32 \<Longrightarrow> ready ds i out d (set_wanted f s) w"
    and ready_lens: "ready ds i out d s w \<Longrightarrow> length (got s) = 32 \<and> length (wanted s) = 32"
    and ss_sets: "ss (set_hash h l s) = ss s" "ss (set_got f l s) = ss s"
    and got_sets: "got (set_got f l s) = f" "got_len (set_got f l s) = l" "got (set_hash h l s) = got s"
      "got (set_wanted f s) = got s" "wanted (set_wanted f s) = f"
begin

lemma recv_fin_ok:
  assumes lib: "library_correct L sha256" and R: "ready ds i out d s w" and pc: "peer_closed w0"
    and k: "ss s = Some k" "unat (kem_len_ss L) = length k"
    and v: "v = finished_mac L k label (sha256 (concat ds))" and m: "m = hs_msg (msg_code TLS_MSG_FINISHED) v"
  shows "ends inv
     (\<lambda>s' w'. ready (ds @ [m]) (i @ m) out d s' w' \<and>
        (\<exists>t f h l f' l'. s' = set_tr t (set_wanted f (set_hash h l (set_got f' l' s)))))
     (lib_up L \<and> io_fine w0 \<and> (\<exists>r. inbox w0 = i @ m @ r)) (recv_fin s w)"
    (is "ends inv ?Q ?G _")
proof -
  have lv: "length v = 32"
    using library_correctD(3) [OF lib] by (simp add: v finished_mac_def hmac_correct_def)
  have pcw: "peer_closed w" using ready_closed [OF R] pc by simp
  have lg: "length (got s) = unat (32 :: size_t)" using ready_lens [OF R] by simp
  have cap: "unat (32 :: size_t) \<le> 0xFFFFFF" by simp
  obtain rc b l j w1 where r: "recv_handshake_msg 20 (Some (got s)) 32 (Some (got_len s)) w = Some (rc, Some b, Some l, w1)"
    "frame w j [] 0 w1" "live w1 = live w" "length b = unat (32 :: size_t)" "rc = 0 \<or> rc = 1 \<or> rc = - 1"
    "rc = 0 \<Longrightarrow> l = 32 \<Longrightarrow> j = hs_msg 20 b"
    "\<And>m r. io_fine w \<Longrightarrow> inbox w = hs_msg 20 m @ r \<Longrightarrow> length m = unat (32 :: size_t) \<Longrightarrow> rc = 0 \<and> l = 32 \<and> b = m"
    by (rule recv_exact [OF lg cap pcw, of 20 "got_len s"]) (rule that)
  have lb: "length b = 32" using r(4) by simp
  let ?s1 = "set_got b l s"
  from ready_got [OF ready_io [OF R r(2,3)] lb]
  have R1: "ready ds (i @ j) out d ?s1 w1" by simp
  have hon: "rc = 0 \<and> l = 32 \<and> b = v" if g: ?G
  proof -
    from g obtain x where "inbox w0 = i @ m @ x" by blast
    with frame_rest [OF ready_frame [OF R]] have "inbox w = hs_msg 20 v @ x" by (simp add: m)
    moreover have "io_fine w" using ready_fine [OF R] g by simp
    ultimately show ?thesis using r(7) lv by simp
  qed
  note unf = recv_fin_eq [of s w]
  show ?thesis
  proof (cases "rc = 0 \<and> l = 32")
    case False
    then have "recv_fin s w = Some (False, ?s1, w1)" using r(1,5) by (auto simp: unf got_sets)
    with ready_inv [OF R1] hon False show ?thesis by auto
  next
    case True
    have j: "j = hs_msg 20 b" by (rule r(6)) (use True in simp_all)
    obtain o1 th n w2 where H: "get_hash ?s1 w1 = Some (o1, set_hash th n ?s1, w2)"
      "ready ds (i @ j) out d (set_hash th n ?s1) w2"
      "o1 \<Longrightarrow> th = sha256 (concat ds) \<and> n = 32" "length th = 32" "lib_up L \<Longrightarrow> o1"
      by (rule get_hash_ok [OF lib R1]) (rule that)
    let ?s2 = "set_hash th n ?s1"
    have k2: "ss ?s2 = Some k" by (simp add: ss_sets k)
    have lw: "length (wanted ?s2) = 32" using ready_lens [OF H(2)] by simp
    obtain r2 f fk w3 where F: "compute_finished_verify_data L (Some k) (kem_len_ss L)
        (Some label) (Some th) 32 (Some (wanted ?s2)) 32 w2 = Some (r2, Some f, fk, w3)"
      "frame w2 [] [] 0 w3" "live w3 = live w2" "length f = 32"
      "r2 = 0 \<and> f = finished_mac L k label th \<or> r2 = - 1 \<and> \<not> lib_up L"
      using finished_data [OF lib k(2) H(4) lw, of label w2] by blast
    let ?s3 = "set_wanted f ?s2"
    note R3 = ready_wanted [OF ready_lib [OF H(2) F(2,3)] F(4)]
    have eq: "recv_fin s w = (if \<not> o1 then Some (False, ?s2, w2) else
        if r2 \<noteq> 0 \<or> b \<noteq> f then Some (False, ?s3, w3) else upd 20 (Some b) 32 ?s3 w3)"
      using True H(1) H(3) F(1) k2 r(1) lb F(4) by (auto simp: unf got_sets rd_def Let_def)
    show ?thesis
    proof (cases "o1 \<and> r2 = 0 \<and> b = f")
      case False
      with eq ready_inv [OF H(2)] ready_inv [OF R3] F(5) H(3,5) hon v show ?thesis by auto
    next
      case good: True
      with F(5) H(3) v have f: "b = v" by auto
      have n: "unat (32 :: size_t) \<le> length b" "unat (32 :: size_t) \<le> 0xFFFFFF" "take (unat (32 :: size_t)) b = b"
        using lb by simp_all
      have e: "recv_fin s w = upd 20 (Some b) 32 ?s3 w3" using eq good by simp
      have m': "m = hs_msg 20 b" by (simp add: m f)
      show ?thesis unfolding e
      proof (rule ends_mono [OF upd_ok [OF R3 n(1,2)], unfolded n(3)])
        fix s' w' assume "ready (ds @ [hs_msg 20 b]) (i @ j) out d s' w' \<and> (\<exists>t. s' = set_tr t ?s3)"
        then show "?Q s' w'" unfolding m' j by blast
      qed simp
    qed
  qed
qed

end

subsection \<open>Application keys and records\<close>

text \<open>Deriving the application keys and installing them, the client's direction (\<open>cdir\<close>) first.\<close>

locale keyed = session L w0 ready inv tr set_tr hash hash_len set_hash upd get_hash
  for L :: "('c, 'm) lib" and w0 :: world and ready inv and tr :: "'s \<Rightarrow> 'm tls_transcript" and set_tr
    and hash hash_len set_hash upd get_hash +
  fixes ss :: "'s \<Rightarrow> ptr" and keys :: "'s \<Rightarrow> tls_application_keys"
    and set_keys :: "tls_application_keys \<Rightarrow> 's \<Rightarrow> 's"
    and cdir :: "'s \<Rightarrow> tls_record_state" and set_cdir :: "tls_record_state \<Rightarrow> 's \<Rightarrow> 's"
    and sdir :: "'s \<Rightarrow> tls_record_state" and set_sdir :: "tls_record_state \<Rightarrow> 's \<Rightarrow> 's"
    and install :: "'s phase"
  assumes install_eq: "install s w =
     do {
       (ok, s, w) \<leftarrow> get_hash s w;
       if \<not> ok then Some (False, s, w)
       else do {
         (rc, ks, w) \<leftarrow> derive_application_keys L (ss s) (kem_len_ss L)
            (Some (hash s)) (hash_len s) (Some (keys s)) w;
         ks \<leftarrow> ks;
         let s = set_keys ks s;
         if rc \<noteq> 0 then Some (False, s, w)
         else do {
           (rc, r) \<leftarrow> tls_record_state_init (Some (cdir s)) (Some (client_key ks)) (Some (client_iv ks));
           r \<leftarrow> r;
           let s = set_cdir r s;
           if rc \<noteq> 0 then Some (False, s, w)
           else do {
             (rc, r) \<leftarrow> tls_record_state_init (Some (sdir s)) (Some (server_key ks)) (Some (server_iv ks));
             r \<leftarrow> r;
             Some (rc = 0, set_sdir r s, w)
           }
         }
       }
     }"
    and ready_keys: "ready ds i out d s w \<Longrightarrow> ready ds i out d (set_keys ks s) w"
    and ready_cdir: "ready ds i out d s w \<Longrightarrow> ready ds i out d (set_cdir r s) w"
    and ready_sdir: "ready ds i out d s w \<Longrightarrow> ready ds i out d (set_sdir r s) w"
    and ss_hash: "ss (set_hash h l s) = ss s"
begin

lemma install_ok:
  assumes lib: "library_correct L sha256" and R: "ready ds i out d s w"
    and k: "ss s = Some k" "unat (kem_len_ss L) = length k"
    and ks: "ks = app_keys L k (sha256 (concat ds))"
  shows "ends inv
     (\<lambda>s' w'. ready ds i out d s' w' \<and>
        (\<exists>h l. s' = set_sdir (record_start (server_key ks) (server_iv ks))
             (set_cdir (record_start (client_key ks) (client_iv ks)) (set_keys ks (set_hash h l s)))))
     (lib_up L) (install s w)"
proof -
  note oqs = oqs_correctD [OF library_correctD(5) [OF lib]]
  obtain o1 th l w1 where H: "get_hash s w = Some (o1, set_hash th l s, w1)"
    "ready ds i out d (set_hash th l s) w1"
    "o1 \<Longrightarrow> th = sha256 (concat ds) \<and> l = 32" "length th = 32" "lib_up L \<Longrightarrow> o1"
    by (rule get_hash_ok [OF lib R]) (rule that)
  let ?s1 = "set_hash th l s"
  obtain rc ks' w2 where F: "derive_application_keys L (Some k) (kem_len_ss L) (Some th) 32
      (Some (keys ?s1)) w1 = Some (rc, Some ks', w2)"
    "frame w1 [] [] 0 w2" "live w2 = live w1"
    "rc = 0 \<and> ks' = app_keys L k th \<or> rc = - 1 \<and> ks' = zero_keys \<and> \<not> lib_up L"
    using app_key_derivation [OF lib k(2) oqs(5) H(4), of "keys ?s1" w1] by blast
  let ?s2 = "set_keys ks' ?s1"
  note R2 = ready_keys [OF ready_lib [OF H(2) F(2,3)]]
  note unf = install_eq [of s w]
  show ?thesis
  proof (cases "o1 \<and> rc = 0")
    case False
    with H ready_inv [OF H(2)] ready_inv [OF R2] F(1,4) k(1) show ?thesis
      by (cases o1) (auto simp: unf ss_hash Let_def)
  next
    case True
    with H(3) F(4) have e: "th = sha256 (concat ds)" "l = 32" "ks' = ks" by (auto simp: ks)
    note len = app_keys_len [OF lib, of k "sha256 (concat ds)", folded ks]
    have "install s w = Some (True, set_sdir (record_start (server_key ks) (server_iv ks))
             (set_cdir (record_start (client_key ks) (client_iv ks)) ?s2), w2)"
      using True H(1) F(1) k(1) e(2,3) len by (simp add: unf ss_hash tls_record_state_init_ok)
    with ready_sdir [OF ready_cdir [OF R2]] e(3) show ?thesis by (auto intro: ready_inv)
  qed
qed

end

text \<open>Receiving one record into a buffer of 1024 bytes and terminating it.\<close>

locale receiver = session L w0 ready inv tr set_tr hash hash_len set_hash upd get_hash
  for L :: "('c, 'm) lib" and w0 :: world and ready inv and tr :: "'s \<Rightarrow> 'm tls_transcript" and set_tr
    and hash hash_len set_hash upd get_hash +
  fixes dir :: "'s \<Rightarrow> tls_record_state" and set_dir :: "tls_record_state \<Rightarrow> 's \<Rightarrow> 's"
    and buf :: "'s \<Rightarrow> bytes" and buf_len :: "'s \<Rightarrow> size_t" and set_buf :: "bytes \<Rightarrow> 's \<Rightarrow> 's"
    and set_both :: "bytes \<Rightarrow> size_t \<Rightarrow> 's \<Rightarrow> 's"
    and recv_data :: "'s phase"
  assumes recv_data_eq: "recv_data s w =
     do {
       (rc, p, l, r, w) \<leftarrow> recv_encrypted_record L (Some (buf s)) (1024 - 1)
          (Some (buf_len s)) (Some (dir s)) w;
       p \<leftarrow> p;
       l \<leftarrow> l;
       r \<leftarrow> r;
       let s = set_dir r (set_both p l s);
       if rc \<noteq> 0 then Some (False, s, w)
       else do {
         p \<leftarrow> wr (buf s) (unat (buf_len s)) [0];
         Some (True, set_buf p s, w)
       }
     }"
    and ready_dir: "ready ds i out d s w \<Longrightarrow> ready ds i out d (set_dir r s) w"
    and ready_buf: "ready ds i out d s w \<Longrightarrow> length p = 1024 \<Longrightarrow> ready ds i out d (set_buf p s) w"
    and ready_both: "ready ds i out d s w \<Longrightarrow> length p = 1024 \<Longrightarrow> ready ds i out d (set_both p l s) w"
    and ready_buf_len: "ready ds i out d s w \<Longrightarrow> length (buf s) = 1024"
    and buf_sets: "buf (set_both p l s) = p" "buf_len (set_both p l s) = l"
      "buf (set_dir r s) = buf s" "buf_len (set_dir r s) = buf_len s"
begin

lemma recv_data_ok:
  assumes lib: "library_correct L sha256" and R: "ready ds i out d s w" and pc: "peer_closed w0"
    and st: "dir s = st" "record_ok st"
  shows "ends inv
     (\<lambda>s' w'. \<exists>pt p. 0 < length pt \<and> length pt \<le> 1023 \<and> take (length pt + 1) p = pt @ [0] \<and>
        ready ds (i @ record_bytes L st pt) out d s' w' \<and>
        (\<exists>q. s' = set_buf p (set_dir (next_seq st) (set_both q (of_nat (length pt)) s))))
     (lib_up L \<and> io_fine w0 \<and> (\<exists>msg r. 0 < length msg \<and> length msg \<le> 1023 \<and>
        inbox w0 = i @ record_bytes L st msg @ r))
     (recv_data s w)"
    (is "ends inv ?Q ?G _")
proof -
  have pcw: "peer_closed w" using ready_closed [OF R] pc by simp
  have lp: "length (buf s) = 1024" by (rule ready_buf_len [OF R])
  then have cap: "unat (1023 :: size_t) \<le> length (buf s)" by simp
  obtain rc p l st' j w1 where r: "recv_encrypted_record L (Some (buf s)) 1023 (Some (buf_len s)) (Some st) w =
       Some (rc, Some p, Some l, Some st', w1)"
    "frame w j [] 0 w1" "live w1 = live w" "length p = length (buf s)"
    "rc = 0 \<longrightarrow> (\<exists>pt. 0 < length pt \<and> length pt \<le> 1024 \<and> length pt \<le> unat (1023 :: size_t) \<and>
        j = record_bytes L st pt \<and> p = pt @ drop (length pt) (buf s) \<and> l = of_nat (length pt) \<and> st' = next_seq st)"
    "\<forall>pt r. lib_up L \<and> io_fine w \<and> inbox w = record_bytes L st pt @ r \<and> 0 < length pt \<and> length pt \<le> 1024 \<and>
        length pt \<le> unat (1023 :: size_t) \<longrightarrow> rc = 0"
    using recv_rec [OF lib st(2) cap pcw, of "buf_len s"] by (elim exE conjE) (rule that; assumption)
  let ?s1 = "set_dir st' (set_both p l s)"
  have lp1: "length p = 1024" using r(4) lp by simp
  from ready_dir [OF ready_both [OF ready_io [OF R r(2,3)] lp1], of st']
  have R1: "ready ds (i @ j) out d ?s1 w1" by simp
  note unf = recv_data_eq [of s w]
  show ?thesis
  proof (cases "rc = 0")
    case False
    have "\<not> ?G"
    proof
      assume g: ?G
      then obtain msg x where m: "0 < length msg" "length msg \<le> 1023" "inbox w0 = i @ record_bytes L st msg @ x" by blast
      have "io_fine w" "inbox w = record_bytes L st msg @ x"
        using g ready_fine [OF R] frame_rest [OF ready_frame [OF R] m(3)] by simp_all
      with r(6) [rule_format, of msg x] m g False show False by simp
    qed
    with False r(1) st ready_inv [OF R1] show ?thesis by (simp add: unf)
  next
    case True
    with r(5) obtain pt where pt: "0 < length pt" "length pt \<le> 1023" "j = record_bytes L st pt"
        "p = pt @ drop (length pt) (buf s)" "l = of_nat (length pt)" "st' = next_seq st" by auto
    have ul: "unat l = length pt" unfolding pt(5) using pt(2) by (intro unat_of_nat_size_t) simp
    define q where "q = pt @ [0] @ drop (length pt + 1) p"
    have wr: "wr p (unat l) [0] = Some q"
      unfolding ul q_def using pt(2,4) lp by (simp add: wr_def)
    have lq: "length q = 1024" "take (length pt + 1) q = pt @ [0]" using pt(2) lp1 by (simp_all add: q_def)
    note R2 = ready_buf [OF R1 lq(1)]
    have e: "recv_data s w = Some (True, set_buf q ?s1, w1)"
      using True r(1) st(1) wr by (simp add: unf buf_sets)
    have "?Q (set_buf q ?s1) w1" using pt lq(2) R2 by blast
    with ready_inv [OF R2] show ?thesis unfolding e ends_Some by blast
  qed
qed

end

text \<open>Sending one record.\<close>

locale sender = session L w0 ready inv tr set_tr hash hash_len set_hash upd get_hash
  for L :: "('c, 'm) lib" and w0 :: world and ready inv and tr :: "'s \<Rightarrow> 'm tls_transcript" and set_tr
    and hash hash_len set_hash upd get_hash +
  fixes dir :: "'s \<Rightarrow> tls_record_state" and set_dir :: "tls_record_state \<Rightarrow> 's \<Rightarrow> 's"
  assumes ready_dir: "ready ds i out d s w \<Longrightarrow> ready ds i out d (set_dir r s) w"
begin

lemma send_data_ok:
  assumes lib: "library_correct L sha256" and R: "ready ds i out d s w"
    and st: "dir s = st" "record_ok st" and m: "0 < length msg" "length msg \<le> 1024"
  obtains rc st' o' w' where "send_encrypted_record L (Some msg) (of_nat (length msg)) (Some (dir s)) w =
      Some (rc, Some st', w')" "ready ds i (out @ o') d (set_dir st' s) w'"
     "rc = 0 \<Longrightarrow> o' = record_bytes L st msg \<and> st' = next_seq st" "lib_up L \<Longrightarrow> io_fine w0 \<Longrightarrow> rc = 0"
proof -
  have u: "unat (of_nat (length msg) :: size_t) = length msg" using m(2) by (intro unat_of_nat_size_t) simp
  then have n: "(of_nat (length msg) :: size_t) \<noteq> 0" "unat (of_nat (length msg) :: size_t) \<le> 1024"
    using m by auto
  obtain rc st' o' w' where r: "send_encrypted_record L (Some msg) (of_nat (length msg)) (Some st) w =
      Some (rc, Some st', w')" "frame w [] o' 0 w'" "live w' = live w"
     "rc = 0 \<and> o' = record_bytes L st msg \<and> st' = next_seq st \<or>
      rc = - 1 \<and> st' = st \<and> (\<not> lib_up L \<or> \<not> io_fine w)"
    using send_rec [OF lib st(2) n u, where w = w] by blast
  from ready_dir [OF ready_io [OF R r(2,3)], of st'] have "ready ds i (out @ o') d (set_dir st' s) w'" by simp
  moreover have "rc = 0 \<Longrightarrow> o' = record_bytes L st msg \<and> st' = next_seq st" "lib_up L \<Longrightarrow> io_fine w0 \<Longrightarrow> rc = 0"
    using r(4) ready_fine [OF R] by auto
  ultimately show thesis using that [of rc st' w' o'] r(1) st(1) by blast
qed

end

end
