(* ===== verification/Server_Setup.thy ===== *)
theory Server_Setup
  imports Secure_Server Session
begin

section \<open>The set-up of the server\<close>

text \<open>
  Every phase of \<open>server_main\<close> is proved total-correct against the abstract protocol of theory
  \<open>Protocol\<close>: from a state where the phases before it have succeeded it returns, keeps the
  resource invariant however it ends, and when it goes on it has read and written exactly what
  the protocol says. Under the hypothesis \<open>G\<close> of an honest run it does go on.
\<close>

subsection \<open>The set-up phases\<close>

text \<open>What has been set up: exactly these local variables differ from their initial values, and
  nothing was read or written.\<close>

definition server_clean :: "world \<Rightarrow> 'm server \<Rightarrow> world \<Rightarrow> bool" where
  "server_clean w0 s w \<longleftrightarrow> (\<forall>h. live w h = live w0 h + server_held s h) \<and> frame w0 [] [] 0 w"

definition server_with_sig :: "('c, 'm) lib \<Rightarrow> world \<Rightarrow> 'm server \<Rightarrow> world \<Rightarrow> bool" where
  "server_with_sig L w0 s w \<longleftrightarrow> server_clean w0 s w \<and>
     (\<exists>sk pk sg. length sk = unat (sig_len_sk L) \<and> length pk = unat (sig_len_pk L) \<and>
        length sg = unat (sig_len_sig L) \<and>
        s = server_locals\<lparr>sv_sig := True, sv_sig_secret_key := Some sk, sv_sig_public_key := Some pk,
              sv_signature := Some sg\<rparr>)"

definition server_with_keys :: "('c, 'm) lib \<Rightarrow> world \<Rightarrow> 'm server \<Rightarrow> world \<Rightarrow> bool" where
  "server_with_keys L w0 s w \<longleftrightarrow> server_clean w0 s w \<and>
     (\<exists>sk pk sg. key_file w0 SECRET_KEY_FILE (unat (sig_len_sk L)) = Some sk \<and>
        key_file w0 PUBLIC_KEY_FILE (unat (sig_len_pk L)) = Some pk \<and> length sg = unat (sig_len_sig L) \<and>
        s = server_locals\<lparr>sv_sig := True, sv_sig_secret_key := Some sk, sv_sig_public_key := Some pk,
              sv_signature := Some sg\<rparr>)"

definition server_with_kem :: "('c, 'm) lib \<Rightarrow> world \<Rightarrow> bool \<Rightarrow> 'm server \<Rightarrow> world \<Rightarrow> bool" where
  "server_with_kem L w0 conn s w \<longleftrightarrow> server_clean w0 s w \<and>
     (\<exists>sk pk sg kp ct ss. key_file w0 SECRET_KEY_FILE (unat (sig_len_sk L)) = Some sk \<and>
        key_file w0 PUBLIC_KEY_FILE (unat (sig_len_pk L)) = Some pk \<and> length sg = unat (sig_len_sig L) \<and>
        length kp = unat (kem_len_pk L) \<and> length ct = unat (kem_len_ct L) \<and> length ss = unat (kem_len_ss L) \<and>
        s = server_locals\<lparr>sv_sig := True, sv_sig_secret_key := Some sk, sv_sig_public_key := Some pk,
              sv_signature := Some sg, sv_kem := True, sv_kem_public_key := Some kp,
              sv_ciphertext := Some ct, sv_shared_secret := Some ss,
              sv_listenfd := conn, sv_connfd := conn\<rparr>)"

lemma server_alloc_sig_ok:
  assumes "G \<longrightarrow> lib_up L"
  shows "phase_ok (server_inv w0)
     (\<lambda>s w. server_clean w0 s w \<and> s = server_locals\<lparr>sv_sig := True\<rparr>)
     (server_alloc_sig L :: 'm server phase) (server_with_sig L w0) G"
proof (rule phase_okI)
  fix s :: "'m server" and w assume P: "server_clean w0 s w \<and> s = server_locals\<lparr>sv_sig := True\<rparr>"
  obtain p1 w1 p2 w2 p3 w3 where m: "oqs_malloc L (sig_len_sk L) w = (p1, w1)"
    "oqs_malloc L (sig_len_pk L) w1 = (p2, w2)" "oqs_malloc L (sig_len_sig L) w2 = (p3, w3)" by fastforce
  note a = oqs_malloc_spec [OF m(1)] oqs_malloc_spec [OF m(2)] oqs_malloc_spec [OF m(3)]
  let ?s = "s\<lparr>sv_sig_secret_key := p1, sv_sig_public_key := p2, sv_signature := p3\<rparr>"
  have f: "frame w0 [] [] 0 w3"
    using P a by (meson frame_trans0 server_clean_def)
  have "live w3 h = live w0 h + server_held ?s h" for h
    using P a by (simp add: server_clean_def server_held_def server_locals_def)
  with f have C: "server_clean w0 ?s w3" by (simp add: server_clean_def)
  with P have I: "server_inv w0 ?s w3"
    by (auto simp: server_clean_def server_inv_def server_res_def server_locals_def)
  show "ends (server_inv w0) (\<lambda>s' w'. server_with_sig L w0 s' w') G (server_alloc_sig L s w)"
    using C I a assms P by (fastforce simp: server_alloc_sig_def m server_with_sig_def)
qed

lemma server_load_keys_ok:
  assumes "G \<longrightarrow> lib_up L \<and> key_file w0 SECRET_KEY_FILE (unat (sig_len_sk L)) \<noteq> None \<and>
     key_file w0 PUBLIC_KEY_FILE (unat (sig_len_pk L)) \<noteq> None"
  shows "phase_ok (server_inv w0) (server_with_sig L w0) (server_load_keys L :: 'm server phase) (server_with_keys L w0) G"
proof (rule phase_okI)
  fix s :: "'m server" and w assume P: "server_with_sig L w0 s w"
  then obtain sk pk sg where s: "s = server_locals\<lparr>sv_sig := True, sv_sig_secret_key := Some sk,
      sv_sig_public_key := Some pk, sv_signature := Some sg\<rparr>" "length sk = unat (sig_len_sk L)"
      "length pk = unat (sig_len_pk L)" "length sg = unat (sig_len_sig L)" and C: "server_clean w0 s w"
    by (auto simp: server_with_sig_def)
  obtain r1 k1 w1 where 1: "load_file L SECRET_KEY_FILE (Some sk) (sig_len_sk L) w = Some (r1, Some k1, w1)"
    "lib_only w w1" "r1 = 0 \<and> key_file w SECRET_KEY_FILE (unat (sig_len_sk L)) = Some k1 \<or>
      r1 = - 1 \<and> (\<not> lib_up L \<or> key_file w SECRET_KEY_FILE (unat (sig_len_sk L)) = None)"
    using load_file_spec [OF s(2)] by blast
  obtain r2 k2 w2 where 2: "load_file L PUBLIC_KEY_FILE (Some pk) (sig_len_pk L) w1 = Some (r2, Some k2, w2)"
    "lib_only w1 w2" "r2 = 0 \<and> key_file w1 PUBLIC_KEY_FILE (unat (sig_len_pk L)) = Some k2 \<or>
      r2 = - 1 \<and> (\<not> lib_up L \<or> key_file w1 PUBLIC_KEY_FILE (unat (sig_len_pk L)) = None)"
    using load_file_spec [OF s(3)] by blast
  have f: "frame w0 [] [] 0 w" "frame w0 [] [] 0 w1" "frame w0 [] [] 0 w2" "live w1 = live w" "live w2 = live w"
    using C frame_lib [OF 1(2)] frame_lib [OF 2(2)] by (auto simp: server_clean_def intro: frame_trans0)
  note kf = key_file_frame [OF f(1)] key_file_frame [OF f(2)]
  let ?s1 = "s\<lparr>sv_sig_secret_key := Some k1\<rparr>" and ?s2 = "s\<lparr>sv_sig_secret_key := Some k1, sv_sig_public_key := Some k2\<rparr>"
  have C12: "server_clean w0 ?s1 w1" "server_clean w0 ?s2 w2"
    using C f by (simp_all add: server_clean_def server_held_def s(1))
  then have I12: "server_inv w0 ?s1 w1" "server_inv w0 ?s2 w2"
    by (auto simp: server_clean_def server_inv_def server_res_def s(1) server_locals_def)
  show "ends (server_inv w0) (\<lambda>s' w'. server_with_keys L w0 s' w') G (server_load_keys L s w)"
  proof (cases "r1 = 0")
    case False
    with 1 I12(1) kf assms s(1) show ?thesis by (auto simp: server_load_keys_def)
  next
    case True
    have "server_load_keys L s w = Some (r2 = 0, ?s2, w2)"
      using True 1(1) 2(1) by (simp add: server_load_keys_def s(1) Let_def)
    moreover have "server_with_keys L w0 ?s2 w2" if "r2 = 0"
      using C12(2) True that 1(3) 2(3) kf s(4) unfolding server_with_keys_def
      by (intro conjI exI [of _ k1] exI [of _ k2] exI [of _ sg]) (simp_all add: s(1))
    ultimately show ?thesis using I12(2) 2(3) kf assms by auto
  qed
qed

lemma server_new_kem_ok:
  assumes "G \<longrightarrow> lib_up L"
  shows "phase_ok (server_inv w0) (server_with_keys L w0) (server_new_kem L :: 'm server phase)
     (server_with_kem L w0 False) G"
proof (rule phase_okI)
  fix s :: "'m server" and w assume P: "server_with_keys L w0 s w"
  obtain ok w1 where m0: "acquire L H_KEM w = (ok, w1)" by fastforce
  obtain p1 w2 p2 w3 p3 w4 where m: "oqs_malloc L (kem_len_pk L) w1 = (p1, w2)"
    "oqs_malloc L (kem_len_ct L) w2 = (p2, w3)" "oqs_malloc L (kem_len_ss L) w3 = (p3, w4)" by fastforce
  note a = acquire_spec [OF m0] oqs_malloc_spec [OF m(1)] oqs_malloc_spec [OF m(2)] oqs_malloc_spec [OF m(3)]
  from P obtain sk pk sg where s: "s = server_locals\<lparr>sv_sig := True, sv_sig_secret_key := Some sk,
      sv_sig_public_key := Some pk, sv_signature := Some sg\<rparr>"
    and keys: "key_file w0 SECRET_KEY_FILE (unat (sig_len_sk L)) = Some sk"
      "key_file w0 PUBLIC_KEY_FILE (unat (sig_len_pk L)) = Some pk" "length sg = unat (sig_len_sig L)"
    and C: "server_clean w0 s w"
    by (auto simp: server_with_keys_def)
  let ?s1 = "s\<lparr>sv_kem := ok\<rparr>"
  let ?s2 = "s\<lparr>sv_kem := ok, sv_kem_public_key := p1, sv_ciphertext := p2, sv_shared_secret := p3\<rparr>"
  have "frame w0 [] [] 0 w1" "frame w0 [] [] 0 w4"
    using C a by (meson frame_trans0 server_clean_def)+
  moreover have "live w1 h = live w0 h + server_held ?s1 h" "live w4 h = live w0 h + server_held ?s2 h" for h
    using C a by (simp_all add: server_clean_def server_held_def s server_locals_def)
  ultimately have C12: "server_clean w0 ?s1 w1" "server_clean w0 ?s2 w4" by (simp_all add: server_clean_def)
  then have I12: "server_inv w0 ?s1 w1" "ok \<Longrightarrow> server_inv w0 ?s2 w4"
    by (auto simp: server_clean_def server_inv_def server_res_def s server_locals_def)
  show "ends (server_inv w0) (\<lambda>s' w'. server_with_kem L w0 False s' w') G (server_new_kem L s w)"
  proof -
    have eq: "server_new_kem L s w =
       (if ok then Some (p1 \<noteq> None \<and> p2 \<noteq> None \<and> p3 \<noteq> None, ?s2, w4) else Some (False, ?s1, w1))"
      by (simp add: server_new_kem_def m0 m Let_def)
    have K: "server_with_kem L w0 False ?s2 w4" if "ok" "p1 \<noteq> None" "p2 \<noteq> None" "p3 \<noteq> None"
    proof -
      from that obtain kp ct ss where p: "p1 = Some kp" "p2 = Some ct" "p3 = Some ss" by auto
      with a have "length kp = unat (kem_len_pk L)" "length ct = unat (kem_len_ct L)" "length ss = unat (kem_len_ss L)"
        by auto
      moreover have "?s2 = server_locals\<lparr>sv_sig := True, sv_sig_secret_key := Some sk, sv_sig_public_key := Some pk,
          sv_signature := Some sg, sv_kem := True, sv_kem_public_key := Some kp,
          sv_ciphertext := Some ct, sv_shared_secret := Some ss, sv_listenfd := False, sv_connfd := False\<rparr>"
        using that(1) by (simp add: s p server_locals_def)
      ultimately show ?thesis
        using C12(2) keys unfolding server_with_kem_def by blast
    qed
    have "lib_up L \<longrightarrow> ok" using a(1) by blast
    moreover have "lib_up L \<longrightarrow> p1 \<noteq> None" using a(2) by blast
    moreover have "lib_up L \<longrightarrow> p2 \<noteq> None" using a(3) by blast
    moreover have "lib_up L \<longrightarrow> p3 \<noteq> None" using a(4) by blast
    ultimately have "G \<longrightarrow> ok \<and> p1 \<noteq> None \<and> p2 \<noteq> None \<and> p3 \<noteq> None" using assms by blast
    then show ?thesis unfolding eq using I12 K by (cases ok) auto
  qed
qed

lemma server_accept_ok:
  assumes "G \<longrightarrow> lib_up L"
  shows "phase_ok (server_inv w0) (server_with_kem L w0 False) (server_accept L :: 'm server phase)
     (server_with_kem L w0 True) G"
proof (rule phase_okI)
  fix s :: "'m server" and w assume P: "server_with_kem L w0 False s w"
  obtain o1 w1 o2 w2 o3 w3 o4 w4 o5 w5 where m: "acquire L H_SOCKET w = (o1, w1)" "ext_call L w1 = (o2, w2)"
    "ext_call L w2 = (o3, w3)" "ext_call L w3 = (o4, w4)" "acquire L H_SOCKET w4 = (o5, w5)" by fastforce
  note a = acquire_spec [OF m(1)] ext_call_spec [OF m(2)] ext_call_spec [OF m(3)] ext_call_spec [OF m(4)]
    acquire_spec [OF m(5)]
  from P have C: "server_clean w0 s w" and sock: "\<not> sv_listenfd s" "\<not> sv_connfd s"
    by (auto simp: server_with_kem_def server_locals_def)
  from P have ne: "sv_kem s" "sv_sig s" "\<not> sv_transcript_initialized s" "sv_ret s = EXIT_FAILURE"
    by (auto simp: server_with_kem_def server_locals_def)
  let ?s1 = "s\<lparr>sv_listenfd := o1\<rparr>"
  let ?s2 = "s\<lparr>sv_listenfd := o1, sv_connfd := o5\<rparr>"
  have "frame w0 [] [] 0 w1" "frame w0 [] [] 0 w2" "frame w0 [] [] 0 w3" "frame w0 [] [] 0 w4" "frame w0 [] [] 0 w5"
    using C a by (meson frame_trans0 server_clean_def)+
  moreover have "live w1 h = live w0 h + server_held ?s1 h" "live w5 h = live w0 h + server_held ?s2 h" for h
    using C a sock by (simp_all add: server_clean_def server_held_def)
  moreover have "live w2 = live w1" "live w3 = live w1" "live w4 = live w1" using a by simp_all
  ultimately have C12: "server_clean w0 ?s1 w1" "server_clean w0 ?s1 w2" "server_clean w0 ?s1 w3"
    "server_clean w0 ?s1 w4" "server_clean w0 ?s2 w5" by (simp_all add: server_clean_def)
  then have I12: "server_inv w0 ?s1 w1" "server_inv w0 ?s1 w2" "server_inv w0 ?s1 w3" "server_inv w0 ?s1 w4"
    "server_inv w0 ?s2 w5"
    using ne by (auto simp: server_clean_def server_inv_def server_res_def)
  have eq: "server_accept L s w =
     (if \<not> o1 then Some (False, ?s1, w1) else if \<not> o2 then Some (False, ?s1, w2)
      else if \<not> o3 then Some (False, ?s1, w3) else if \<not> o4 then Some (False, ?s1, w4)
      else Some (o5, ?s2, w5))"
    by (simp add: server_accept_def m Let_def)
  have "server_with_kem L w0 True ?s2 w5" if "o1" "o5"
    using P C12(5) that unfolding server_with_kem_def by (elim conjE exE) (intro conjI, assumption, fastforce)
  moreover have "G \<longrightarrow> o1 \<and> o2 \<and> o3 \<and> o4 \<and> o5" using a assms by blast
  ultimately show "ends (server_inv w0) (\<lambda>s' w'. server_with_kem L w0 True s' w') G (server_accept L s w)"
    unfolding eq using I12 by (cases o1; cases o2; cases o3; cases o4) auto
qed

subsection \<open>The state during the session\<close>

definition server_full :: "handle \<Rightarrow> nat" where
  "server_full = (\<lambda>_. 0)(H_SIG := 1, H_KEM := 1, H_SOCKET := 2, H_MD_CTX := 1, H_OQS_MEM := 6)"

definition server_has ::
  "('c, 'm) lib \<Rightarrow> bytes \<Rightarrow> bytes \<Rightarrow> bytes list \<Rightarrow> 'm server \<Rightarrow> bool" where
  "server_has L sk cert ds s \<longleftrightarrow>
     sv_sig s \<and> sv_kem s \<and> sv_connfd s \<and> sv_listenfd s \<and> sv_transcript_initialized s \<and>
     sv_sig_secret_key s = Some sk \<and> length sk = unat (sig_len_sk L) \<and>
     sv_sig_public_key s = Some cert \<and> length cert = unat (sig_len_pk L) \<and>
     (\<exists>b. sv_signature s = Some b \<and> length b = unat (sig_len_sig L)) \<and>
     (\<exists>b. sv_kem_public_key s = Some b \<and> length b = unat (kem_len_pk L)) \<and>
     (\<exists>b. sv_ciphertext s = Some b \<and> length b = unat (kem_len_ct L)) \<and>
     (\<exists>b. sv_shared_secret s = Some b \<and> length b = unat (kem_len_ss L)) \<and>
     absorbed L (sv_transcript s) ds \<and>
     length (sv_transcript_hash s) = 32 \<and> length (sv_server_finished s) = 32 \<and>
     length (sv_client_finished s) = 32 \<and> length (sv_expected_client_finished s) = 32 \<and>
     length (sv_plaintext s) = 1024 \<and> sv_ret s = EXIT_FAILURE"

definition server_ready ::
  "('c, 'm) lib \<Rightarrow> world \<Rightarrow> bytes \<Rightarrow> bytes \<Rightarrow> bytes list \<Rightarrow> bytes \<Rightarrow> bytes \<Rightarrow> nat \<Rightarrow> 'm server \<Rightarrow> world \<Rightarrow> bool" where
  "server_ready L w0 sk cert ds i out d s w \<longleftrightarrow>
     server_has L sk cert ds s \<and> (\<forall>h. live w h = live w0 h + server_full h) \<and> frame w0 i out d w"

lemma server_ready_inv: "server_ready L w0 sk cert ds i out d s w \<Longrightarrow> server_inv w0 s w"
  by (auto simp: server_ready_def server_has_def server_inv_def server_res_def server_held_def server_full_def absorbed_def)

lemma server_ready_frame:
  "server_ready L w0 sk cert ds i out d s w \<Longrightarrow> server_has L sk cert ds' s' \<Longrightarrow>
     frame w j u e w' \<Longrightarrow> live w' = live w \<Longrightarrow>
     server_ready L w0 sk cert ds' (i @ j) (out @ u) (d + e) s' w'"
  unfolding server_ready_def by (auto intro: frame_trans)

lemma server_ready_lib:
  "server_ready L w0 sk cert ds i out d s w \<Longrightarrow> server_has L sk cert ds' s' \<Longrightarrow>
     frame w [] [] 0 w' \<Longrightarrow> live w' = live w \<Longrightarrow>
     server_ready L w0 sk cert ds' i out d s' w'"
  using server_ready_frame [of L w0 sk cert ds i out d s w ds' s' "[]" "[]" 0 w'] by simp

lemma server_ready_fine: "server_ready L w0 sk cert ds i out d s w \<Longrightarrow> io_fine w = io_fine w0"
  unfolding server_ready_def using frame_fine by blast

lemma server_init_transcript_ok:
  assumes "G \<longrightarrow> lib_up L"
  shows "phase_ok (server_inv w0) (server_with_kem L w0 True) (server_init_transcript L)
     (\<lambda>s w. \<exists>sk cert. key_file w0 SECRET_KEY_FILE (unat (sig_len_sk L)) = Some sk \<and>
        key_file w0 PUBLIC_KEY_FILE (unat (sig_len_pk L)) = Some cert \<and>
        server_ready L w0 sk cert [] [] [] 0 s w) G"
proof (rule phase_okI)
  fix s w assume P: "server_with_kem L w0 True s w"
  obtain rc tr w1 where t: "transcript_init L (Some (sv_transcript s)) w = Some (rc, Some tr, w1)"
    "frame w [] [] 0 w1"
    "rc = 0 \<and> absorbed L tr [] \<and> live w1 = (live w)(H_MD_CTX := Suc (live w H_MD_CTX)) \<or>
      rc = - 1 \<and> ctx tr = None \<and> live w1 = live w \<and> \<not> lib_up L"
    using tr_init by blast
  from P have C: "server_clean w0 s w" by (simp add: server_with_kem_def)
  then have f: "frame w0 [] [] 0 w1" using t(2) by (auto simp: server_clean_def intro: frame_trans0)
  from P obtain sk pk sg kp ct ss where
      k: "key_file w0 SECRET_KEY_FILE (unat (sig_len_sk L)) = Some sk"
        "key_file w0 PUBLIC_KEY_FILE (unat (sig_len_pk L)) = Some pk" "length sg = unat (sig_len_sig L)"
        "length kp = unat (kem_len_pk L)" "length ct = unat (kem_len_ct L)" "length ss = unat (kem_len_ss L)"
      and s: "s = server_locals\<lparr>sv_sig := True, sv_sig_secret_key := Some sk, sv_sig_public_key := Some pk,
              sv_signature := Some sg, sv_kem := True, sv_kem_public_key := Some kp,
              sv_ciphertext := Some ct, sv_shared_secret := Some ss, sv_listenfd := True, sv_connfd := True\<rparr>"
      by (auto simp: server_with_kem_def)
  have lv: "live w h = live w0 h + server_held s h" for h using C by (simp add: server_clean_def)
  show "ends (server_inv w0) (\<lambda>s' w'. (\<exists>sk cert. key_file w0 SECRET_KEY_FILE (unat (sig_len_sk L)) = Some sk \<and>
        key_file w0 PUBLIC_KEY_FILE (unat (sig_len_pk L)) = Some cert \<and>
        server_ready L w0 sk cert [] [] [] 0 s' w')) G (server_init_transcript L s w)"
  proof (cases "rc = 0")
    case False
    then have l: "live w1 = live w" "\<not> lib_up L" using t(3) by auto
    have "server_held (s\<lparr>sv_transcript := tr\<rparr>) = server_held s" by (simp add: server_held_def)
    moreover have "\<not> sv_transcript_initialized s" "sv_kem s" "sv_sig s" "sv_ret s = EXIT_FAILURE" by (simp_all add: s server_locals_def)
    ultimately have "server_inv w0 (s\<lparr>sv_transcript := tr\<rparr>) w1"
      using f lv l(1) unfolding server_inv_def server_res_def by auto
    with False t(1) l(2) assms show ?thesis by (auto simp: server_init_transcript_def)
  next
    case True
    let ?s = "s\<lparr>sv_transcript := tr, sv_transcript_initialized := True\<rparr>"
    have w1: "absorbed L tr []" "live w1 = (live w)(H_MD_CTX := Suc (live w H_MD_CTX))" using t(3) True by auto
    have "live w1 h = live w0 h + server_full h" for h
      using lv by (simp add: w1(2) server_held_def server_full_def s server_locals_def)
    moreover have "server_has L sk pk [] ?s"
      using k w1(1) key_file_len [OF k(1)] key_file_len [OF k(2)]
      by (simp add: server_has_def s server_locals_def)
    ultimately have R: "server_ready L w0 sk pk [] [] [] 0 ?s w1" using f by (simp add: server_ready_def)
    have "server_init_transcript L s w = Some (True, ?s, w1)"
      using t(1) True by (simp add: server_init_transcript_def)
    with R server_ready_inv [OF R] k(1,2) show ?thesis by auto
  qed
qed

end
