(* ===== verification/Server_Session.thy ===== *)
theory Server_Session
  imports Server_Setup
begin

section \<open>The server's side of the session\<close>

text \<open>
  The server's state meets the contract of theory \<open>Session\<close>; each phase of the handshake and of the
  data exchange is an instance of a step proved there, or follows from its transcript and message
  operations. \<open>server_agreed\<close> ties the local variables to the values of the abstract handshake \<open>h\<close>.
\<close>

subsection \<open>The server as a session\<close>

interpretation srv: session L w0 "server_ready L w0 sk cert" "server_inv w0" sv_transcript
  "\<lambda>t s. s\<lparr>sv_transcript := t\<rparr>" sv_transcript_hash sv_transcript_hash_len
  "\<lambda>h l s. s\<lparr>sv_transcript_hash := h, sv_transcript_hash_len := l\<rparr>" "server_update L" "server_hash L"
  for L w0 sk cert
proof (unfold_locales, goal_cases)
  case (3 ds i out d s w) then show ?case by (rule server_ready_inv)
next
  case (7 ds i out d s w j u e w') then show ?case by (auto simp: server_ready_def intro: frame_trans)
qed (simp_all add: server_ready_def server_has_def server_update_def server_hash_def)

interpretation srv_fin: finisher L w0 "server_ready L w0 sk cert" "server_inv w0" sv_transcript
  "\<lambda>t s. s\<lparr>sv_transcript := t\<rparr>" sv_transcript_hash sv_transcript_hash_len
  "\<lambda>h l s. s\<lparr>sv_transcript_hash := h, sv_transcript_hash_len := l\<rparr>" "server_update L" "server_hash L"
  TLS_SERVER_FINISHED_LABEL sv_shared_secret sv_server_finished "\<lambda>f s. s\<lparr>sv_server_finished := f\<rparr>"
  "server_send_finished L" for L w0 sk cert
  by unfold_locales (simp_all add: server_send_finished_def server_ready_def server_has_def)

interpretation srv_ver: verifier L w0 "server_ready L w0 sk cert" "server_inv w0" sv_transcript
  "\<lambda>t s. s\<lparr>sv_transcript := t\<rparr>" sv_transcript_hash sv_transcript_hash_len
  "\<lambda>h l s. s\<lparr>sv_transcript_hash := h, sv_transcript_hash_len := l\<rparr>" "server_update L" "server_hash L"
  TLS_CLIENT_FINISHED_LABEL sv_shared_secret sv_client_finished sv_body_len
  "\<lambda>f l s. s\<lparr>sv_client_finished := f, sv_body_len := l\<rparr>"
  sv_expected_client_finished "\<lambda>f s. s\<lparr>sv_expected_client_finished := f\<rparr>"
  "server_recv_finished L" for L w0 sk cert
  by unfold_locales (simp_all add: server_recv_finished_def server_ready_def server_has_def)

interpretation srv_key: keyed L w0 "server_ready L w0 sk cert" "server_inv w0" sv_transcript
  "\<lambda>t s. s\<lparr>sv_transcript := t\<rparr>" sv_transcript_hash sv_transcript_hash_len
  "\<lambda>h l s. s\<lparr>sv_transcript_hash := h, sv_transcript_hash_len := l\<rparr>" "server_update L" "server_hash L"
  sv_shared_secret sv_application_keys "\<lambda>k s. s\<lparr>sv_application_keys := k\<rparr>"
  sv_recv_state "\<lambda>r s. s\<lparr>sv_recv_state := r\<rparr>" sv_send_state "\<lambda>r s. s\<lparr>sv_send_state := r\<rparr>"
  "server_application_keys L" for L w0 sk cert
  by unfold_locales (simp_all add: server_application_keys_def server_ready_def server_has_def)

interpretation srv_rcv: receiver L w0 "server_ready L w0 sk cert" "server_inv w0" sv_transcript
  "\<lambda>t s. s\<lparr>sv_transcript := t\<rparr>" sv_transcript_hash sv_transcript_hash_len
  "\<lambda>h l s. s\<lparr>sv_transcript_hash := h, sv_transcript_hash_len := l\<rparr>" "server_update L" "server_hash L"
  sv_recv_state "\<lambda>r s. s\<lparr>sv_recv_state := r\<rparr>" sv_plaintext sv_plaintext_len "\<lambda>p s. s\<lparr>sv_plaintext := p\<rparr>"
  "\<lambda>p l s. s\<lparr>sv_plaintext := p, sv_plaintext_len := l\<rparr>"
  "server_recv_data L" for L w0 sk cert
  by unfold_locales (simp_all add: server_recv_data_def server_ready_def server_has_def)

interpretation srv_snd: sender L w0 "server_ready L w0 sk cert" "server_inv w0" sv_transcript
  "\<lambda>t s. s\<lparr>sv_transcript := t\<rparr>" sv_transcript_hash sv_transcript_hash_len
  "\<lambda>h l s. s\<lparr>sv_transcript_hash := h, sv_transcript_hash_len := l\<rparr>" "server_update L" "server_hash L"
  sv_send_state "\<lambda>r s. s\<lparr>sv_send_state := r\<rparr>" for L w0 sk cert
  by unfold_locales (simp_all add: server_ready_def server_has_def)

subsection \<open>What the two sides have agreed on\<close>

definition server_met ::
  "('c, 'm) lib \<Rightarrow> world \<Rightarrow> bytes \<Rightarrow> handshake \<Rightarrow> bytes list \<Rightarrow> bytes \<Rightarrow> bytes \<Rightarrow> nat \<Rightarrow> 'm server \<Rightarrow> world \<Rightarrow> bool" where
  "server_met L w0 sk h ds i out d s w \<longleftrightarrow>
     server_ready L w0 sk (hv_cert h) ds i out d s w \<and>
     sv_kem_public_key s = Some (hv_pk h) \<and> length (hv_pk h) = unat (kem_len_pk L)"

definition server_agreed ::
  "('c, 'm) lib \<Rightarrow> world \<Rightarrow> bytes \<Rightarrow> handshake \<Rightarrow> bytes list \<Rightarrow> bytes \<Rightarrow> bytes \<Rightarrow> nat \<Rightarrow> 'm server \<Rightarrow> world \<Rightarrow> bool" where
  "server_agreed L w0 sk h ds i out d s w \<longleftrightarrow>
     server_met L w0 sk h ds i out d s w \<and> sv_ciphertext s = Some (hv_ct h) \<and> sv_shared_secret s = Some (hv_ss h)"

text \<open>The run the theorems about honest peers are about: no call fails, and the client writes what
  a client with some key and some message writes, followed by anything.\<close>

definition server_honest ::
  "('c, 'm) lib \<Rightarrow> (bytes \<Rightarrow> bytes) \<Rightarrow> world \<Rightarrow> bytes \<Rightarrow> bytes \<Rightarrow> bool" where
  "server_honest L sha256 w0 sk cert \<longleftrightarrow>
     lib_up L \<and> io_fine w0 \<and>
     (\<exists>pk msg r. length pk = unat (kem_len_pk L) \<and> 0 < length msg \<and> length msg \<le> 1023 \<and>
        inbox w0 = client_stream L sha256 (server_view L sha256 (rng w0) sk cert pk) msg @ r)"

abbreviation server_view_of where
  "server_view_of L sha256 w0 sk cert \<equiv> server_view L sha256 (rng w0) sk cert"

definition server_out :: "handshake \<Rightarrow> bytes" where
  "server_out h = hs_msg 2 (hv_ct h) @ hs_msg 11 (hv_cert h)"

lemma server_agreedD:
  assumes "server_agreed L w0 sk h ds i out d s w"
  shows "server_ready L w0 sk (hv_cert h) ds i out d s w" "server_has L sk (hv_cert h) ds s" "frame w0 i out d w"
    "sv_shared_secret s = Some (hv_ss h)" "length (hv_ss h) = unat (kem_len_ss L)"
  using assms by (auto simp: server_agreed_def server_met_def server_ready_def server_has_def)

text \<open>Fields that do not matter for what has been agreed.\<close>

lemma server_agreed_step:
  assumes "server_agreed L w0 sk h ds i out d s w" and "server_ready L w0 sk (hv_cert h) ds' i' out' d' s' w'"
    and "sv_kem_public_key s' = sv_kem_public_key s" and "sv_ciphertext s' = sv_ciphertext s"
    and "sv_shared_secret s' = sv_shared_secret s"
  shows "server_agreed L w0 sk h ds' i' out' d' s' w'"
  using assms by (simp add: server_agreed_def server_met_def)

subsection \<open>The phases\<close>

lemma server_client_hello_ok:
  assumes lib: "library_correct L sha256" and pc: "peer_closed w0"
    and G: "G \<longrightarrow> server_honest L sha256 w0 sk cert"
  shows "phase_ok (server_inv w0) (server_ready L w0 sk cert [] [] [] 0) (server_client_hello L)
     (\<lambda>s w. \<exists>pk. let h = server_view_of L sha256 w0 sk cert pk; m1 = hs_msg 1 pk in
        server_met L w0 sk h [m1] m1 [] 0 s w) G"
proof (rule phase_okI)
  fix s w assume P: "server_ready L w0 sk cert [] [] [] 0 s w"
  let ?Q = "\<lambda>s w. \<exists>pk. let h = server_view_of L sha256 w0 sk cert pk; m1 = hs_msg 1 pk in
        server_met L w0 sk h [m1] m1 [] 0 s w"
  note oqs = oqs_correctD [OF library_correctD(5) [OF lib]]
  from P obtain b where b: "sv_kem_public_key s = Some b" "length b = unat (kem_len_pk L)"
    by (auto simp: server_ready_def server_has_def)
  have f0: "frame w0 [] [] 0 w" and pcw: "peer_closed w"
    using srv.ready_frame [OF P] srv.ready_closed [OF P] pc by simp_all
  obtain rc m l i w1 where r: "recv_handshake_msg 1 (Some b) (kem_len_pk L) (Some (sv_body_len s)) w = Some (rc, Some m, Some l, w1)"
    "frame w i [] 0 w1" "live w1 = live w" "length m = unat (kem_len_pk L)" "rc = 0 \<or> rc = 1 \<or> rc = - 1"
    "rc = 0 \<Longrightarrow> l = kem_len_pk L \<Longrightarrow> i = hs_msg 1 m"
    "\<And>m' r. io_fine w \<Longrightarrow> inbox w = hs_msg 1 m' @ r \<Longrightarrow> length m' = unat (kem_len_pk L) \<Longrightarrow>
       rc = 0 \<and> l = kem_len_pk L \<and> m = m'"
    by (rule recv_exact [OF b(2) oqs(1) pcw, of 1 "sv_body_len s"]) (rule that)
  let ?s1 = "s\<lparr>sv_kem_public_key := Some m, sv_body_len := l\<rparr>"
  have "server_has L sk cert [] ?s1" using P r(4) by (simp add: server_ready_def server_has_def)
  from server_ready_frame [OF P this r(2,3)] have R1: "server_ready L w0 sk cert [] i [] 0 ?s1 w1" by simp
  show "ends (server_inv w0) ?Q G (server_client_hello L s w)"
  proof (cases "rc = 0 \<and> l = kem_len_pk L")
    case False
    have "\<not> G"
    proof
      assume G
      with G obtain pk x where "io_fine w0" "length pk = unat (kem_len_pk L)" "inbox w0 = hs_msg 1 pk @ x"
        by (auto simp: server_honest_def client_stream_def)
      with r(7) [of pk x] False frame_fine [OF f0] f0 show False by (simp add: frame_def)
    qed
    moreover have "server_client_hello L s w = Some (False, ?s1, w1)"
      using False r(1,5) b(1) by (auto simp: server_client_hello_def)
    ultimately show ?thesis using srv.ready_inv [OF R1] by simp
  next
    case True
    have i: "i = hs_msg 1 m" by (rule r(6)) (use True in simp_all)
    have n: "unat (kem_len_pk L) \<le> length m" "take (unat (kem_len_pk L)) m = m" using r(4) by simp_all
    have e: "server_client_hello L s w = server_update L 1 (Some m) (kem_len_pk L) ?s1 w1"
      using True r(1) b(1) by (simp add: server_client_hello_def)
    show ?thesis unfolding e
    proof (rule ends_mono [OF srv.upd_ok [OF R1 n(1) oqs(1)], unfolded n(2)])
      fix s' w' assume "server_ready L w0 sk cert ([] @ [hs_msg 1 m]) i [] 0 s' w' \<and> (\<exists>t. s' = ?s1\<lparr>sv_transcript := t\<rparr>)"
      then show "?Q s' w'" using r(4) i by (auto simp: Let_def server_met_def intro!: exI [of _ m])
    qed (use G in \<open>simp add: server_honest_def\<close>)
  qed
qed

lemma server_hello_ok:
  assumes lib: "library_correct L sha256" and G: "G \<longrightarrow> lib_up L \<and> io_fine w0"
    and h: "h = server_view_of L sha256 w0 sk cert pk"
  shows "phase_ok (server_inv w0) (server_met L w0 sk h [hs_msg 1 pk] (hs_msg 1 pk) [] 0) (server_hello L)
     (server_agreed L w0 sk h [hs_msg 1 pk, hs_msg 2 (hv_ct h)] (hs_msg 1 pk) (hs_msg 2 (hv_ct h)) 1) G"
proof (rule phase_okI)
  fix s w
  assume met: "server_met L w0 sk h [hs_msg 1 pk] (hs_msg 1 pk) [] 0 s w"
  note oqsc = library_correctD(5) [OF lib]
  note oqs = oqs_correctD [OF oqsc]
  from met have R: "server_ready L w0 sk cert [hs_msg 1 pk] (hs_msg 1 pk) [] 0 s w"
    and pk: "sv_kem_public_key s = Some pk" "length pk = unat (kem_len_pk L)" by (simp_all add: server_met_def h)
  from R have has: "server_has L sk cert [hs_msg 1 pk] s" and rng: "rng w = rng w0"
    by (simp_all add: server_ready_def frame_def)
  from has obtain c k where ck: "sv_ciphertext s = Some c" "length c = unat (kem_len_ct L)"
    "sv_shared_secret s = Some k" "length k = unat (kem_len_ss L)" by (auto simp: server_has_def)
  obtain ok c' k' w1 where e: "oqs_kem_encaps L (Some c) (Some k) (Some pk) w = Some (ok, Some c', Some k', w1)"
    "frame w [] [] 1 w1" "live w1 = live w" "length c' = length c" "length k' = length k"
    "ok \<Longrightarrow> kem_encaps L (rng w) pk = (c', k')" "lib_up L \<Longrightarrow> ok"
    by (rule encaps_ok [OF oqsc pk(2) ck(2,4), where w = w]) (rule that)
  let ?s1 = "s\<lparr>sv_ciphertext := Some c', sv_shared_secret := Some k'\<rparr>"
  have "server_has L sk cert [hs_msg 1 pk] ?s1" using has e(4,5) ck by (simp add: server_has_def)
  from server_ready_frame [OF R this e(2,3)]
  have R1: "server_ready L w0 sk cert [hs_msg 1 pk] (hs_msg 1 pk) [] 1 ?s1 w1" by simp
  note unf = server_hello_def [of L s w, unfolded ck pk(1) e(1)]
  show "ends (server_inv w0) (server_agreed L w0 sk h [hs_msg 1 pk, hs_msg 2 (hv_ct h)] (hs_msg 1 pk) (hs_msg 2 (hv_ct h)) 1) G (server_hello L s w)"
  proof (cases ok)
    case False
    then show ?thesis using server_ready_inv [OF R1] e(7) G by (auto simp: unf Let_def)
  next
    case True
    have lc: "unat (kem_len_ct L) \<le> length c'" "take (unat (kem_len_ct L)) c' = c'" using e(4) ck(2) by simp_all
    have hv: "hv_ct h = c'" "hv_ss h = k'" "hv_cert h = cert" "hv_pk h = pk" using e(6) [OF True] rng by (simp_all add: h)
    have eq: "server_hello L s w = do {
        (rc, w) \<leftarrow> send_handshake_msg 2 (Some c') (kem_len_ct L) w1;
        if rc = - 1 then Some (False, ?s1, w) else server_update L 2 (Some c') (kem_len_ct L) ?s1 w }"
      using True by (simp add: unf Let_def cong: if_cong)
    show ?thesis unfolding eq
    proof (rule ends_mono [OF srv.send_upd_ok [OF R1 lc(1) oqs(2)], unfolded lc(2)])
      fix s' w' assume q: "server_ready L w0 sk cert ([hs_msg 1 pk] @ [hs_msg 2 c']) (hs_msg 1 pk) ([] @ hs_msg 2 c') 1 s' w' \<and>
         (\<exists>tr. s' = ?s1\<lparr>sv_transcript := tr\<rparr>)"
      then have "sv_kem_public_key s' = Some pk" "sv_ciphertext s' = Some c'" "sv_shared_secret s' = Some k'"
        using pk(1) by auto
      with q pk(2) show "server_agreed L w0 sk h [hs_msg 1 pk, hs_msg 2 (hv_ct h)] (hs_msg 1 pk) (hs_msg 2 (hv_ct h)) 1 s' w'"
        by (simp add: server_agreed_def server_met_def hv)
    qed (use G in blast)
  qed
qed

lemma server_certificate_ok:
  assumes lib: "library_correct L sha256" and G: "G \<longrightarrow> lib_up L \<and> io_fine w0"
  shows "phase_ok (server_inv w0)
     (server_agreed L w0 sk h [hs_msg 1 (hv_pk h), hs_msg 2 (hv_ct h)] i (hs_msg 2 (hv_ct h)) 1)
     (server_certificate L)
     (server_agreed L w0 sk h (hello_log h) i (server_out h) 1) G"
proof (rule phase_okI)
  fix s w
  assume P: "server_agreed L w0 sk h [hs_msg 1 (hv_pk h), hs_msg 2 (hv_ct h)] i (hs_msg 2 (hv_ct h)) 1 s w"
  note oqs = oqs_correctD [OF library_correctD(5) [OF lib]]
  note D = server_agreedD [OF P]
  have c: "sv_sig_public_key s = Some (hv_cert h)" "unat (sig_len_pk L) \<le> length (hv_cert h)"
    "take (unat (sig_len_pk L)) (hv_cert h) = hv_cert h"
    using D(2) by (simp_all add: server_has_def)
  have eq: "server_certificate L s w = do {
      (rc, w) \<leftarrow> send_handshake_msg 11 (Some (hv_cert h)) (sig_len_pk L) w;
      if rc = - 1 then Some (False, s, w) else server_update L 11 (Some (hv_cert h)) (sig_len_pk L) s w }"
    by (simp add: server_certificate_def c cong: if_cong)
  show "ends (server_inv w0) (server_agreed L w0 sk h (hello_log h) i (server_out h) 1) G (server_certificate L s w)"
    unfolding eq
  proof (rule ends_mono [OF srv.send_upd_ok [OF D(1) c(2) oqs(3)], unfolded c(3)])
    fix s' w'
    assume "server_ready L w0 sk (hv_cert h) ([hs_msg 1 (hv_pk h), hs_msg 2 (hv_ct h)] @ [hs_msg 11 (hv_cert h)]) i
        (hs_msg 2 (hv_ct h) @ hs_msg 11 (hv_cert h)) 1 s' w' \<and> (\<exists>tr. s' = s\<lparr>sv_transcript := tr\<rparr>)"
    then show "server_agreed L w0 sk h (hello_log h) i (server_out h) 1 s' w'"
      by (elim conjE exE, intro server_agreed_step [OF P]) (simp_all add: hello_log_def server_out_def)
  qed (use G in blast)
qed

lemma server_certificate_verify_ok:
  assumes lib: "library_correct L sha256" and G: "G \<longrightarrow> lib_up L \<and> io_fine w0"
    and h: "h = server_view_of L sha256 w0 sk cert pk"
  shows "phase_ok (server_inv w0)
     (server_agreed L w0 sk h (hello_log h) i (server_out h) 1)
     (server_certificate_verify L)
     (server_agreed L w0 sk h (hello_log h @ [cv_msg h]) i (server_out h @ cv_msg h) 2) G"
proof (rule phase_okI)
  fix s w
  let ?Q = "server_agreed L w0 sk h (hello_log h @ [cv_msg h]) i (server_out h @ cv_msg h) 2"
  assume P: "server_agreed L w0 sk h (hello_log h) i (server_out h) 1 s w"
  note oqsc = library_correctD(5) [OF lib]
  note oqs = oqs_correctD [OF oqsc]
  note D = server_agreedD [OF P]
  obtain o1 th l w1 where H: "server_hash L s w = Some (o1, s\<lparr>sv_transcript_hash := th, sv_transcript_hash_len := l\<rparr>, w1)"
    "server_ready L w0 sk (hv_cert h) (hello_log h) i (server_out h) 1 (s\<lparr>sv_transcript_hash := th, sv_transcript_hash_len := l\<rparr>) w1"
    "o1 \<Longrightarrow> th = sha256 (concat (hello_log h)) \<and> l = 32" "length th = 32" "lib_up L \<Longrightarrow> o1"
    by (rule srv.get_hash_ok [OF lib D(1)]) (rule that)
  let ?s1 = "s\<lparr>sv_transcript_hash := th, sv_transcript_hash_len := l\<rparr>"
  show "ends (server_inv w0) ?Q G (server_certificate_verify L s w)"
  proof (cases o1)
    case False
    then show ?thesis using server_ready_inv [OF H(2)] H(1,5) G by (auto simp: server_certificate_verify_def)
  next
    case True
    with H(3) have th: "th = signed_hash sha256 h" "l = 32" by (simp_all add: signed_hash_def)
    have has1: "server_has L sk (hv_cert h) (hello_log h) ?s1" using H(2) by (simp add: server_ready_def)
    then obtain b where b: "sv_signature s = Some b" "length b = unat (sig_len_sig L)"
      and sk: "sv_sig_secret_key s = Some sk" "length sk = unat (sig_len_sk L)"
      by (auto simp: server_has_def)
    have rng: "rng w1 = rng w0 + 1" using H(2) by (simp add: server_ready_def frame_def)
    have lth: "length th = unat (32 :: size_t)" using H(4) by simp
    obtain o2 b' k w2 where S: "oqs_sig_sign L (Some b) (sv_signature_length s) th 32 (Some sk) w1 = Some (o2, Some b', k, w2)"
      "frame w1 [] [] 1 w2" "live w2 = live w1" "length b' = length b"
      "o2 \<Longrightarrow> take (unat k) b' = sig_sign L (rng w1) th sk \<and> unat k = length (sig_sign L (rng w1) th sk) \<and> unat k \<le> length b"
      "lib_up L \<Longrightarrow> o2"
      by (rule sign_ok [OF oqsc lth sk(2) b(2), where l = "sv_signature_length s" and w = w1]) (rule that)
    let ?s2 = "?s1\<lparr>sv_signature := Some b', sv_signature_length := k\<rparr>"
    have "server_has L sk (hv_cert h) (hello_log h) ?s2" using has1 S(4) b(2) by (simp add: server_has_def)
    from server_ready_frame [OF H(2) this S(2,3)]
    have R2: "server_ready L w0 sk (hv_cert h) (hello_log h) i (server_out h) 2 ?s2 w2" by (simp add: numeral_2_eq_2)
    note unf = server_certificate_verify_def [of L s w]
    show ?thesis
    proof (cases o2)
      case False
      then show ?thesis using server_ready_inv [OF R2] S(1,6) H(1) True G b(1) sk(1) th(2)
        by (auto simp: unf Let_def)
    next
      case o2: True
      have "hv_sig h = sig_sign L (rng w1) th sk"
        using rng th(1) server_view_sig [of L sha256 "rng w0" sk cert pk] by (simp add: h)
      with S(5) [OF o2] have sg1: "take (unat k) b' = hv_sig h" by metis
      have sg: "take (unat k) b' = hv_sig h" "unat k \<le> length b'" "unat k \<le> 0xFFFFFF"
        by (rule sg1) (use S(5) [OF o2] S(4) b(2) oqs(4) in linarith)+
      have eq: "server_certificate_verify L s w = do {
          (rc, w) \<leftarrow> send_handshake_msg 15 (Some b') k w2;
          if rc = - 1 then Some (False, ?s2, w) else server_update L 15 (Some b') k ?s2 w }"
        using True o2 H(1) S(1) b(1) sk(1) th(2) by (simp add: unf Let_def cong: if_cong)
      show ?thesis unfolding eq
      proof (rule ends_mono [OF srv.send_upd_ok [OF R2 sg(2,3)], unfolded sg(1)])
        fix s' w'
        assume "server_ready L w0 sk (hv_cert h) (hello_log h @ [hs_msg 15 (hv_sig h)]) i
          (server_out h @ hs_msg 15 (hv_sig h)) 2 s' w' \<and> (\<exists>tr. s' = ?s2\<lparr>sv_transcript := tr\<rparr>)"
        then show "?Q s' w'"
          by (elim conjE exE, intro server_agreed_step [OF P]) (simp_all add: cv_msg_def)
      qed (use G in blast)
    qed
  qed
qed

lemma server_send_finished_ok:
  assumes lib: "library_correct L sha256" and G: "G \<longrightarrow> lib_up L \<and> io_fine w0"
  shows "phase_ok (server_inv w0)
     (server_agreed L w0 sk h (hello_log h @ [cv_msg h]) i out d)
     (server_send_finished L)
     (server_agreed L w0 sk h (hello_log h @ [cv_msg h, sf_msg L sha256 h]) i (out @ sf_msg L sha256 h) d) G"
proof (rule phase_okI)
  fix s w assume P: "server_agreed L w0 sk h (hello_log h @ [cv_msg h]) i out d s w"
  note D = server_agreedD [OF P]
  have m: "sf_msg L sha256 h = hs_msg (msg_code TLS_MSG_FINISHED)
      (finished_mac L (hv_ss h) TLS_SERVER_FINISHED_LABEL (sha256 (concat (hello_log h @ [cv_msg h]))))"
    by (simp add: sf_msg_def server_fin_def)
  show "ends (server_inv w0)
     (server_agreed L w0 sk h (hello_log h @ [cv_msg h, sf_msg L sha256 h]) i (out @ sf_msg L sha256 h) d) G
     (server_send_finished L s w)"
    by (rule ends_mono [OF srv_fin.send_fin_ok [OF lib D(1,4) D(5) [symmetric] m]])
      (use G in \<open>auto intro!: server_agreed_step [OF P]\<close>)
qed

lemma server_recv_finished_ok:
  assumes lib: "library_correct L sha256" and pc: "peer_closed w0"
    and G: "G \<longrightarrow> lib_up L \<and> io_fine w0 \<and> (\<exists>r. inbox w0 = i @ cf_msg L sha256 h @ r)"
  shows "phase_ok (server_inv w0)
     (server_agreed L w0 sk h (hello_log h @ [cv_msg h, sf_msg L sha256 h]) i out d)
     (server_recv_finished L)
     (server_agreed L w0 sk h (hello_log h @ [cv_msg h, sf_msg L sha256 h, cf_msg L sha256 h])
        (i @ cf_msg L sha256 h) out d) G"
proof (rule phase_okI)
  fix s w assume P: "server_agreed L w0 sk h (hello_log h @ [cv_msg h, sf_msg L sha256 h]) i out d s w"
  note D = server_agreedD [OF P]
  have m: "cf_msg L sha256 h = hs_msg (msg_code TLS_MSG_FINISHED) (client_fin L sha256 h)" by (simp add: cf_msg_def)
  show "ends (server_inv w0)
     (server_agreed L w0 sk h (hello_log h @ [cv_msg h, sf_msg L sha256 h, cf_msg L sha256 h])
        (i @ cf_msg L sha256 h) out d) G (server_recv_finished L s w)"
    by (rule ends_mono [OF srv_ver.recv_fin_ok [OF lib D(1) pc D(4) D(5) [symmetric] client_fin_def [of L sha256 h] m]])
      (use G in \<open>auto intro!: server_agreed_step [OF P]\<close>)
qed

subsection \<open>Application data phases\<close>

text \<open>The state of a server that has accepted the client: the keys are in use.\<close>

definition server_keyed ::
  "('c, 'm) lib \<Rightarrow> (bytes \<Rightarrow> bytes) \<Rightarrow> world \<Rightarrow> bytes \<Rightarrow> handshake \<Rightarrow> tls_record_state \<Rightarrow> bytes \<Rightarrow> bytes \<Rightarrow> 'm server \<Rightarrow> world \<Rightarrow> bool" where
  "server_keyed L sha256 w0 sk h rs i out s w \<longleftrightarrow>
     server_agreed L w0 sk h (hello_log h @ [cv_msg h, sf_msg L sha256 h, cf_msg L sha256 h]) i out 2 s w \<and>
     sv_recv_state s = rs \<and> sv_send_state s = server_dir L sha256 h"

lemma server_application_keys_ok:
  assumes lib: "library_correct L sha256" and G: "G \<longrightarrow> lib_up L"
  shows "phase_ok (server_inv w0)
     (server_agreed L w0 sk h (hello_log h @ [cv_msg h, sf_msg L sha256 h, cf_msg L sha256 h]) i out 2)
     (server_application_keys L)
     (server_keyed L sha256 w0 sk h (client_dir L sha256 h) i out) G"
proof (rule phase_okI)
  fix s w
  let ?log = "hello_log h @ [cv_msg h, sf_msg L sha256 h, cf_msg L sha256 h]"
  assume P: "server_agreed L w0 sk h ?log i out 2 s w"
  note D = server_agreedD [OF P]
  show "ends (server_inv w0) (server_keyed L sha256 w0 sk h (client_dir L sha256 h) i out) G
     (server_application_keys L s w)"
    by (rule ends_mono [OF srv_key.install_ok [OF lib D(1,4) D(5) [symmetric] session_keys_def [of L sha256 h]]])
      (use G in \<open>auto simp: server_keyed_def client_dir_def server_dir_def intro!: server_agreed_step [OF P]\<close>)
qed

text \<open>The text received is in the buffer, NUL-terminated.\<close>

definition server_got :: "bytes \<Rightarrow> 'm server \<Rightarrow> bool" where
  "server_got pt s \<longleftrightarrow> 0 < length pt \<and> length pt \<le> 1023 \<and>
     sv_plaintext_len s = of_nat (length pt) \<and> take (Suc (length pt)) (sv_plaintext s) = pt @ [0]"

lemma server_recv_data_ok:
  assumes lib: "library_correct L sha256" and pc: "peer_closed w0"
    and G: "G \<longrightarrow> lib_up L \<and> io_fine w0 \<and>
       (\<exists>msg r. 0 < length msg \<and> length msg \<le> 1023 \<and> inbox w0 = i @ client_record L sha256 h msg @ r)"
  shows "phase_ok (server_inv w0)
     (server_keyed L sha256 w0 sk h (client_dir L sha256 h) i out)
     (server_recv_data L)
     (\<lambda>s w. \<exists>pt. server_got pt s \<and>
        server_keyed L sha256 w0 sk h (next_seq (client_dir L sha256 h)) (i @ client_record L sha256 h pt) out s w) G"
proof (rule phase_okI)
  fix s w
  assume K: "server_keyed L sha256 w0 sk h (client_dir L sha256 h) i out s w"
  then have P: "server_agreed L w0 sk h (hello_log h @ [cv_msg h, sf_msg L sha256 h, cf_msg L sha256 h]) i out 2 s w"
    and st: "sv_recv_state s = client_dir L sha256 h" "sv_send_state s = server_dir L sha256 h"
    by (simp_all add: server_keyed_def)
  show "ends (server_inv w0) (\<lambda>s w. \<exists>pt. server_got pt s \<and>
        server_keyed L sha256 w0 sk h (next_seq (client_dir L sha256 h)) (i @ client_record L sha256 h pt) out s w)
      G (server_recv_data L s w)"
  proof (rule ends_mono [OF srv_rcv.recv_data_ok [OF lib server_agreedD(1) [OF P] pc st(1) conjunct1 [OF dir_ok [OF lib]]]],
      elim exE conjE)
    fix s' w' pt p q
    assume a: "0 < length pt" "length pt \<le> 1023" "take (length pt + 1) p = pt @ [0]"
      "server_ready L w0 sk (hv_cert h) (hello_log h @ [cv_msg h, sf_msg L sha256 h, cf_msg L sha256 h])
         (i @ record_bytes L (client_dir L sha256 h) pt) out 2 s' w'"
      "s' = s\<lparr>sv_plaintext := q, sv_plaintext_len := of_nat (length pt),
         sv_recv_state := next_seq (client_dir L sha256 h), sv_plaintext := p\<rparr>"
    have "server_keyed L sha256 w0 sk h (next_seq (client_dir L sha256 h)) (i @ client_record L sha256 h pt) out s' w'"
      unfolding server_keyed_def using a(4,5) st(2)
      by (intro conjI server_agreed_step [OF P]) (simp_all add: client_record_def)
    moreover have "server_got pt s'" using a(1-3,5) by (simp add: server_got_def)
    ultimately show "\<exists>pt. server_got pt s' \<and> server_keyed L sha256 w0 sk h (next_seq (client_dir L sha256 h))
        (i @ client_record L sha256 h pt) out s' w'" by blast
  qed (use G in \<open>simp add: client_record_def\<close>)
qed

text \<open>How a complete session ends.\<close>

definition server_done ::
  "('c, 'm) lib \<Rightarrow> (bytes \<Rightarrow> bytes) \<Rightarrow> world \<Rightarrow> handshake \<Rightarrow> bytes \<Rightarrow> bytes \<Rightarrow> bytes \<Rightarrow> 'm server \<Rightarrow> world \<Rightarrow> bool" where
  "server_done L sha256 w0 h pt i out s w \<longleftrightarrow>
     server_got pt s \<and> frame w0 i (out @ server_record L sha256 h server_message) 2 w \<and>
     sv_ret s = EXIT_SUCCESS \<and> sv_recv_state s = next_seq (client_dir L sha256 h) \<and>
     sv_send_state s = next_seq (server_dir L sha256 h)"

lemma server_send_data_ok:
  assumes lib: "library_correct L sha256" and G: "G \<longrightarrow> lib_up L \<and> io_fine w0"
  shows "phase_ok (\<lambda>s w. server_res w0 s w \<and> (sv_ret s = EXIT_FAILURE \<or> server_done L sha256 w0 h pt i out s w))
     (\<lambda>s w. server_got pt s \<and> server_keyed L sha256 w0 sk h (next_seq (client_dir L sha256 h)) i out s w)
     (server_send_data L)
     (server_done L sha256 w0 h pt i out) G"
proof (rule phase_okI)
  fix s w
  let ?log = "hello_log h @ [cv_msg h, sf_msg L sha256 h, cf_msg L sha256 h]"
  assume K: "server_got pt s \<and> server_keyed L sha256 w0 sk h (next_seq (client_dir L sha256 h)) i out s w"
  then have P: "server_agreed L w0 sk h ?log i out 2 s w"
    and st: "sv_recv_state s = next_seq (client_dir L sha256 h)" "sv_send_state s = server_dir L sha256 h"
    by (simp_all add: server_keyed_def)
  have n: "0 < length server_message" "length server_message \<le> 1024" by (simp_all add: server_message_def)
  obtain rc st' o' w1 where r: "send_encrypted_record L (Some server_message) (of_nat (length server_message))
      (Some (sv_send_state s)) w = Some (rc, Some st', w1)"
    "server_ready L w0 sk (hv_cert h) ?log i (out @ o') 2 (s\<lparr>sv_send_state := st'\<rparr>) w1"
    "rc = 0 \<Longrightarrow> o' = record_bytes L (server_dir L sha256 h) server_message \<and> st' = next_seq (server_dir L sha256 h)"
    "lib_up L \<Longrightarrow> io_fine w0 \<Longrightarrow> rc = 0"
    by (rule srv_snd.send_data_ok [OF lib server_agreedD(1) [OF P] st(2) conjunct2 [OF dir_ok [OF lib]] n]) (rule that)
  let ?s1 = "s\<lparr>sv_send_state := st'\<rparr>"
  have I1: "server_res w0 ?s1 w1" "sv_ret ?s1 = EXIT_FAILURE" using srv.ready_inv [OF r(2)] by (simp_all add: server_inv_def)
  have I2: "server_res w0 (?s1\<lparr>sv_ret := EXIT_SUCCESS\<rparr>) w1"
    using I1(1) by (simp add: server_res_def server_held_def)
  have eq: "server_send_data L s w = (if rc \<noteq> 0 then Some (False, ?s1, w1) else Some (True, ?s1\<lparr>sv_ret := EXIT_SUCCESS\<rparr>, w1))"
    using r(1) by (simp add: server_send_data_def)
  show "ends (\<lambda>s w. server_res w0 s w \<and> (sv_ret s = EXIT_FAILURE \<or> server_done L sha256 w0 h pt i out s w))
      (server_done L sha256 w0 h pt i out) G (server_send_data L s w)"
  proof (cases "rc = 0")
    case False
    with I1 r(4) G show ?thesis by (auto simp: eq)
  next
    case True
    with r(3) K srv.ready_frame [OF r(2)] st(1)
    have "server_done L sha256 w0 h pt i out (?s1\<lparr>sv_ret := EXIT_SUCCESS\<rparr>) w1"
      by (simp add: server_done_def server_got_def server_record_def)
    with True I2 show ?thesis by (simp add: eq)
  qed
qed

end
