(* ===== verification/Server_Run.thy ===== *)
theory Server_Run
  imports Server_Session
begin

section \<open>The server program as a whole\<close>

text \<open>
  The phases composed into \<open>server_main\<close>: the total-correctness triples of theories \<open>Server_Setup\<close> and \<open>Server_Session\<close>
  are chained by \<open>run_phases_ok_Cons\<close> into one triple for all phases, \<open>server_end\<close> follows on
  every path, and the three properties of the program are read off.
\<close>

text \<open>What success means: the server has read the whole stream of a client with some key and some
  text, against its own key files and its own choices, and has answered with its stream.\<close>

definition server_accepted ::
  "('c, 'm) lib \<Rightarrow> (bytes \<Rightarrow> bytes) \<Rightarrow> world \<Rightarrow> bytes \<Rightarrow> bytes \<Rightarrow> bytes \<Rightarrow> bytes \<Rightarrow> 'm server \<Rightarrow> world \<Rightarrow> bool" where
  "server_accepted L sha256 w0 sk cert pk pt s w \<longleftrightarrow>
     (let h = server_view_of L sha256 w0 sk cert pk in
        key_file w0 SECRET_KEY_FILE (unat (sig_len_sk L)) = Some sk \<and>
        key_file w0 PUBLIC_KEY_FILE (unat (sig_len_pk L)) = Some cert \<and>
        length pk = unat (kem_len_pk L) \<and> server_got pt s \<and>
        frame w0 (client_stream L sha256 h pt) (server_stream L sha256 h server_message) 2 w \<and>
        sv_recv_state s = next_seq (client_dir L sha256 h) \<and>
        sv_send_state s = next_seq (server_dir L sha256 h))"

definition server_exit ::
  "('c, 'm) lib \<Rightarrow> (bytes \<Rightarrow> bytes) \<Rightarrow> world \<Rightarrow> 'm server \<Rightarrow> world \<Rightarrow> bool" where
  "server_exit L sha256 w0 s w \<longleftrightarrow>
     server_res w0 s w \<and>
     (sv_ret s = EXIT_FAILURE \<or>
      sv_ret s = EXIT_SUCCESS \<and> (\<exists>sk cert pk pt. server_accepted L sha256 w0 sk cert pk pt s w))"

lemma server_inv_exit: "server_inv w0 s w \<Longrightarrow> server_exit L sha256 w0 s w"
  by (simp add: server_inv_def server_exit_def)

lemma server_step:
  assumes "phase_ok (server_inv w0) P f Q G" and "phase_ok (server_exit L sha256 w0) Q (run_phases fs) R G"
  shows "phase_ok (server_exit L sha256 w0) P (run_phases (f # fs)) R G"
  by (rule run_phases_ok_Cons [OF phase_ok_inv [OF assms(1)] assms(2)]) (rule server_inv_exit)

text \<open>After the Client Hello, for the key it brought.\<close>

lemma server_rest_ok:
  assumes lib: "library_correct L sha256" and pc: "peer_closed w0"
    and keys: "key_file w0 SECRET_KEY_FILE (unat (sig_len_sk L)) = Some sk"
      "key_file w0 PUBLIC_KEY_FILE (unat (sig_len_pk L)) = Some cert"
    and pk: "length pk = unat (kem_len_pk L)"
    and h: "h = server_view_of L sha256 w0 sk cert pk"
    and G: "G \<longrightarrow> lib_up L \<and> io_fine w0 \<and>
       (\<exists>msg r. 0 < length msg \<and> length msg \<le> 1023 \<and> inbox w0 = client_stream L sha256 h msg @ r)"
  shows "phase_ok (server_exit L sha256 w0)
     (server_met L w0 sk h [hs_msg 1 pk] (hs_msg 1 pk) [] 0)
     (run_phases (tl (server_session L)))
     (\<lambda>s w. sv_ret s = EXIT_SUCCESS \<and> (\<exists>sk cert pk pt. server_accepted L sha256 w0 sk cert pk pt s w)) G"
proof -
  let ?I = "server_exit L sha256 w0"
  let ?i = "hs_msg 1 pk @ cf_msg L sha256 h"
  let ?o = "(server_out h @ cv_msg h) @ sf_msg L sha256 h"
  let ?S = "\<lambda>pt s w. server_done L sha256 w0 h pt (?i @ client_record L sha256 h pt) ?o s w"
  have up: "G \<longrightarrow> lib_up L" "G \<longrightarrow> lib_up L \<and> io_fine w0" using G by simp_all
  have fin: "G \<longrightarrow> lib_up L \<and> io_fine w0 \<and> (\<exists>r. inbox w0 = hs_msg 1 pk @ cf_msg L sha256 h @ r)"
    "G \<longrightarrow> lib_up L \<and> io_fine w0 \<and>
       (\<exists>msg r. 0 < length msg \<and> length msg \<le> 1023 \<and> inbox w0 = ?i @ client_record L sha256 h msg @ r)"
    using G by (auto simp: client_stream_def h)
  have hp: "hv_pk h = pk" by (simp add: h)
  have acc: "sv_ret s = EXIT_SUCCESS \<and> (\<exists>sk cert pk pt. server_accepted L sha256 w0 sk cert pk pt s w)"
    if "?S pt s w" for pt s w
  proof -
    have "server_accepted L sha256 w0 sk cert pk pt s w"
      using that keys pk hp unfolding server_accepted_def server_done_def h [symmetric]
      by (simp add: Let_def client_stream_def server_stream_def server_out_def)
    with that show ?thesis unfolding server_done_def by blast
  qed
  have J: "server_res w0 s w \<and> (sv_ret s = EXIT_FAILURE \<or> ?S pt s w) \<Longrightarrow> ?I s w" for pt s w
    using acc unfolding server_exit_def by blast
  let ?R = "\<lambda>s w. sv_ret s = EXIT_SUCCESS \<and> (\<exists>sk cert pk pt. server_accepted L sha256 w0 sk cert pk pt s w)"
  have data: "phase_ok ?I
      (\<lambda>s w. \<exists>pt. server_got pt s \<and> server_keyed L sha256 w0 sk h (next_seq (client_dir L sha256 h))
          (?i @ client_record L sha256 h pt) ?o s w)
      (server_send_data L) (\<lambda>s w. ?R s w \<and> ?I s w) G"
    by (rule phase_ok_keep, rule phase_ok_conseq, rule phase_ok_ex,
        rule phase_ok_inv [OF server_send_data_ok [OF lib up(2)]], rule J, assumption) (use acc in blast)
  have last: "phase_ok ?I (\<lambda>s w. ?R s w \<and> ?I s w) (run_phases []) ?R G"
    by (rule phase_okI) simp
  have log: "[hs_msg 1 (hv_pk h), hs_msg 2 (hv_ct h)] = [hs_msg 1 pk, hs_msg 2 (hv_ct h)]" by (simp add: hp)
  show ?thesis
    unfolding server_session_def list.sel
    by (rule server_step [OF server_hello_ok [OF lib up(2) h]],
        rule server_step [OF server_certificate_ok [OF lib up(2), where h = h, unfolded log]],
        rule server_step [OF server_certificate_verify_ok [OF lib up(2) h]],
        rule server_step [OF server_send_finished_ok [OF lib up(2)]],
        rule server_step [OF server_recv_finished_ok [OF lib pc fin(1)]],
        rule server_step [OF server_application_keys_ok [OF lib up(1)]],
        rule server_step [OF server_recv_data_ok [OF lib pc fin(2)]],
        rule run_phases_ok_Cons [OF data last])
qed

text \<open>The honest run the theorems are about, with the keys of the server's files.\<close>

definition server_serves ::
  "('c, 'm) lib \<Rightarrow> (bytes \<Rightarrow> bytes) \<Rightarrow> world \<Rightarrow> bytes \<Rightarrow> bytes \<Rightarrow> bool" where
  "server_serves L sha256 w0 sk cert \<longleftrightarrow>
     key_file w0 SECRET_KEY_FILE (unat (sig_len_sk L)) = Some sk \<and>
     key_file w0 PUBLIC_KEY_FILE (unat (sig_len_pk L)) = Some cert \<and>
     server_honest L sha256 w0 sk cert"

lemma server_session_ok:
  assumes lib: "library_correct L sha256" and pc: "peer_closed w0"
    and keys: "key_file w0 SECRET_KEY_FILE (unat (sig_len_sk L)) = Some sk"
      "key_file w0 PUBLIC_KEY_FILE (unat (sig_len_pk L)) = Some cert"
    and G: "G \<longrightarrow> server_honest L sha256 w0 sk cert"
  shows "phase_ok (server_exit L sha256 w0) (server_ready L w0 sk cert [] [] [] 0)
     (run_phases (server_session L))
     (\<lambda>s w. sv_ret s = EXIT_SUCCESS \<and> (\<exists>sk cert pk pt. server_accepted L sha256 w0 sk cert pk pt s w)) G"
proof -
  let ?I = "server_exit L sha256 w0"
  let ?R = "\<lambda>s w. sv_ret s = EXIT_SUCCESS \<and> (\<exists>sk cert pk pt. server_accepted L sha256 w0 sk cert pk pt s w)"
  note oqs = oqs_correctD [OF library_correctD(5) [OF lib]]
  have rest: "phase_ok ?I (\<lambda>s w. let h = server_view_of L sha256 w0 sk cert pk; m1 = hs_msg 1 pk in
        server_met L w0 sk h [m1] m1 [] 0 s w) (run_phases (tl (server_session L))) ?R G"
    if "let h = server_view_of L sha256 w0 sk cert pk; m1 = hs_msg 1 pk in server_met L w0 sk h [m1] m1 [] 0 s w"
    for pk s w
  proof -
    let ?h = "server_view_of L sha256 w0 sk cert pk"
    from that have pk: "length pk = unat (kem_len_pk L)" and f: "inbox w0 = hs_msg 1 pk @ inbox w"
      by (simp_all add: server_met_def server_ready_def frame_def Let_def)
    have "lib_up L \<and> io_fine w0 \<and>
       (\<exists>msg r. 0 < length msg \<and> length msg \<le> 1023 \<and> inbox w0 = client_stream L sha256 ?h msg @ r)" if G
    proof -
      from that G obtain pk' msg r where g: "lib_up L" "io_fine w0" "length pk' = unat (kem_len_pk L)"
        "0 < length msg" "length msg \<le> 1023"
        "inbox w0 = client_stream L sha256 (server_view_of L sha256 w0 sk cert pk') msg @ r"
        by (auto simp: server_honest_def)
      have "hs_valid (1, pk)" "hs_valid (1, pk')" using pk g(3) oqs(1) by simp_all
      from hs_cancel [OF this g(6) [unfolded f client_stream_def msg_code.simps append_assoc server_view_sel]]
      have "pk = pk'" by blast
      with g show ?thesis by blast
    qed
    then show ?thesis unfolding Let_def by (intro server_rest_ok [OF lib pc keys pk refl]) blast
  qed
  have first: "phase_ok ?I (server_ready L w0 sk cert [] [] [] 0) (server_client_hello L)
     (\<lambda>s w. \<exists>pk. let h = server_view_of L sha256 w0 sk cert pk; m1 = hs_msg 1 pk in
        server_met L w0 sk h [m1] m1 [] 0 s w) G"
    by (rule phase_ok_inv [OF server_client_hello_ok [OF lib pc G]]) (rule server_inv_exit)
  have split: "server_session L = server_client_hello L # tl (server_session L)" by (simp add: server_session_def)
  show ?thesis
    by (subst split, rule run_phases_ok_choose [OF first], rule rest, assumption)
qed

lemma server_phases_ok:
  assumes lib: "library_correct L sha256" and pc: "peer_closed w0"
    and G: "G \<longrightarrow> (\<exists>sk cert. server_serves L sha256 w0 sk cert)"
  shows "phase_ok (server_exit L sha256 w0)
     (\<lambda>s w. server_clean w0 s w \<and> s = server_locals\<lparr>sv_sig := True\<rparr>)
     (run_phases (server_setup L @ server_session L))
     (\<lambda>s w. sv_ret s = EXIT_SUCCESS \<and> (\<exists>sk cert pk pt. server_accepted L sha256 w0 sk cert pk pt s w)) G"
proof -
  have g: "G \<longrightarrow> lib_up L" "G \<longrightarrow> lib_up L \<and> key_file w0 SECRET_KEY_FILE (unat (sig_len_sk L)) \<noteq> None \<and>
     key_file w0 PUBLIC_KEY_FILE (unat (sig_len_pk L)) \<noteq> None"
    using G by (auto simp: server_serves_def server_honest_def)
  have session: "phase_ok (server_exit L sha256 w0)
     (\<lambda>s w. \<exists>sk cert. key_file w0 SECRET_KEY_FILE (unat (sig_len_sk L)) = Some sk \<and>
        key_file w0 PUBLIC_KEY_FILE (unat (sig_len_pk L)) = Some cert \<and>
        server_ready L w0 sk cert [] [] [] 0 s w)
     (run_phases (server_session L))
     (\<lambda>s w. sv_ret s = EXIT_SUCCESS \<and> (\<exists>sk cert pk pt. server_accepted L sha256 w0 sk cert pk pt s w)) G"
  proof (rule phase_okI, elim exE conjE)
    fix s w sk cert
    assume k: "key_file w0 SECRET_KEY_FILE (unat (sig_len_sk L)) = Some sk"
      "key_file w0 PUBLIC_KEY_FILE (unat (sig_len_pk L)) = Some cert" and R: "server_ready L w0 sk cert [] [] [] 0 s w"
    have "G \<longrightarrow> server_honest L sha256 w0 sk cert" using G k by (auto simp: server_serves_def)
    from phase_okD [OF server_session_ok [OF lib pc k this] R]
    show "ends (server_exit L sha256 w0)
      (\<lambda>s w. sv_ret s = EXIT_SUCCESS \<and> (\<exists>sk cert pk pt. server_accepted L sha256 w0 sk cert pk pt s w)) G
      (run_phases (server_session L) s w)" .
  qed
  show ?thesis
    unfolding server_setup_def append_Cons append_Nil
    by (rule server_step [OF server_alloc_sig_ok [OF g(1)]],
        rule server_step [OF server_load_keys_ok [OF g(2)]],
        rule server_step [OF server_new_kem_ok [OF g(1)]],
        rule server_step [OF server_accept_ok [OF g(1)]],
        rule server_step [OF server_init_transcript_ok [OF g(1)] session])
qed

lemma server_end_accepted:
  assumes "server_accepted L sha256 w0 sk cert pk pt s w"
    and "s' = s\<lparr>sv_transcript := tr, sv_application_keys := ks\<rparr>"
  shows "server_accepted L sha256 w0 sk cert pk pt s' (w\<lparr>live := lv\<rparr>)"
  using assms by (simp add: server_accepted_def server_got_def frame_def Let_def)

lemma server_main_ends:
  assumes lib: "library_correct L sha256" and pc: "peer_closed w"
    and G: "G \<longrightarrow> (\<exists>sk cert. server_serves L sha256 w sk cert)"
  shows "\<exists>ret s' w'. server_main L w = Some (ret, s', w') \<and> live w' = live w \<and> pipe_to w w' \<and>
     sv_application_keys s' = zero_keys \<and>
     (ret = EXIT_FAILURE \<and> \<not> G \<or>
      ret = EXIT_SUCCESS \<and> (\<exists>sk cert pk pt. server_accepted L sha256 w sk cert pk pt s' w'))"
proof -
  obtain ok w1 where a: "acquire L H_SIG w = (ok, w1)" by fastforce
  note sp = acquire_spec [OF a]
  let ?s = "server_locals\<lparr>sv_sig := ok\<rparr>"
  have new: "server_new_sig L server_locals w = Some (ok, ?s, w1)" by (simp add: server_new_sig_def a)
  show ?thesis
  proof (cases ok)
    case False
    with new have "server_main L w = Some (EXIT_FAILURE, ?s, w1)" by (simp add: server_main_def)
    moreover have "live w1 = live w" "pipe_to w w1" "\<not> lib_up L" using sp False by (auto simp: frame_def)
    ultimately show ?thesis using G by (auto simp: server_serves_def server_honest_def server_locals_def)
  next
    case True
    have P: "server_clean w ?s w1 \<and> ?s = server_locals\<lparr>sv_sig := True\<rparr>"
      using sp True by (auto simp: server_clean_def server_held_def server_locals_def)
    from phase_okD [OF server_phases_ok [OF lib pc G] P]
    obtain ok2 s2 w2 where r: "run_phases (server_setup L @ server_session L) ?s w1 = Some (ok2, s2, w2)"
      "server_exit L sha256 w s2 w2" "ok2 \<Longrightarrow> sv_ret s2 = EXIT_SUCCESS" "G \<Longrightarrow> ok2"
      by (rule endsE) (rule that, assumption, assumption, simp_all)
    from r(2) have res: "server_res w s2 w2" by (simp add: server_exit_def)
    obtain s3 where e: "server_end s2 w2 = Some (sv_ret s2, s3, w2\<lparr>live := live w\<rparr>)"
      "s3 = s2\<lparr>sv_transcript := sv_transcript s3, sv_application_keys := zero_keys\<rparr>"
      using server_end_ok [OF res] by blast
    have pp: "pipe_to w (w2\<lparr>live := live w\<rparr>)" using res by (auto simp: server_res_def frame_def)
    have m: "server_main L w = Some (sv_ret s2, s3, w2\<lparr>live := live w\<rparr>)"
      using True new r(1) e(1) by (simp add: server_main_def)
    have z: "sv_application_keys s3 = zero_keys" by (subst e(2)) simp
    from r(2) consider "sv_ret s2 = EXIT_FAILURE"
      | sk cert pk pt where "sv_ret s2 = EXIT_SUCCESS" "server_accepted L sha256 w sk cert pk pt s2 w2"
      by (auto simp: server_exit_def)
    then show ?thesis
    proof cases
      case 1
      with r(3,4) have "\<not> G" by auto
      with 1 m z pp show ?thesis by simp
    next
      case 2
      have "\<exists>sk cert pk pt. server_accepted L sha256 w sk cert pk pt s3 (w2\<lparr>live := live w\<rparr>)"
        using server_end_accepted [OF 2(2) e(2), of "live w"] by blast
      with 2(1) m z pp show ?thesis by simp
    qed
  qed
qed

text \<open>An input determines the client's key and the text a server can have accepted on it.\<close>

lemma server_accepted_unique:
  assumes lib: "library_correct L sha256" and A: "server_accepted L sha256 w sk' cert' pk' pt s' w'"
    and keys: "key_file w SECRET_KEY_FILE (unat (sig_len_sk L)) = Some sk"
      "key_file w PUBLIC_KEY_FILE (unat (sig_len_pk L)) = Some cert"
    and h: "h = server_view L sha256 (rng w) sk cert pk" and pk: "length pk = unat (kem_len_pk L)"
    and msg: "0 < length msg" "length msg \<le> 1023"
    and inb: "inbox w = client_stream L sha256 h msg @ r"
  shows "sk' = sk \<and> cert' = cert \<and> pk' = pk \<and> pt = msg \<and> inbox w' = r"
proof -
  let ?h = "server_view L sha256 (rng w) sk' cert' pk'"
  from A keys have k: "sk' = sk" "cert' = cert" by (simp_all add: server_accepted_def Let_def)
  from A have a: "length pk' = unat (kem_len_pk L)" "server_got pt s'" "inbox w = client_stream L sha256 ?h pt @ inbox w'"
    by (simp_all add: server_accepted_def Let_def frame_def)
  have le: "length pk \<le> 0xFFFFFF" "length pk' \<le> 0xFFFFFF"
    using oqs_correctD(1) [OF library_correctD(5) [OF lib]] pk a(1) by simp_all
  have e: "h = ?h \<and> msg = pt \<and> r = inbox w'"
    using client_stream_cancel [OF lib, of h ?h msg pt r "inbox w'"] le msg a(2,3) h k inb by (auto simp: server_got_def)
  then have "hv_pk h = hv_pk ?h" by simp
  then have "pk' = pk" by (simp add: h)
  with e k show ?thesis by simp
qed

subsection \<open>A concrete run\<close>

definition example_view :: handshake where
  "example_view = server_view sample_lib (pad 32) 0 [7, 8, 9] [1, 2, 3] [5, 6]"

definition server_world :: world where
  "server_world = (sample_world (client_stream sample_lib (pad 32) example_view [72, 105]))
     \<lparr>files := [SECRET_KEY_FILE \<mapsto> [7, 8, 9], PUBLIC_KEY_FILE \<mapsto> [1, 2, 3]]\<rparr>"

lemma server_world_sel [simp]:
  "peer_closed server_world" "io_fine server_world" "rng server_world = 0" "outbox server_world = []"
  "inbox server_world = client_stream sample_lib (pad 32) example_view [72, 105]"
  "key_file server_world SECRET_KEY_FILE 3 = Some [7, 8, 9]"
  "key_file server_world PUBLIC_KEY_FILE 3 = Some [1, 2, 3]"
  using sample_world_fine by (simp_all add: server_world_def io_fine_def sample_world_def key_file_def)

lemma server_world_serves: "server_serves sample_lib (pad 32) server_world [7, 8, 9] [1, 2, 3]"
proof -
  have "length [5, 6 :: byte] = unat (kem_len_pk sample_lib)" "0 < length [72, 105 :: byte]" "length [72, 105 :: byte] \<le> 1023"
    by simp_all
  moreover have "inbox server_world = client_stream sample_lib (pad 32)
      (server_view sample_lib (pad 32) (rng server_world) [7, 8, 9] [1, 2, 3] [5, 6]) [72, 105] @ []"
    by (simp add: example_view_def)
  ultimately have "server_honest sample_lib (pad 32) server_world [7, 8, 9] [1, 2, 3]"
    unfolding server_honest_def using sample_lib_up server_world_sel(2) by blast
  then show ?thesis by (simp add: server_serves_def)
qed

subsection \<open>Properties\<close>

text \<open>C5: the server process always ends, whatever the client sends, whichever library calls fail and
  however transfers are cut (the client eventually closes), in one of two ways. Either \<open>SIGPIPE\<close>
  kills it in a \<open>send\<close>, with no exit code and no cleanup: only under the default disposition,
  which the program leaves as it is, and only if the client breaks the connection while it writes.
  Or it exits with one of its two codes; then every socket, file, context, key buffer and OQS
  object it acquired has been freed exactly once, and the variable \<open>application_keys\<close> is wiped
  (not the copies of the keys in \<open>send_state\<close> and \<open>recv_state\<close>).\<close>

theorem server_main_terminates:
  assumes "library_correct L sha256" and "peer_closed w"
  shows "\<exists>out. server_process L sigpipe_default w = Some out \<and>
     (out = Killed_SIGPIPE \<and> sigpipe_default \<and> (\<exists>k. io_sched w k = Io_pipe) \<or>
      (\<exists>ret s' w'. out = Exited ret s' w' \<and> (ret = EXIT_SUCCESS \<or> ret = EXIT_FAILURE) \<and>
         live w' = live w \<and> sv_application_keys s' = zero_keys))"
proof -
  obtain ret s' w' where m: "server_main L w = Some (ret, s', w')" "live w' = live w" "pipe_to w w'"
    "sv_application_keys s' = zero_keys" "ret = EXIT_SUCCESS \<or> ret = EXIT_FAILURE"
    using server_main_ends [OF assms, of False] by blast
  then have "server_process L sigpipe_default w = Some (process_outcome sigpipe_default w (ret, s', w'))"
    by (simp add: server_process_def)
  with m(2-5) show ?thesis by (auto simp: process_outcome_def pipe_to_def)
qed

theorem server_main_terminates_witness:
  "\<exists>out. server_process sample_lib True
       ((sample_world [1, 0])\<lparr>io_sched := \<lambda>k. if k < 3 then Xfer 4 else Io_pipe\<rparr>) = Some out \<and>
     (out = Killed_SIGPIPE \<or>
      (\<exists>ret s' w'. out = Exited ret s' w' \<and> (ret = EXIT_SUCCESS \<or> ret = EXIT_FAILURE) \<and>
         live w' = live (sample_world [1, 0]) \<and> sv_application_keys s' = zero_keys))"
proof -
  let ?w = "(sample_world [1, 0])\<lparr>io_sched := \<lambda>k. if k < 3 then Xfer 4 else Io_pipe\<rparr>"
  have "peer_closed ?w" by simp
  from server_main_terminates [OF sample_library_correct this, where sigpipe_default = True] show ?thesis by auto
qed

text \<open>C8: the server reports success only after a complete, authenticated session: what it read is
  exactly a client's stream for some key and text (Client Hello, a Client Finished that is the MAC
  of this very transcript, one record sealed with the client's key), what it wrote is exactly its
  own stream for that client, and both record states have advanced by one.\<close>

theorem server_main_accepts_only:
  assumes "library_correct L sha256" and "peer_closed w"
    and "server_main L w = Some (EXIT_SUCCESS, s', w')"
  shows "\<exists>sk cert pk pt. server_accepted L sha256 w sk cert pk pt s' w'"
  using server_main_ends [OF assms(1,2), of False] assms(3) by auto

theorem server_main_accepts_only_witness:
  "\<exists>s' w' sk cert pk pt. server_main sample_lib server_world = Some (EXIT_SUCCESS, s', w') \<and>
     server_accepted sample_lib (pad 32) server_world sk cert pk pt s' w'"
proof -
  have "True \<longrightarrow> (\<exists>sk cert. server_serves sample_lib (pad 32) server_world sk cert)"
    using server_world_serves by blast
  from server_main_ends [OF sample_library_correct server_world_sel(1) this]
  obtain s' w' where "server_main sample_lib server_world = Some (EXIT_SUCCESS, s', w')" by auto
  with server_main_accepts_only [OF sample_library_correct server_world_sel(1) this] show ?thesis by blast
qed

text \<open>C10: an honest client is served: when no call fails and the input starts with a client's stream,
  the server succeeds, consumes exactly that stream, has the client's text NUL-terminated in its
  buffer, and has written its complete answer.\<close>

theorem server_main_serves_honest:
  assumes lib: "library_correct L sha256" and pc: "peer_closed w" and up: "lib_up L" "io_fine w"
    and keys: "key_file w SECRET_KEY_FILE (unat (sig_len_sk L)) = Some sk"
      "key_file w PUBLIC_KEY_FILE (unat (sig_len_pk L)) = Some cert"
    and h: "h = server_view L sha256 (rng w) sk cert pk" and pk: "length pk = unat (kem_len_pk L)"
    and msg: "0 < length msg" "length msg \<le> 1023"
    and inb: "inbox w = client_stream L sha256 h msg @ r"
  shows "\<exists>s' w'. server_main L w = Some (EXIT_SUCCESS, s', w') \<and> inbox w' = r \<and>
     outbox w' = outbox w @ server_stream L sha256 h server_message \<and>
     take (length msg + 1) (sv_plaintext s') = msg @ [0]"
proof -
  have "server_serves L sha256 w sk cert"
    using keys up pk msg inb h unfolding server_serves_def server_honest_def by blast
  then have "True \<longrightarrow> (\<exists>sk cert. server_serves L sha256 w sk cert)" by blast
  from server_main_ends [OF lib pc this] obtain s' w' sk' cert' pk' pt where m:
    "server_main L w = Some (EXIT_SUCCESS, s', w')" "server_accepted L sha256 w sk' cert' pk' pt s' w'" by auto
  from server_accepted_unique [OF lib m(2) keys h pk msg inb]
  have "sk' = sk" "cert' = cert" "pk' = pk" "pt = msg" "inbox w' = r" by simp_all
  with m h show ?thesis by (auto simp: server_accepted_def Let_def frame_def server_got_def)
qed

theorem server_main_serves_honest_witness:
  "\<exists>s' w'. server_main sample_lib server_world = Some (EXIT_SUCCESS, s', w') \<and> inbox w' = [] \<and>
     outbox w' = server_stream sample_lib (pad 32) example_view server_message \<and>
     take (length [72, 105 :: byte] + 1) (sv_plaintext s') = [72, 105, 0]"
  using server_main_serves_honest [OF sample_library_correct _ sample_lib_up, of server_world "[7, 8, 9]" "[1, 2, 3]"
      example_view "[5, 6]" "[72, 105]" "[]"]
  by (simp add: example_view_def)

end
