(* ===== verification/Secure_Client.thy ===== *)
theory Secure_Client
  imports Session
begin

section \<open>The client (\<open>network/secure_client.c\<close>)\<close>

text \<open>
  \<open>main\<close> as a sequence of phases on its local variables, like the server: each numbered block of
  the source is a phase, a \<open>goto end\<close> stops the sequence. Unlike the server, a missing OQS object
  goes through \<open>end\<close> too.
\<close>

record 'm client =
  cl_sockfd :: bool
  cl_ret :: int
  cl_transcript_initialized :: bool
  cl_sig :: bool
  cl_sig_public_key :: ptr
  cl_signature :: ptr
  cl_signature_length :: size_t
  cl_kem :: bool
  cl_kem_public_key :: ptr
  cl_kem_secret_key :: ptr
  cl_shared_secret :: ptr
  cl_ciphertext :: ptr
  cl_ciphertext_length :: size_t
  cl_application_keys :: tls_application_keys
  cl_body_len :: size_t
  cl_transcript :: "'m tls_transcript"
  cl_transcript_hash :: bytes
  cl_transcript_hash_len :: size_t
  cl_server_finished :: bytes
  cl_expected_server_finished :: bytes
  cl_client_finished :: bytes
  cl_send_state :: tls_record_state
  cl_recv_state :: tls_record_state
  cl_plaintext :: bytes
  cl_plaintext_len :: size_t

definition client_locals :: "'m client" where
  "client_locals = \<lparr>cl_sockfd = False, cl_ret = EXIT_FAILURE, cl_transcript_initialized = False,
     cl_sig = False, cl_sig_public_key = None, cl_signature = None, cl_signature_length = 0,
     cl_kem = False, cl_kem_public_key = None, cl_kem_secret_key = None, cl_shared_secret = None,
     cl_ciphertext = None, cl_ciphertext_length = 0, cl_application_keys = zero_keys,
     cl_body_len = 0, cl_transcript = \<lparr>ctx = None\<rparr>, cl_transcript_hash = local_array 32,
     cl_transcript_hash_len = 0, cl_server_finished = local_array 32,
     cl_expected_server_finished = local_array 32, cl_client_finished = local_array 32,
     cl_send_state = \<lparr>rs_key = local_array 32, rs_static_iv = local_array 12, sequence_number = 0\<rparr>,
     cl_recv_state = \<lparr>rs_key = local_array 32, rs_static_iv = local_array 12, sequence_number = 0\<rparr>,
     cl_plaintext = local_array 1024, cl_plaintext_len = 0\<rparr>"

subsection \<open>Set-up\<close>

definition client_new_sig :: "('c, 'm) lib \<Rightarrow> 'm client phase" where
  "client_new_sig L s w =
     (let (ok, w) = acquire L H_SIG w in Some (ok, s\<lparr>cl_sig := ok\<rparr>, w))"

definition client_alloc_sig :: "('c, 'm) lib \<Rightarrow> 'm client phase" where
  "client_alloc_sig L s w =
     (let (p1, w) = oqs_malloc L (sig_len_pk L) w;
          (p2, w) = oqs_malloc L (sig_len_sig L) w;
          s = s\<lparr>cl_sig_public_key := p1, cl_signature := p2\<rparr>
      in Some (\<not> (p1 = None \<or> p2 = None), s, w))"

definition client_new_kem :: "('c, 'm) lib \<Rightarrow> 'm client phase" where
  "client_new_kem L s w =
     (let (ok, w) = acquire L H_KEM w; s = s\<lparr>cl_kem := ok\<rparr>
      in if \<not> ok then Some (False, s, w)
         else
           (let (p1, w) = oqs_malloc L (kem_len_pk L) w;
                (p2, w) = oqs_malloc L (kem_len_sk L) w;
                (p3, w) = oqs_malloc L (kem_len_ss L) w;
                (p4, w) = oqs_malloc L (kem_len_ct L) w;
                s = s\<lparr>cl_kem_public_key := p1, cl_kem_secret_key := p2, cl_shared_secret := p3,
                      cl_ciphertext := p4\<rparr>
            in Some (\<not> (p1 = None \<or> p2 = None \<or> p3 = None \<or> p4 = None), s, w)))"

definition client_keypair :: "('c, 'm) lib \<Rightarrow> 'm client phase" where
  "client_keypair L s w =
     do {
       (ok, p, k, w) \<leftarrow> oqs_kem_keypair L (cl_kem_public_key s) (cl_kem_secret_key s) w;
       Some (ok, s\<lparr>cl_kem_public_key := p, cl_kem_secret_key := k\<rparr>, w)
     }"

definition client_connect :: "('c, 'm) lib \<Rightarrow> 'm client phase" where
  "client_connect L s w =
     (let (ok, w) = acquire L H_SOCKET w; s = s\<lparr>cl_sockfd := ok\<rparr>
      in if \<not> ok then Some (False, s, w)
         else
           (let (ok, w) = ext_call L w
            in if \<not> ok then Some (False, s, w)
               else (let (ok, w) = ext_call L w in Some (ok, s, w))))"

definition client_init_transcript :: "('c, 'm) lib \<Rightarrow> 'm client phase" where
  "client_init_transcript L s w =
     do {
       (rc, tr, w) \<leftarrow> transcript_init L (Some (cl_transcript s)) w;
       tr \<leftarrow> tr;
       let s = s\<lparr>cl_transcript := tr\<rparr>;
       if rc \<noteq> 0 then Some (False, s, w)
       else Some (True, s\<lparr>cl_transcript_initialized := True\<rparr>, w)
     }"

subsection \<open>Handshake\<close>

definition client_update ::
  "('c, 'm) lib \<Rightarrow> byte \<Rightarrow> ptr \<Rightarrow> size_t \<Rightarrow> 'm client phase" where
  "client_update L t body body_len s w =
     do {
       (rc, tr, w) \<leftarrow> transcript_update_handshake_msg L (Some (cl_transcript s)) t body body_len w;
       tr \<leftarrow> tr;
       Some (rc = 0, s\<lparr>cl_transcript := tr\<rparr>, w)
     }"

definition client_hash :: "('c, 'm) lib \<Rightarrow> 'm client phase" where
  "client_hash L s w =
     do {
       (rc, tr, h, l, w) \<leftarrow> transcript_get_hash L (Some (cl_transcript s)) (Some (cl_transcript_hash s))
         TLS_TRANSCRIPT_HASH_LEN (Some (cl_transcript_hash_len s)) w;
       tr \<leftarrow> tr;
       h \<leftarrow> h;
       l \<leftarrow> l;
       Some (rc = 0, s\<lparr>cl_transcript := tr, cl_transcript_hash := h, cl_transcript_hash_len := l\<rparr>, w)
     }"

definition client_hello :: "('c, 'm) lib \<Rightarrow> 'm client phase" where
  "client_hello L s w =
     do {
       (rc, w) \<leftarrow> send_handshake_msg (msg_code TLS_MSG_CLIENT_HELLO) (cl_kem_public_key s) (kem_len_pk L) w;
       if rc = - 1 then Some (False, s, w)
       else client_update L (msg_code TLS_MSG_CLIENT_HELLO) (cl_kem_public_key s) (kem_len_pk L) s w
     }"

definition client_server_hello :: "('c, 'm) lib \<Rightarrow> 'm client phase" where
  "client_server_hello L s w =
     do {
       (received_bytes, p, l, w) \<leftarrow> recv_handshake_msg (msg_code TLS_MSG_SERVER_HELLO)
          (cl_ciphertext s) (kem_len_ct L) (Some (cl_body_len s)) w;
       l \<leftarrow> l;
       let s = s\<lparr>cl_ciphertext := p, cl_body_len := l\<rparr>;
       if received_bytes = - 1 then Some (False, s, w)
       else if received_bytes = 1 then Some (False, s, w)
       else do {
         let s = s\<lparr>cl_ciphertext_length := cl_body_len s\<rparr>;
         if cl_ciphertext_length s \<noteq> kem_len_ct L then Some (False, s, w)
         else do {
           (ok, s, w) \<leftarrow> client_update L (msg_code TLS_MSG_SERVER_HELLO) (cl_ciphertext s) (kem_len_ct L) s w;
           if \<not> ok then Some (False, s, w)
           else do {
             (ok, k, w) \<leftarrow> oqs_kem_decaps L (cl_shared_secret s) (cl_ciphertext s) (cl_kem_secret_key s) w;
             Some (ok, s\<lparr>cl_shared_secret := k\<rparr>, w)
           }
         }
       }
     }"

definition client_certificate :: "('c, 'm) lib \<Rightarrow> 'm client phase" where
  "client_certificate L s w =
     do {
       (received_bytes, p, l, w) \<leftarrow> recv_handshake_msg (msg_code TLS_MSG_CERTIFICATE)
          (cl_sig_public_key s) (sig_len_pk L) (Some (cl_body_len s)) w;
       l \<leftarrow> l;
       let s = s\<lparr>cl_sig_public_key := p, cl_body_len := l\<rparr>;
       if received_bytes = - 1 then Some (False, s, w)
       else if received_bytes = 1 then Some (False, s, w)
       else if cl_body_len s \<noteq> sig_len_pk L then Some (False, s, w)
       else client_update L (msg_code TLS_MSG_CERTIFICATE) (cl_sig_public_key s) (sig_len_pk L) s w
     }"

definition client_certificate_verify :: "('c, 'm) lib \<Rightarrow> 'm client phase" where
  "client_certificate_verify L s w =
     do {
       (received_bytes, p, l, w) \<leftarrow> recv_handshake_msg (msg_code TLS_MSG_CERTIFICATE_VERIFY)
          (cl_signature s) (sig_len_sig L) (Some (cl_body_len s)) w;
       l \<leftarrow> l;
       let s = s\<lparr>cl_signature := p, cl_body_len := l\<rparr>;
       if received_bytes = - 1 then Some (False, s, w)
       else if received_bytes = 1 then Some (False, s, w)
       else if cl_body_len s = 0 \<or> cl_body_len s > sig_len_sig L then Some (False, s, w)
       else do {
         let s = s\<lparr>cl_signature_length := cl_body_len s\<rparr>;
         (ok, s, w) \<leftarrow> client_hash L s w;
         if \<not> ok then Some (False, s, w)
         else do {
           (ok, w) \<leftarrow> oqs_sig_verify L (cl_transcript_hash s) (cl_transcript_hash_len s)
              (cl_signature s) (cl_signature_length s) (cl_sig_public_key s) w;
           if \<not> ok then Some (False, s, w)
           else client_update L (msg_code TLS_MSG_CERTIFICATE_VERIFY) (cl_signature s)
                  (cl_signature_length s) s w
         }
       }
     }"

definition client_recv_finished :: "('c, 'm) lib \<Rightarrow> 'm client phase" where
  "client_recv_finished L s w =
     do {
       (received_bytes, f, l, w) \<leftarrow> recv_handshake_msg (msg_code TLS_MSG_FINISHED)
          (Some (cl_server_finished s)) TLS_FINISHED_VERIFY_DATA_LEN (Some (cl_body_len s)) w;
       f \<leftarrow> f;
       l \<leftarrow> l;
       let s = s\<lparr>cl_server_finished := f, cl_body_len := l\<rparr>;
       if received_bytes = - 1 then Some (False, s, w)
       else if received_bytes = 1 then Some (False, s, w)
       else if cl_body_len s \<noteq> TLS_FINISHED_VERIFY_DATA_LEN then Some (False, s, w)
       else do {
         (ok, s, w) \<leftarrow> client_hash L s w;
         if \<not> ok then Some (False, s, w)
         else do {
           (rc, f, fk, w) \<leftarrow> compute_finished_verify_data L (cl_shared_secret s) (kem_len_ss L)
              (Some TLS_SERVER_FINISHED_LABEL) (Some (cl_transcript_hash s)) (cl_transcript_hash_len s)
              (Some (cl_expected_server_finished s)) TLS_FINISHED_VERIFY_DATA_LEN w;
           f \<leftarrow> f;
           let s = s\<lparr>cl_expected_server_finished := f\<rparr>;
           if rc \<noteq> 0 then Some (False, s, w)
           else do {
             a \<leftarrow> rd (cl_server_finished s) 0 (unat TLS_FINISHED_VERIFY_DATA_LEN);
             b \<leftarrow> rd (cl_expected_server_finished s) 0 (unat TLS_FINISHED_VERIFY_DATA_LEN);
             if a \<noteq> b then Some (False, s, w)
             else client_update L (msg_code TLS_MSG_FINISHED) (Some (cl_server_finished s))
                    TLS_FINISHED_VERIFY_DATA_LEN s w
           }
         }
       }
     }"

definition client_send_finished :: "('c, 'm) lib \<Rightarrow> 'm client phase" where
  "client_send_finished L s w =
     do {
       (ok, s, w) \<leftarrow> client_hash L s w;
       if \<not> ok then Some (False, s, w)
       else do {
         (rc, f, fk, w) \<leftarrow> compute_finished_verify_data L (cl_shared_secret s) (kem_len_ss L)
            (Some TLS_CLIENT_FINISHED_LABEL) (Some (cl_transcript_hash s)) (cl_transcript_hash_len s)
            (Some (cl_client_finished s)) TLS_FINISHED_VERIFY_DATA_LEN w;
         f \<leftarrow> f;
         let s = s\<lparr>cl_client_finished := f\<rparr>;
         if rc \<noteq> 0 then Some (False, s, w)
         else do {
           (rc, w) \<leftarrow> send_handshake_msg (msg_code TLS_MSG_FINISHED) (Some (cl_client_finished s))
              TLS_FINISHED_VERIFY_DATA_LEN w;
           if rc = - 1 then Some (False, s, w)
           else client_update L (msg_code TLS_MSG_FINISHED) (Some (cl_client_finished s))
                  TLS_FINISHED_VERIFY_DATA_LEN s w
         }
       }
     }"

subsection \<open>Application data\<close>

definition client_application_keys :: "('c, 'm) lib \<Rightarrow> 'm client phase" where
  "client_application_keys L s w =
     do {
       (ok, s, w) \<leftarrow> client_hash L s w;
       if \<not> ok then Some (False, s, w)
       else do {
         (rc, ks, w) \<leftarrow> derive_application_keys L (cl_shared_secret s) (kem_len_ss L)
            (Some (cl_transcript_hash s)) (cl_transcript_hash_len s) (Some (cl_application_keys s)) w;
         ks \<leftarrow> ks;
         let s = s\<lparr>cl_application_keys := ks\<rparr>;
         if rc \<noteq> 0 then Some (False, s, w)
         else do {
           (rc, r) \<leftarrow> tls_record_state_init (Some (cl_send_state s)) (Some (client_key ks)) (Some (client_iv ks));
           r \<leftarrow> r;
           let s = s\<lparr>cl_send_state := r\<rparr>;
           if rc \<noteq> 0 then Some (False, s, w)
           else do {
             (rc, r) \<leftarrow> tls_record_state_init (Some (cl_recv_state s)) (Some (server_key ks)) (Some (server_iv ks));
             r \<leftarrow> r;
             Some (rc = 0, s\<lparr>cl_recv_state := r\<rparr>, w)
           }
         }
       }
     }"

definition client_send_data :: "('c, 'm) lib \<Rightarrow> 'm client phase" where
  "client_send_data L s w =
     do {
       (rc, r, w) \<leftarrow> send_encrypted_record L (Some client_message) (of_nat (length client_message))
          (Some (cl_send_state s)) w;
       r \<leftarrow> r;
       Some (rc = 0, s\<lparr>cl_send_state := r\<rparr>, w)
     }"

definition client_recv_data :: "('c, 'm) lib \<Rightarrow> 'm client phase" where
  "client_recv_data L s w =
     do {
       (rc, p, l, r, w) \<leftarrow> recv_encrypted_record L (Some (cl_plaintext s)) (1024 - 1)
          (Some (cl_plaintext_len s)) (Some (cl_recv_state s)) w;
       p \<leftarrow> p;
       l \<leftarrow> l;
       r \<leftarrow> r;
       let s = s\<lparr>cl_plaintext := p, cl_plaintext_len := l, cl_recv_state := r\<rparr>;
       if rc \<noteq> 0 then Some (False, s, w)
       else do {
         p \<leftarrow> wr (cl_plaintext s) (unat (cl_plaintext_len s)) [0];
         Some (True, s\<lparr>cl_plaintext := p\<rparr>, w)
       }
     }"

definition client_success :: "'m client phase" where
  "client_success s w = Some (True, s\<lparr>cl_ret := EXIT_SUCCESS\<rparr>, w)"

subsection \<open>The end\<close>

definition client_cleanup_mlkem :: "ptr \<Rightarrow> ptr \<Rightarrow> ptr \<Rightarrow> ptr \<Rightarrow> bool \<Rightarrow> world \<Rightarrow> world option" where
  "client_cleanup_mlkem kem_public_key kem_secret_key shared_secret ciphertext kem w =
     do {
       w \<leftarrow> (if kem then do { w \<leftarrow> oqs_free kem_secret_key w; oqs_free shared_secret w } else Some w);
       w \<leftarrow> oqs_free kem_public_key w;
       w \<leftarrow> oqs_free ciphertext w;
       free_if kem H_KEM w
     }"

definition client_cleanup_mldsa :: "ptr \<Rightarrow> ptr \<Rightarrow> bool \<Rightarrow> world \<Rightarrow> world option" where
  "client_cleanup_mldsa sig_public_key signature sig w =
     do {
       w \<leftarrow> oqs_free sig_public_key w;
       w \<leftarrow> oqs_free signature w;
       free_if sig H_SIG w
     }"

definition client_end :: "'m client \<Rightarrow> world \<Rightarrow> (int \<times> 'm client \<times> world) option" where
  "client_end s w =
     do {
       w \<leftarrow> free_if (cl_sockfd s) H_SOCKET w;
       (tr, w) \<leftarrow> (if cl_transcript_initialized s then transcript_free (Some (cl_transcript s)) w
                   else Some (Some (cl_transcript s), w));
       tr \<leftarrow> tr;
       let s = s\<lparr>cl_transcript := tr, cl_application_keys := zero_keys\<rparr>;
       w \<leftarrow> client_cleanup_mlkem (cl_kem_public_key s) (cl_kem_secret_key s) (cl_shared_secret s)
              (cl_ciphertext s) (cl_kem s) w;
       w \<leftarrow> client_cleanup_mldsa (cl_sig_public_key s) (cl_signature s) (cl_sig s) w;
       Some (cl_ret s, s, w)
     }"

definition client_setup :: "('c, 'm) lib \<Rightarrow> 'm client phase list" where
  "client_setup L = [client_new_sig L, client_alloc_sig L, client_new_kem L, client_keypair L,
     client_connect L, client_init_transcript L]"

definition client_session :: "('c, 'm) lib \<Rightarrow> 'm client phase list" where
  "client_session L = [client_hello L, client_server_hello L, client_certificate L,
     client_certificate_verify L, client_recv_finished L, client_send_finished L,
     client_application_keys L, client_send_data L, client_recv_data L, client_success]"

definition client_main :: "('c, 'm) lib \<Rightarrow> world \<Rightarrow> (int \<times> 'm client \<times> world) option" where
  "client_main L w =
     do {
       (ok, s, w) \<leftarrow> run_phases (client_setup L @ client_session L) client_locals w;
       client_end s w
     }"

text \<open>The client as a process: \<open>main\<close>, unless a \<open>send\<close> kills it by \<open>SIGPIPE\<close>.\<close>

definition client_process :: "('c, 'm) lib \<Rightarrow> bool \<Rightarrow> world \<Rightarrow> 'm client outcome option" where
  "client_process L sigpipe_default w = map_option (process_outcome sigpipe_default w) (client_main L w)"

subsection \<open>Resources\<close>

definition client_held :: "'m client \<Rightarrow> handle \<Rightarrow> nat" where
  "client_held s = (\<lambda>_. 0)(H_SIG := nb (cl_sig s), H_KEM := nb (cl_kem s), H_SOCKET := nb (cl_sockfd s),
     H_MD_CTX := nb (cl_transcript_initialized s),
     H_OQS_MEM := ptrs [cl_sig_public_key s, cl_signature s, cl_kem_public_key s, cl_kem_secret_key s,
        cl_shared_secret s, cl_ciphertext s])"

definition client_res :: "world \<Rightarrow> 'm client \<Rightarrow> world \<Rightarrow> bool" where
  "client_res w0 s w \<longleftrightarrow>
     (\<forall>h. live w h = live w0 h + client_held s h) \<and>
     (cl_shared_secret s \<noteq> None \<longrightarrow> cl_kem s) \<and> (cl_kem_secret_key s \<noteq> None \<longrightarrow> cl_kem s) \<and>
     (cl_transcript_initialized s \<longrightarrow> ctx (cl_transcript s) \<noteq> None) \<and>
     (\<exists>i out d. frame w0 i out d w)"

definition client_inv :: "world \<Rightarrow> 'm client \<Rightarrow> world \<Rightarrow> bool" where
  "client_inv w0 s w \<longleftrightarrow> client_res w0 s w \<and> cl_ret s = EXIT_FAILURE"

lemma client_cleanup_mlkem_held:
  "(ss \<noteq> None \<Longrightarrow> kem) \<Longrightarrow> (sk \<noteq> None \<Longrightarrow> kem) \<Longrightarrow> client_cleanup_mlkem pk sk ss ct kem w =
     do { w \<leftarrow> free_if (sk \<noteq> None) H_OQS_MEM w; w \<leftarrow> free_if (ss \<noteq> None) H_OQS_MEM w;
          w \<leftarrow> free_if (pk \<noteq> None) H_OQS_MEM w; w \<leftarrow> free_if (ct \<noteq> None) H_OQS_MEM w; free_if kem H_KEM w }"
  by (cases ss; cases sk; cases kem) (simp_all add: client_cleanup_mlkem_def oqs_free_def)

lemma client_end_ok:
  assumes "client_res w0 s w"
  shows "\<exists>s'. client_end s w = Some (cl_ret s, s', w\<lparr>live := live w0\<rparr>) \<and>
     s' = s\<lparr>cl_transcript := cl_transcript s', cl_application_keys := zero_keys\<rparr>"
proof -
  from assms have lv: "live w = (\<lambda>h. live w0 h + client_held s h)"
    and c: "cl_shared_secret s \<noteq> None \<Longrightarrow> cl_kem s" "cl_kem_secret_key s \<noteq> None \<Longrightarrow> cl_kem s"
     "cl_transcript_initialized s \<Longrightarrow> ctx (cl_transcript s) \<noteq> None"
    by (auto simp: client_res_def)
  define tr where "tr = (if cl_transcript_initialized s then (cl_transcript s)\<lparr>ctx := None\<rparr> else cl_transcript s)"
  have t: "(if cl_transcript_initialized s then transcript_free (Some (cl_transcript s)) w'
                   else Some (Some (cl_transcript s), w')) = do { w' \<leftarrow> free_if (cl_transcript_initialized s) H_MD_CTX w'; Some (Some tr, w') }" for w'
    using c(3) by (auto simp: transcript_free_def tr_def)
  have "client_end s w = Some (cl_ret s, s\<lparr>cl_transcript := tr, cl_application_keys := zero_keys\<rparr>, w\<lparr>live := live w0\<rparr>)"
    by (simp add: client_end_def client_cleanup_mlkem_held [OF c(1,2)] client_cleanup_mldsa_def oqs_free_def t
        free_if_live lv client_held_def Let_def) (simp add: fun_eq_iff)
  then show ?thesis by simp
qed

end
