(* ===== verification/Client_Setup.thy ===== *)
theory Client_Setup
  imports Secure_Client
begin

section \<open>The set-up of the client\<close>

text \<open>
  The phases of \<open>client_main\<close> before the first message, and the state the session starts from.
  As for the server, each phase returns, keeps the resource invariant however it ends, and goes on
  when no call fails.
\<close>

text \<open>Exactly what \<open>client_held\<close> counts is held, nothing was read or written, and \<open>d\<close> draws of
  random bytes were made.\<close>

definition client_clean :: "world \<Rightarrow> nat \<Rightarrow> 'm client \<Rightarrow> world \<Rightarrow> bool" where
  "client_clean w0 d s w \<longleftrightarrow>
     (\<forall>h. live w h = live w0 h + client_held s h) \<and> frame w0 [] [] d w \<and> cl_ret s = EXIT_FAILURE \<and>
     (cl_shared_secret s \<noteq> None \<longrightarrow> cl_kem s) \<and> (cl_kem_secret_key s \<noteq> None \<longrightarrow> cl_kem s) \<and>
     \<not> cl_transcript_initialized s"

lemma client_clean_inv: "client_clean w0 d s w \<Longrightarrow> client_inv w0 s w"
  by (auto simp: client_clean_def client_inv_def client_res_def)

definition client_with_sig :: "('c, 'm) lib \<Rightarrow> world \<Rightarrow> 'm client \<Rightarrow> world \<Rightarrow> bool" where
  "client_with_sig L w0 s w \<longleftrightarrow> client_clean w0 0 s w \<and>
     (\<exists>pk sg. length pk = unat (sig_len_pk L) \<and> length sg = unat (sig_len_sig L) \<and>
        s = client_locals\<lparr>cl_sig := True, cl_sig_public_key := Some pk, cl_signature := Some sg\<rparr>)"

definition client_filled :: "bytes \<Rightarrow> bytes \<Rightarrow> bytes \<Rightarrow> bytes \<Rightarrow> bytes \<Rightarrow> bytes \<Rightarrow> bool \<Rightarrow> 'm client" where
  "client_filled pk sg kp ks ss ct conn =
     client_locals\<lparr>cl_sig := True, cl_sig_public_key := Some pk, cl_signature := Some sg,
       cl_kem := True, cl_kem_public_key := Some kp, cl_kem_secret_key := Some ks,
       cl_shared_secret := Some ss, cl_ciphertext := Some ct, cl_sockfd := conn\<rparr>"

text \<open>With the KEM's buffers: before (\<open>d = 0\<close>) and after (\<open>d = 1\<close>) the keypair was generated.\<close>

definition client_with_kem :: "('c, 'm) lib \<Rightarrow> world \<Rightarrow> nat \<Rightarrow> bool \<Rightarrow> 'm client \<Rightarrow> world \<Rightarrow> bool" where
  "client_with_kem L w0 d conn s w \<longleftrightarrow> client_clean w0 d s w \<and>
     (\<exists>pk sg kp ks ss ct. length pk = unat (sig_len_pk L) \<and> length sg = unat (sig_len_sig L) \<and>
        length kp = unat (kem_len_pk L) \<and> length ks = unat (kem_len_sk L) \<and>
        length ss = unat (kem_len_ss L) \<and> length ct = unat (kem_len_ct L) \<and>
        (d = 1 \<longrightarrow> kem_keypair L (rng w0) = (kp, ks)) \<and>
        s = client_filled pk sg kp ks ss ct conn)"

lemma client_new_sig_ok:
  assumes "G \<longrightarrow> lib_up L"
  shows "phase_ok (client_inv w0) (\<lambda>s w. s = client_locals \<and> w = w0) (client_new_sig L :: 'm client phase)
     (\<lambda>s w. client_clean w0 0 s w \<and> s = client_locals\<lparr>cl_sig := True\<rparr>) G"
proof (rule phase_okI)
  fix s :: "'m client" and w assume P: "s = client_locals \<and> w = w0"
  obtain ok w1 where a: "acquire L H_SIG w0 = (ok, w1)" by fastforce
  note sp = acquire_spec [OF a]
  have C: "client_clean w0 0 (s\<lparr>cl_sig := ok\<rparr>) w1"
    using P sp by (simp add: client_clean_def client_held_def client_locals_def)
  show "ends (client_inv w0) (\<lambda>s w. client_clean w0 0 s w \<and> s = client_locals\<lparr>cl_sig := True\<rparr>) G (client_new_sig L s w)"
    using C client_clean_inv [OF C] P sp assms by (cases ok) (simp_all add: client_new_sig_def a)
qed

lemma client_alloc_sig_ok:
  assumes "G \<longrightarrow> lib_up L"
  shows "phase_ok (client_inv w0) (\<lambda>s w. client_clean w0 0 s w \<and> s = client_locals\<lparr>cl_sig := True\<rparr>)
     (client_alloc_sig L :: 'm client phase) (client_with_sig L w0) G"
proof (rule phase_okI)
  fix s :: "'m client" and w assume P: "client_clean w0 0 s w \<and> s = client_locals\<lparr>cl_sig := True\<rparr>"
  obtain p1 w1 p2 w2 where m: "oqs_malloc L (sig_len_pk L) w = (p1, w1)"
    "oqs_malloc L (sig_len_sig L) w1 = (p2, w2)" by fastforce
  note a = oqs_malloc_spec [OF m(1)] oqs_malloc_spec [OF m(2)]
  let ?s = "s\<lparr>cl_sig_public_key := p1, cl_signature := p2\<rparr>"
  have "frame w0 [] [] 0 w2" using P a by (meson frame_trans0 client_clean_def)
  then have C: "client_clean w0 0 ?s w2"
    using P a by (simp add: client_clean_def client_held_def client_locals_def)
  show "ends (client_inv w0) (\<lambda>s' w'. client_with_sig L w0 s' w') G (client_alloc_sig L s w)"
    using C client_clean_inv [OF C] a assms P by (fastforce simp: client_alloc_sig_def m client_with_sig_def)
qed

lemma client_new_kem_ok:
  assumes "G \<longrightarrow> lib_up L"
  shows "phase_ok (client_inv w0) (client_with_sig L w0) (client_new_kem L :: 'm client phase)
     (client_with_kem L w0 0 False) G"
proof (rule phase_okI)
  fix s :: "'m client" and w assume P: "client_with_sig L w0 s w"
  obtain ok w1 where m0: "acquire L H_KEM w = (ok, w1)" by fastforce
  obtain p1 w2 p2 w3 p3 w4 p4 w5 where m: "oqs_malloc L (kem_len_pk L) w1 = (p1, w2)"
    "oqs_malloc L (kem_len_sk L) w2 = (p2, w3)" "oqs_malloc L (kem_len_ss L) w3 = (p3, w4)"
    "oqs_malloc L (kem_len_ct L) w4 = (p4, w5)" by fastforce
  note a = acquire_spec [OF m0] oqs_malloc_spec [OF m(1)] oqs_malloc_spec [OF m(2)] oqs_malloc_spec [OF m(3)]
    oqs_malloc_spec [OF m(4)]
  from P obtain pk sg where s: "s = client_locals\<lparr>cl_sig := True, cl_sig_public_key := Some pk, cl_signature := Some sg\<rparr>"
    "length pk = unat (sig_len_pk L)" "length sg = unat (sig_len_sig L)" and C: "client_clean w0 0 s w"
    by (auto simp: client_with_sig_def)
  let ?s1 = "s\<lparr>cl_kem := ok\<rparr>"
  let ?s2 = "?s1\<lparr>cl_kem_public_key := p1, cl_kem_secret_key := p2, cl_shared_secret := p3, cl_ciphertext := p4\<rparr>"
  have "frame w0 [] [] 0 w1" "frame w0 [] [] 0 w5" using C a by (meson frame_trans0 client_clean_def)+
  then have C12: "client_clean w0 0 ?s1 w1" "ok \<Longrightarrow> client_clean w0 0 ?s2 w5"
    using C a by (simp_all add: client_clean_def client_held_def s(1) client_locals_def)
  note I12 = client_clean_inv [OF C12(1)] client_clean_inv [OF C12(2)]
  have eq: "client_new_kem L s w =
     (if ok then Some (p1 \<noteq> None \<and> p2 \<noteq> None \<and> p3 \<noteq> None \<and> p4 \<noteq> None, ?s2, w5) else Some (False, ?s1, w1))"
    by (simp add: client_new_kem_def m0 m Let_def)
  have K: "client_with_kem L w0 0 False ?s2 w5" if "ok" "p1 \<noteq> None" "p2 \<noteq> None" "p3 \<noteq> None" "p4 \<noteq> None"
  proof -
    from that obtain kp ks ss ct where p: "p1 = Some kp" "p2 = Some ks" "p3 = Some ss" "p4 = Some ct" by auto
    with a have l: "length kp = unat (kem_len_pk L)" "length ks = unat (kem_len_sk L)" "length ss = unat (kem_len_ss L)"
      "length ct = unat (kem_len_ct L)" by auto
    have "?s2 = client_filled pk sg kp ks ss ct False"
      by (simp add: s(1) p that(1) client_filled_def client_locals_def)
    moreover have "(0::nat) = 1 \<longrightarrow> kem_keypair L (rng w0) = (kp, ks)" by simp
    ultimately show ?thesis unfolding client_with_kem_def using C12(2) [OF that(1)] s(2,3) l by blast
  qed
  have "lib_up L \<longrightarrow> ok" "lib_up L \<longrightarrow> p1 \<noteq> None" "lib_up L \<longrightarrow> p2 \<noteq> None" "lib_up L \<longrightarrow> p3 \<noteq> None" "lib_up L \<longrightarrow> p4 \<noteq> None"
    using a by blast+
  then have "G \<longrightarrow> ok \<and> p1 \<noteq> None \<and> p2 \<noteq> None \<and> p3 \<noteq> None \<and> p4 \<noteq> None" using assms by blast
  then show "ends (client_inv w0) (\<lambda>s' w'. client_with_kem L w0 0 False s' w') G (client_new_kem L s w)"
    unfolding eq using I12 K by (cases ok) auto
qed

lemma client_keypair_ok:
  assumes lib: "library_correct L sha256" and G: "G \<longrightarrow> lib_up L"
  shows "phase_ok (client_inv w0) (client_with_kem L w0 0 False) (client_keypair L :: 'm client phase)
     (client_with_kem L w0 1 False) G"
proof (rule phase_okI)
  fix s :: "'m client" and w assume P: "client_with_kem L w0 0 False s w"
  then obtain pk sg kp ks ss ct where C: "client_clean w0 0 s w"
    and l: "length pk = unat (sig_len_pk L)" "length sg = unat (sig_len_sig L)" "length kp = unat (kem_len_pk L)"
      "length ks = unat (kem_len_sk L)" "length ss = unat (kem_len_ss L)" "length ct = unat (kem_len_ct L)"
    and s: "s = client_filled pk sg kp ks ss ct False"
    by (auto simp: client_with_kem_def)
  obtain ok p k w1 where r: "oqs_kem_keypair L (Some kp) (Some ks) w = Some (ok, Some p, Some k, w1)"
    "frame w [] [] 1 w1" "live w1 = live w" "length p = length kp" "length k = length ks"
    "ok \<Longrightarrow> kem_keypair L (rng w) = (p, k)" "lib_up L \<Longrightarrow> ok"
    by (rule keypair_ok [OF library_correctD(5) [OF lib] l(3,4), where w = w]) (rule that)
  let ?s1 = "s\<lparr>cl_kem_public_key := Some p, cl_kem_secret_key := Some k\<rparr>"
  have f: "frame w0 [] [] 0 w" using C by (simp add: client_clean_def)
  then have f1: "frame w0 [] [] 1 w1" "rng w = rng w0"
    using frame_trans [OF f r(2)] by (simp_all add: frame_def)
  have C1: "client_clean w0 1 ?s1 w1"
    using C f1 r(3) by (simp add: client_clean_def client_held_def s client_filled_def client_locals_def)
  have s1: "?s1 = client_filled pk sg p k ss ct False" by (simp add: s client_filled_def client_locals_def)
  have "length p = unat (kem_len_pk L)" "length k = unat (kem_len_sk L)" using l r(4,5) by simp_all
  moreover have "kem_keypair L (rng w0) = (p, k)" if ok using r(6) [OF that] f1(2) by simp
  ultimately have "client_with_kem L w0 1 False ?s1 w1" if ok
    unfolding client_with_kem_def using C1 l s1 that by blast
  moreover have "client_keypair L s w = Some (ok, ?s1, w1)"
    using r(1) by (simp add: client_keypair_def s client_filled_def)
  ultimately show "ends (client_inv w0) (\<lambda>s' w'. client_with_kem L w0 1 False s' w') G (client_keypair L s w)"
    using client_clean_inv [OF C1] r(7) G by simp
qed

lemma client_connect_ok:
  assumes "G \<longrightarrow> lib_up L"
  shows "phase_ok (client_inv w0) (client_with_kem L w0 1 False) (client_connect L :: 'm client phase)
     (client_with_kem L w0 1 True) G"
proof (rule phase_okI)
  fix s :: "'m client" and w assume P: "client_with_kem L w0 1 False s w"
  obtain o1 w1 o2 w2 o3 w3 where m: "acquire L H_SOCKET w = (o1, w1)" "ext_call L w1 = (o2, w2)"
    "ext_call L w2 = (o3, w3)" by fastforce
  note a = acquire_spec [OF m(1)] ext_call_spec [OF m(2)] ext_call_spec [OF m(3)]
  from P have C: "client_clean w0 1 s w" and sock: "\<not> cl_sockfd s"
    by (auto simp: client_with_kem_def client_filled_def client_locals_def)
  let ?s1 = "s\<lparr>cl_sockfd := o1\<rparr>"
  have f: "frame w0 [] [] 1 w" using C by (simp add: client_clean_def)
  have fr: "frame w [] [] 0 w1" "frame w [] [] 0 w2" "frame w [] [] 0 w3"
    using a by (meson frame_trans0)+
  have "frame w0 [] [] 1 w1" "frame w0 [] [] 1 w2" "frame w0 [] [] 1 w3"
    using frame_trans [OF f fr(1)] frame_trans [OF f fr(2)] frame_trans [OF f fr(3)] by simp_all
  then have C12: "client_clean w0 1 ?s1 w1" "client_clean w0 1 ?s1 w2" "client_clean w0 1 ?s1 w3"
    using C a sock by (simp_all add: client_clean_def client_held_def)
  note I12 = client_clean_inv [OF C12(1)] client_clean_inv [OF C12(2)] client_clean_inv [OF C12(3)]
  have eq: "client_connect L s w =
     (if \<not> o1 then Some (False, ?s1, w1) else if \<not> o2 then Some (False, ?s1, w2) else Some (o3, ?s1, w3))"
    by (simp add: client_connect_def m Let_def)
  from P obtain pk sg kp ks ss ct where l: "length pk = unat (sig_len_pk L)" "length sg = unat (sig_len_sig L)"
      "length kp = unat (kem_len_pk L)" "length ks = unat (kem_len_sk L)" "length ss = unat (kem_len_ss L)"
      "length ct = unat (kem_len_ct L)" "kem_keypair L (rng w0) = (kp, ks)"
    and s: "s = client_filled pk sg kp ks ss ct False"
    by (auto simp: client_with_kem_def)
  have "?s1 = client_filled pk sg kp ks ss ct True" if o1
    using that by (simp add: s client_filled_def client_locals_def)
  then have "client_with_kem L w0 1 True ?s1 w3" if o1
    unfolding client_with_kem_def using C12(3) l that by blast
  moreover have "G \<longrightarrow> o1 \<and> o2 \<and> o3" using a assms by blast
  ultimately show "ends (client_inv w0) (\<lambda>s' w'. client_with_kem L w0 1 True s' w') G (client_connect L s w)"
    unfolding eq using I12 by (cases o1; cases o2) auto
qed

subsection \<open>The state during the session\<close>

text \<open>The key pair of a run: the first draw of the generator.\<close>

definition own_pk :: "('c, 'm) lib \<Rightarrow> world \<Rightarrow> bytes" where
  "own_pk L w0 = fst (kem_keypair L (rng w0))"

definition own_sk :: "('c, 'm) lib \<Rightarrow> world \<Rightarrow> bytes" where
  "own_sk L w0 = snd (kem_keypair L (rng w0))"

lemma length_own: "library_correct L sha256 \<Longrightarrow> length (own_pk L w0) = unat (kem_len_pk L)"
  by (simp add: own_pk_def library_correct_def oqs_correctD)

definition client_full :: "handle \<Rightarrow> nat" where
  "client_full = (\<lambda>_. 0)(H_SIG := 1, H_KEM := 1, H_SOCKET := 1, H_MD_CTX := 1, H_OQS_MEM := 6)"

definition client_has ::
  "('c, 'm) lib \<Rightarrow> bytes \<Rightarrow> bytes \<Rightarrow> bytes list \<Rightarrow> 'm client \<Rightarrow> bool" where
  "client_has L pk sk ds s \<longleftrightarrow>
     cl_sig s \<and> cl_kem s \<and> cl_sockfd s \<and> cl_transcript_initialized s \<and>
     cl_kem_public_key s = Some pk \<and> length pk = unat (kem_len_pk L) \<and>
     cl_kem_secret_key s = Some sk \<and> length sk = unat (kem_len_sk L) \<and>
     (\<exists>b. cl_sig_public_key s = Some b \<and> length b = unat (sig_len_pk L)) \<and>
     (\<exists>b. cl_signature s = Some b \<and> length b = unat (sig_len_sig L)) \<and>
     (\<exists>b. cl_ciphertext s = Some b \<and> length b = unat (kem_len_ct L)) \<and>
     (\<exists>b. cl_shared_secret s = Some b \<and> length b = unat (kem_len_ss L)) \<and>
     absorbed L (cl_transcript s) ds \<and>
     length (cl_transcript_hash s) = 32 \<and> length (cl_server_finished s) = 32 \<and>
     length (cl_expected_server_finished s) = 32 \<and> length (cl_client_finished s) = 32 \<and>
     length (cl_plaintext s) = 1024 \<and> cl_ret s = EXIT_FAILURE"

definition client_ready ::
  "('c, 'm) lib \<Rightarrow> world \<Rightarrow> bytes list \<Rightarrow> bytes \<Rightarrow> bytes \<Rightarrow> nat \<Rightarrow> 'm client \<Rightarrow> world \<Rightarrow> bool" where
  "client_ready L w0 ds i out d s w \<longleftrightarrow>
     client_has L (own_pk L w0) (own_sk L w0) ds s \<and> (\<forall>h. live w h = live w0 h + client_full h) \<and>
     frame w0 i out d w"

lemma client_ready_inv: "client_ready L w0 ds i out d s w \<Longrightarrow> client_inv w0 s w"
  by (auto simp: client_ready_def client_has_def client_inv_def client_res_def client_held_def client_full_def absorbed_def)

lemma client_init_transcript_ok:
  assumes "G \<longrightarrow> lib_up L"
  shows "phase_ok (client_inv w0) (client_with_kem L w0 1 True) (client_init_transcript L)
     (client_ready L w0 [] [] [] 1) G"
proof (rule phase_okI)
  fix s w assume P: "client_with_kem L w0 1 True s w"
  obtain rc tr w1 where t: "transcript_init L (Some (cl_transcript s)) w = Some (rc, Some tr, w1)"
    "frame w [] [] 0 w1"
    "rc = 0 \<and> absorbed L tr [] \<and> live w1 = (live w)(H_MD_CTX := Suc (live w H_MD_CTX)) \<or>
      rc = - 1 \<and> ctx tr = None \<and> live w1 = live w \<and> \<not> lib_up L"
    using tr_init by blast
  from P obtain pk sg kp ks ss ct where C: "client_clean w0 1 s w"
    and l: "length pk = unat (sig_len_pk L)" "length sg = unat (sig_len_sig L)"
      "length kp = unat (kem_len_pk L)" "length ks = unat (kem_len_sk L)" "length ss = unat (kem_len_ss L)"
      "length ct = unat (kem_len_ct L)" "kem_keypair L (rng w0) = (kp, ks)"
    and s: "s = client_filled pk sg kp ks ss ct True"
    by (auto simp: client_with_kem_def)
  have f: "frame w0 [] [] 1 w1" using C t(2) by (auto simp: client_clean_def intro: frame_trans0)
  show "ends (client_inv w0) (client_ready L w0 [] [] [] 1) G (client_init_transcript L s w)"
  proof (cases "rc = 0")
    case False
    then have "live w1 = live w" "\<not> lib_up L" using t(3) by auto
    moreover from this C f have "client_clean w0 1 (s\<lparr>cl_transcript := tr\<rparr>) w1"
      by (simp add: client_clean_def client_held_def)
    ultimately show ?thesis using False t(1) client_clean_inv assms by (auto simp: client_init_transcript_def)
  next
    case True
    let ?s = "s\<lparr>cl_transcript := tr, cl_transcript_initialized := True\<rparr>"
    have w1: "absorbed L tr []" "live w1 = (live w)(H_MD_CTX := Suc (live w H_MD_CTX))" using t(3) True by auto
    have "live w1 h = live w0 h + client_full h" for h
      using C by (simp add: w1(2) client_clean_def client_held_def client_full_def s client_filled_def client_locals_def)
    moreover have "client_has L (own_pk L w0) (own_sk L w0) [] ?s"
      using l w1(1) by (simp add: client_has_def own_pk_def own_sk_def s client_filled_def client_locals_def)
    ultimately have R: "client_ready L w0 [] [] [] 1 ?s w1" using f by (simp add: client_ready_def)
    have "client_init_transcript L s w = Some (True, ?s, w1)" using t(1) True by (simp add: client_init_transcript_def)
    with R client_ready_inv [OF R] show ?thesis by simp
  qed
qed

end
