(* ===== verification/Client_Session.thy ===== *)
theory Client_Session
  imports Client_Setup
begin

section \<open>The client's side of the session\<close>

text \<open>
  The client's state meets the contract of theory \<open>Session\<close>. What the client learns while it runs
  (ciphertext, certificate, signature, text) is quantified in the postconditions: each phase says
  what it accepted.
\<close>

subsection \<open>The client as a session\<close>

interpretation cln: session L w0 "client_ready L w0" "client_inv w0" cl_transcript
  "\<lambda>t s. s\<lparr>cl_transcript := t\<rparr>" cl_transcript_hash cl_transcript_hash_len
  "\<lambda>h l s. s\<lparr>cl_transcript_hash := h, cl_transcript_hash_len := l\<rparr>" "client_update L" "client_hash L"
  for L w0
proof (unfold_locales, goal_cases)
  case (3 ds i out d s w) then show ?case by (rule client_ready_inv)
next
  case (7 ds i out d s w j u e w') then show ?case by (auto simp: client_ready_def intro: frame_trans)
qed (simp_all add: client_ready_def client_has_def client_update_def client_hash_def)

interpretation cln_fin: finisher L w0 "client_ready L w0" "client_inv w0" cl_transcript
  "\<lambda>t s. s\<lparr>cl_transcript := t\<rparr>" cl_transcript_hash cl_transcript_hash_len
  "\<lambda>h l s. s\<lparr>cl_transcript_hash := h, cl_transcript_hash_len := l\<rparr>" "client_update L" "client_hash L"
  TLS_CLIENT_FINISHED_LABEL cl_shared_secret cl_client_finished "\<lambda>f s. s\<lparr>cl_client_finished := f\<rparr>"
  "client_send_finished L" for L w0
  by unfold_locales (simp_all add: client_send_finished_def client_ready_def client_has_def)

interpretation cln_ver: verifier L w0 "client_ready L w0" "client_inv w0" cl_transcript
  "\<lambda>t s. s\<lparr>cl_transcript := t\<rparr>" cl_transcript_hash cl_transcript_hash_len
  "\<lambda>h l s. s\<lparr>cl_transcript_hash := h, cl_transcript_hash_len := l\<rparr>" "client_update L" "client_hash L"
  TLS_SERVER_FINISHED_LABEL cl_shared_secret cl_server_finished cl_body_len
  "\<lambda>f l s. s\<lparr>cl_server_finished := f, cl_body_len := l\<rparr>"
  cl_expected_server_finished "\<lambda>f s. s\<lparr>cl_expected_server_finished := f\<rparr>"
  "client_recv_finished L" for L w0
  by unfold_locales (simp_all add: client_recv_finished_def client_ready_def client_has_def)

interpretation cln_key: keyed L w0 "client_ready L w0" "client_inv w0" cl_transcript
  "\<lambda>t s. s\<lparr>cl_transcript := t\<rparr>" cl_transcript_hash cl_transcript_hash_len
  "\<lambda>h l s. s\<lparr>cl_transcript_hash := h, cl_transcript_hash_len := l\<rparr>" "client_update L" "client_hash L"
  cl_shared_secret cl_application_keys "\<lambda>k s. s\<lparr>cl_application_keys := k\<rparr>"
  cl_send_state "\<lambda>r s. s\<lparr>cl_send_state := r\<rparr>" cl_recv_state "\<lambda>r s. s\<lparr>cl_recv_state := r\<rparr>"
  "client_application_keys L" for L w0
  by unfold_locales (simp_all add: client_application_keys_def client_ready_def client_has_def)

interpretation cln_rcv: receiver L w0 "client_ready L w0" "client_inv w0" cl_transcript
  "\<lambda>t s. s\<lparr>cl_transcript := t\<rparr>" cl_transcript_hash cl_transcript_hash_len
  "\<lambda>h l s. s\<lparr>cl_transcript_hash := h, cl_transcript_hash_len := l\<rparr>" "client_update L" "client_hash L"
  cl_recv_state "\<lambda>r s. s\<lparr>cl_recv_state := r\<rparr>" cl_plaintext cl_plaintext_len "\<lambda>p s. s\<lparr>cl_plaintext := p\<rparr>"
  "\<lambda>p l s. s\<lparr>cl_plaintext := p, cl_plaintext_len := l\<rparr>"
  "client_recv_data L" for L w0
  by unfold_locales (simp_all add: client_recv_data_def client_ready_def client_has_def)

interpretation cln_snd: sender L w0 "client_ready L w0" "client_inv w0" cl_transcript
  "\<lambda>t s. s\<lparr>cl_transcript := t\<rparr>" cl_transcript_hash cl_transcript_hash_len
  "\<lambda>h l s. s\<lparr>cl_transcript_hash := h, cl_transcript_hash_len := l\<rparr>" "client_update L" "client_hash L"
  cl_send_state "\<lambda>r s. s\<lparr>cl_send_state := r\<rparr>" for L w0
  by unfold_locales (simp_all add: client_ready_def client_has_def)

subsection \<open>What the client knows\<close>

text \<open>The shared secret, once decapsulated, and the certificate, once received.\<close>

definition client_shared ::
  "('c, 'm) lib \<Rightarrow> world \<Rightarrow> bytes \<Rightarrow> bytes list \<Rightarrow> bytes \<Rightarrow> bytes \<Rightarrow> 'm client \<Rightarrow> world \<Rightarrow> bool" where
  "client_shared L w0 ss ds i out s w \<longleftrightarrow>
     client_ready L w0 ds i out 1 s w \<and> cl_shared_secret s = Some ss"

definition client_certified ::
  "('c, 'm) lib \<Rightarrow> world \<Rightarrow> bytes \<Rightarrow> bytes \<Rightarrow> bytes list \<Rightarrow> bytes \<Rightarrow> bytes \<Rightarrow> 'm client \<Rightarrow> world \<Rightarrow> bool" where
  "client_certified L w0 ss cert ds i out s w \<longleftrightarrow>
     client_shared L w0 ss ds i out s w \<and> cl_sig_public_key s = Some cert"

lemma client_sharedD:
  assumes "client_shared L w0 ss ds i out s w"
  shows "client_ready L w0 ds i out 1 s w" "client_has L (own_pk L w0) (own_sk L w0) ds s" "frame w0 i out 1 w"
    "cl_shared_secret s = Some ss" "length ss = unat (kem_len_ss L)"
  using assms by (auto simp: client_shared_def client_ready_def client_has_def)

lemma client_ready_frame:
  "client_ready L w0 ds i out d s w \<Longrightarrow> client_has L (own_pk L w0) (own_sk L w0) ds' s' \<Longrightarrow>
     frame w j u e w' \<Longrightarrow> live w' = live w \<Longrightarrow>
     client_ready L w0 ds' (i @ j) (out @ u) (d + e) s' w'"
  unfolding client_ready_def by (auto intro: frame_trans)

lemma client_ready_lib:
  "client_ready L w0 ds i out d s w \<Longrightarrow> client_has L (own_pk L w0) (own_sk L w0) ds' s' \<Longrightarrow>
     frame w [] [] 0 w' \<Longrightarrow> live w' = live w \<Longrightarrow> client_ready L w0 ds' i out d s' w'"
  using client_ready_frame [of L w0 ds i out d s w ds' s' "[]" "[]" 0 w'] by simp

subsection \<open>The phases of the handshake\<close>

lemma client_hello_ok:
  assumes lib: "library_correct L sha256" and G: "G \<longrightarrow> lib_up L \<and> io_fine w0" and m: "m = hs_msg 1 (own_pk L w0)"
  shows "phase_ok (client_inv w0) (client_ready L w0 [] [] [] 1) (client_hello L) (client_ready L w0 [m] [] m 1) G"
proof (rule phase_okI)
  fix s w assume P: "client_ready L w0 [] [] [] 1 s w"
  note oqs = oqs_correctD [OF library_correctD(5) [OF lib]]
  have pk: "cl_kem_public_key s = Some (own_pk L w0)" "unat (kem_len_pk L) \<le> length (own_pk L w0)"
    "take (unat (kem_len_pk L)) (own_pk L w0) = own_pk L w0"
    using P length_own [OF lib] by (simp_all add: client_ready_def client_has_def)
  have eq: "client_hello L s w = do {
      (rc, w) \<leftarrow> send_handshake_msg 1 (Some (own_pk L w0)) (kem_len_pk L) w;
      if rc = - 1 then Some (False, s, w) else client_update L 1 (Some (own_pk L w0)) (kem_len_pk L) s w }"
    by (simp add: client_hello_def pk(1) cong: if_cong)
  show "ends (client_inv w0) (client_ready L w0 [m] [] m 1) G (client_hello L s w)" unfolding eq
    by (rule ends_mono [OF cln.send_upd_ok [OF P pk(2) oqs(1)], unfolded pk(3)]) (use G in \<open>simp_all add: m\<close>)
qed

lemma client_server_hello_ok:
  assumes lib: "library_correct L sha256" and pc: "peer_closed w0"
    and G: "G \<longrightarrow> lib_up L \<and> io_fine w0 \<and> (\<exists>ct r. length ct = unat (kem_len_ct L) \<and> inbox w0 = hs_msg 2 ct @ r)"
  shows "phase_ok (client_inv w0) (client_ready L w0 ds [] out 1) (client_server_hello L)
     (\<lambda>s w. \<exists>ct. length ct = unat (kem_len_ct L) \<and>
        client_shared L w0 (kem_decaps L ct (own_sk L w0)) (ds @ [hs_msg 2 ct]) (hs_msg 2 ct) out s w) G"
proof (rule phase_okI)
  fix s w assume P: "client_ready L w0 ds [] out 1 s w"
  let ?Q = "\<lambda>s w. \<exists>ct. length ct = unat (kem_len_ct L) \<and>
        client_shared L w0 (kem_decaps L ct (own_sk L w0)) (ds @ [hs_msg 2 ct]) (hs_msg 2 ct) out s w"
  note oqs = oqs_correctD [OF library_correctD(5) [OF lib]]
  from P obtain c where c: "cl_ciphertext s = Some c" "length c = unat (kem_len_ct L)"
    by (auto simp: client_ready_def client_has_def)
  have pcw: "peer_closed w" using cln.ready_closed [OF P] pc by simp
  obtain rc m l i w1 where r: "recv_handshake_msg 2 (Some c) (kem_len_ct L) (Some (cl_body_len s)) w = Some (rc, Some m, Some l, w1)"
    "frame w i [] 0 w1" "live w1 = live w" "length m = unat (kem_len_ct L)" "rc = 0 \<or> rc = 1 \<or> rc = - 1"
    "rc = 0 \<Longrightarrow> l = kem_len_ct L \<Longrightarrow> i = hs_msg 2 m"
    "\<And>m' r. io_fine w \<Longrightarrow> inbox w = hs_msg 2 m' @ r \<Longrightarrow> length m' = unat (kem_len_ct L) \<Longrightarrow>
       rc = 0 \<and> l = kem_len_ct L \<and> m = m'"
    by (rule recv_exact [OF c(2) oqs(2) pcw, of 2 "cl_body_len s"]) (rule that)
  let ?s1 = "s\<lparr>cl_ciphertext := Some m, cl_body_len := l\<rparr>"
  let ?s2 = "?s1\<lparr>cl_ciphertext_length := l\<rparr>"
  have has: "client_has L (own_pk L w0) (own_sk L w0) ds ?s1" "client_has L (own_pk L w0) (own_sk L w0) ds ?s2"
    using P r(4) by (simp_all add: client_ready_def client_has_def)
  from client_ready_frame [OF P has(1) r(2,3)] client_ready_frame [OF P has(2) r(2,3)]
  have R1: "client_ready L w0 ds i out 1 ?s1 w1" and R2: "client_ready L w0 ds i out 1 ?s2 w1" by simp_all
  show "ends (client_inv w0) ?Q G (client_server_hello L s w)"
  proof (cases "rc = 0 \<and> l = kem_len_ct L")
    case False
    have "\<not> G"
    proof
      assume G
      with G obtain ct x where "io_fine w0" "length ct = unat (kem_len_ct L)" "inbox w0 = hs_msg 2 ct @ x" by blast
      with r(7) [of ct x] False cln.ready_fine [OF P] cln.ready_frame [OF P] show False by (simp add: frame_def)
    qed
    moreover have "client_server_hello L s w = Some (False, if rc = 0 then ?s2 else ?s1, w1)"
      using False r(1,5) c(1) by (auto simp: client_server_hello_def)
    ultimately show ?thesis using client_ready_inv [OF R1] client_ready_inv [OF R2] by simp
  next
    case True
    have i: "i = hs_msg 2 m" by (rule r(6)) (use True in simp_all)
    have n: "unat (kem_len_ct L) \<le> length m" "take (unat (kem_len_ct L)) m = m" using r(4) by simp_all
    have eq: "client_server_hello L s w = do {
        (ok, s, w) \<leftarrow> client_update L 2 (Some m) (kem_len_ct L) ?s2 w1;
        if \<not> ok then Some (False, s, w)
        else do {
          (ok, k, w) \<leftarrow> oqs_kem_decaps L (cl_shared_secret s) (cl_ciphertext s) (cl_kem_secret_key s) w;
          Some (ok, s\<lparr>cl_shared_secret := k\<rparr>, w)
        } }"
      using True r(1) c(1) by (simp add: client_server_hello_def)
    show ?thesis unfolding eq
    proof (rule ends_bind [OF cln.upd_ok [OF R2 n(1) oqs(2)], unfolded n(2)], elim conjE exE)
      fix s3 w3 t assume R3: "client_ready L w0 (ds @ [hs_msg 2 m]) i out 1 s3 w3" and s3: "s3 = ?s2\<lparr>cl_transcript := t\<rparr>"
      from R3 obtain k where k: "cl_shared_secret s3 = Some k" "length k = unat (kem_len_ss L)"
        and sk: "cl_kem_secret_key s3 = Some (own_sk L w0)" "length (own_sk L w0) = unat (kem_len_sk L)"
        and has: "client_has L (own_pk L w0) (own_sk L w0) (ds @ [hs_msg 2 m]) s3"
        by (auto simp: client_ready_def client_has_def)
      obtain ok k' w4 where d: "oqs_kem_decaps L (Some k) (Some m) (Some (own_sk L w0)) w3 = Some (ok, Some k', w4)"
        "frame w3 [] [] 0 w4" "live w4 = live w3" "length k' = length k"
        "ok \<Longrightarrow> k' = kem_decaps L m (own_sk L w0)" "lib_up L \<Longrightarrow> ok"
        by (rule decaps_ok [OF library_correctD(5) [OF lib] r(4) sk(2) k(2), where w = w3]) (rule that)
      have "client_has L (own_pk L w0) (own_sk L w0) (ds @ [hs_msg 2 m]) (s3\<lparr>cl_shared_secret := Some k'\<rparr>)"
        using has d(4) k(2) by (simp add: client_has_def)
      note R4 = client_ready_lib [OF R3 this d(2,3)]
      have "?Q (s3\<lparr>cl_shared_secret := Some k'\<rparr>) w4" if ok
        using R4 d(5) [OF that] r(4) by (intro exI [of _ m]) (simp add: client_shared_def i)
      with client_ready_inv [OF R4] d(1,6) G k(1) sk(1) s3
      show "ends (client_inv w0) ?Q G (do {
          (ok, k, w) \<leftarrow> oqs_kem_decaps L (cl_shared_secret s3) (cl_ciphertext s3) (cl_kem_secret_key s3) w3;
          Some (ok, s3\<lparr>cl_shared_secret := k\<rparr>, w) })" by simp
    qed (use G in blast)
  qed
qed

lemma client_certificate_ok:
  assumes lib: "library_correct L sha256" and pc: "peer_closed w0"
    and G: "G \<longrightarrow> lib_up L \<and> io_fine w0 \<and> (\<exists>cert r. length cert = unat (sig_len_pk L) \<and> inbox w0 = i @ hs_msg 11 cert @ r)"
  shows "phase_ok (client_inv w0) (client_shared L w0 ss ds i out) (client_certificate L)
     (\<lambda>s w. \<exists>cert. length cert = unat (sig_len_pk L) \<and>
        client_certified L w0 ss cert (ds @ [hs_msg 11 cert]) (i @ hs_msg 11 cert) out s w) G"
proof (rule phase_okI)
  fix s w assume P: "client_shared L w0 ss ds i out s w"
  let ?Q = "\<lambda>s w. \<exists>cert. length cert = unat (sig_len_pk L) \<and>
        client_certified L w0 ss cert (ds @ [hs_msg 11 cert]) (i @ hs_msg 11 cert) out s w"
  note D = client_sharedD [OF P]
  note oqs = oqs_correctD [OF library_correctD(5) [OF lib]]
  from D(2) obtain c where c: "cl_sig_public_key s = Some c" "length c = unat (sig_len_pk L)"
    by (auto simp: client_has_def)
  have pcw: "peer_closed w" using cln.ready_closed [OF D(1)] pc by simp
  obtain rc m l j w1 where r: "recv_handshake_msg 11 (Some c) (sig_len_pk L) (Some (cl_body_len s)) w = Some (rc, Some m, Some l, w1)"
    "frame w j [] 0 w1" "live w1 = live w" "length m = unat (sig_len_pk L)" "rc = 0 \<or> rc = 1 \<or> rc = - 1"
    "rc = 0 \<Longrightarrow> l = sig_len_pk L \<Longrightarrow> j = hs_msg 11 m"
    "\<And>m' r. io_fine w \<Longrightarrow> inbox w = hs_msg 11 m' @ r \<Longrightarrow> length m' = unat (sig_len_pk L) \<Longrightarrow>
       rc = 0 \<and> l = sig_len_pk L \<and> m = m'"
    by (rule recv_exact [OF c(2) oqs(3) pcw, of 11 "cl_body_len s"]) (rule that)
  let ?s1 = "s\<lparr>cl_sig_public_key := Some m, cl_body_len := l\<rparr>"
  have has: "client_has L (own_pk L w0) (own_sk L w0) ds ?s1" using D(2) r(4) by (simp add: client_has_def)
  from client_ready_frame [OF D(1) has r(2,3)] have R1: "client_ready L w0 ds (i @ j) out 1 ?s1 w1" by simp
  show "ends (client_inv w0) ?Q G (client_certificate L s w)"
  proof (cases "rc = 0 \<and> l = sig_len_pk L")
    case False
    have "\<not> G"
    proof
      assume G
      with G obtain cert x where "io_fine w0" "length cert = unat (sig_len_pk L)" "inbox w0 = i @ hs_msg 11 cert @ x" by blast
      with r(7) [of cert x] False cln.ready_fine [OF D(1)] frame_rest [OF D(3)] show False by auto
    qed
    moreover have "client_certificate L s w = Some (False, ?s1, w1)"
      using False r(1,5) c(1) by (auto simp: client_certificate_def)
    ultimately show ?thesis using client_ready_inv [OF R1] by simp
  next
    case True
    have j: "j = hs_msg 11 m" by (rule r(6)) (use True in simp_all)
    have n: "unat (sig_len_pk L) \<le> length m" "take (unat (sig_len_pk L)) m = m" using r(4) by simp_all
    have eq: "client_certificate L s w = client_update L 11 (Some m) (sig_len_pk L) ?s1 w1"
      using True r(1) c(1) by (simp add: client_certificate_def)
    show ?thesis unfolding eq
    proof (rule ends_mono [OF cln.upd_ok [OF R1 n(1) oqs(3)], unfolded n(2)])
      fix s' w' assume "client_ready L w0 (ds @ [hs_msg 11 m]) (i @ j) out 1 s' w' \<and> (\<exists>t. s' = ?s1\<lparr>cl_transcript := t\<rparr>)"
      then show "?Q s' w'" using r(4) j D(4)
        by (auto simp: client_certified_def client_shared_def intro!: exI [of _ m])
    qed (use G in blast)
  qed
qed

lemma client_shared_step:
  assumes "client_shared L w0 ss ds i out s w" and "client_ready L w0 ds' i' out' 1 s' w'"
    and "cl_shared_secret s' = cl_shared_secret s"
  shows "client_shared L w0 ss ds' i' out' s' w'"
  using assms by (simp add: client_shared_def)

text \<open>A signature the client accepts: not empty, within the scheme's length, and valid for the
  transcript hash under the certificate.\<close>

definition good_sig :: "('c, 'm) lib \<Rightarrow> bytes \<Rightarrow> bytes \<Rightarrow> bytes \<Rightarrow> bool" where
  "good_sig L th cert sg \<longleftrightarrow> 0 < length sg \<and> length sg \<le> unat (sig_len_sig L) \<and> sig_verify L th sg cert"

text \<open>The tail of the phase: the signature \<open>m\<close> is in the buffer, its length is plausible.\<close>

lemma client_check_signature:
  assumes lib: "library_correct L sha256" and R: "client_ready L w0 ds i out 1 s w"
    and sg: "cl_signature s = Some b" "cl_signature_length s = l" "take (unat l) b = m" "unat l \<le> length b"
      "unat l \<le> 0xFFFFFF"
    and cert: "cl_sig_public_key s = Some cert" "length cert = unat (sig_len_pk L)"
  shows "ends (client_inv w0)
     (\<lambda>s' w'. client_ready L w0 (ds @ [hs_msg 15 m]) i out 1 s' w' \<and> cl_shared_secret s' = cl_shared_secret s \<and>
        sig_verify L (sha256 (concat ds)) m cert)
     (lib_up L \<and> sig_verify L (sha256 (concat ds)) m cert)
     (do {
        (ok, s, w) \<leftarrow> client_hash L s w;
        if \<not> ok then Some (False, s, w)
        else do {
          (ok, w) \<leftarrow> oqs_sig_verify L (cl_transcript_hash s) (cl_transcript_hash_len s)
              (cl_signature s) (cl_signature_length s) (cl_sig_public_key s) w;
          if \<not> ok then Some (False, s, w)
          else client_update L 15 (cl_signature s) (cl_signature_length s) s w
        } })"
    (is "ends _ ?Q ?G ?r")
proof -
  obtain o1 th n w2 where H: "client_hash L s w = Some (o1, s\<lparr>cl_transcript_hash := th, cl_transcript_hash_len := n\<rparr>, w2)"
    "client_ready L w0 ds i out 1 (s\<lparr>cl_transcript_hash := th, cl_transcript_hash_len := n\<rparr>) w2"
    "o1 \<Longrightarrow> th = sha256 (concat ds) \<and> n = 32" "length th = 32" "lib_up L \<Longrightarrow> o1"
    by (rule cln.get_hash_ok [OF lib R]) (rule that)
  let ?s3 = "s\<lparr>cl_transcript_hash := th, cl_transcript_hash_len := n\<rparr>"
  have lth: "length th = unat (32 :: size_t)" using H(4) by simp
  obtain o2 w3 where V: "oqs_sig_verify L th 32 (Some b) l (Some cert) w2 = Some (o2, w3)"
    "frame w2 [] [] 0 w3" "live w3 = live w2" "o2 \<Longrightarrow> sig_verify L th m cert"
    "lib_up L \<Longrightarrow> sig_verify L th m cert \<Longrightarrow> o2"
    by (rule verify_ok [OF lth sg(4) cert(2), where w = w2, unfolded sg(3)]) (rule that)
  note R3 = cln.ready_lib [OF H(2) V(2,3)]
  have eq: "?r = (if \<not> o1 then Some (False, ?s3, w2) else if \<not> o2 then Some (False, ?s3, w3)
      else client_update L 15 (Some b) l ?s3 w3)"
    using H(1) H(3) [THEN conjunct2] V(1) cert(1) sg(1,2) by (cases o1) simp_all
  show ?thesis
  proof (cases "o1 \<and> o2")
    case False
    with H(3,5) V(5) client_ready_inv [OF H(2)] client_ready_inv [OF R3] show ?thesis by (auto simp: eq)
  next
    case True
    then have e: "?r = client_update L 15 (Some b) l ?s3 w3" using eq by simp
    have v: "sig_verify L (sha256 (concat ds)) m cert" using V(4) H(3) True by simp
    show ?thesis unfolding e
      by (rule ends_mono [OF cln.upd_ok [OF R3 sg(4,5)], unfolded sg(3)]) (use v in auto)
  qed
qed

lemma client_certificate_verify_ok:
  assumes lib: "library_correct L sha256" and pc: "peer_closed w0"
    and G: "G \<longrightarrow> lib_up L \<and> io_fine w0 \<and>
       (\<exists>sg r. good_sig L (sha256 (concat ds)) cert sg \<and> inbox w0 = i @ hs_msg 15 sg @ r)"
  shows "phase_ok (client_inv w0) (client_certified L w0 ss cert ds i out) (client_certificate_verify L)
     (\<lambda>s w. \<exists>sg. good_sig L (sha256 (concat ds)) cert sg \<and>
        client_shared L w0 ss (ds @ [hs_msg 15 sg]) (i @ hs_msg 15 sg) out s w) G"
proof (rule phase_okI)
  fix s w assume P0: "client_certified L w0 ss cert ds i out s w"
  let ?Q = "\<lambda>s w. \<exists>sg. good_sig L (sha256 (concat ds)) cert sg \<and>
        client_shared L w0 ss (ds @ [hs_msg 15 sg]) (i @ hs_msg 15 sg) out s w"
  from P0 have P: "client_shared L w0 ss ds i out s w" and cert: "cl_sig_public_key s = Some cert"
    by (simp_all add: client_certified_def)
  note D = client_sharedD [OF P]
  note oqs = oqs_correctD [OF library_correctD(5) [OF lib]]
  from D(2) cert have lc: "length cert = unat (sig_len_pk L)" by (auto simp: client_has_def)
  from D(2) obtain c where c: "cl_signature s = Some c" "length c = unat (sig_len_sig L)"
    by (auto simp: client_has_def)
  have pcw: "peer_closed w" using cln.ready_closed [OF D(1)] pc by simp
  obtain rc b l j w1 where r: "recv_handshake_msg 15 (Some c) (sig_len_sig L) (Some (cl_body_len s)) w = Some (rc, Some b, Some l, w1)"
    "frame w j [] 0 w1" "live w1 = live w" "length b = unat (sig_len_sig L)" "rc = 0 \<or> rc = 1 \<or> rc = - 1"
    "rc = 0 \<Longrightarrow> l \<le> sig_len_sig L \<and> j = hs_msg 15 (take (unat l) b)"
    "\<And>m r. io_fine w \<Longrightarrow> inbox w = hs_msg 15 m @ r \<Longrightarrow> length m \<le> unat (sig_len_sig L) \<Longrightarrow>
       rc = 0 \<and> unat l = length m \<and> take (unat l) b = m"
    by (rule recv_upto [OF c(2) oqs(4) pcw, of 15 "cl_body_len s"]) (rule that)
  define m where "m = take (unat l) b"
  let ?s1 = "s\<lparr>cl_signature := Some b, cl_body_len := l\<rparr>"
  let ?s2 = "?s1\<lparr>cl_signature_length := l\<rparr>"
  have has: "client_has L (own_pk L w0) (own_sk L w0) ds ?s1" "client_has L (own_pk L w0) (own_sk L w0) ds ?s2"
    using D(2) r(4) by (simp_all add: client_has_def)
  from client_ready_frame [OF D(1) has(1) r(2,3)] client_ready_frame [OF D(1) has(2) r(2,3)]
  have R1: "client_ready L w0 ds (i @ j) out 1 ?s1 w1" and R2: "client_ready L w0 ds (i @ j) out 1 ?s2 w1" by simp_all
  have hon: "rc = 0 \<and> good_sig L (sha256 (concat ds)) cert m \<and> unat l = length m" if g: G
  proof -
    from g G obtain sg x where h: "io_fine w0" "good_sig L (sha256 (concat ds)) cert sg" "inbox w0 = i @ hs_msg 15 sg @ x"
      by blast
    then have "io_fine w" "inbox w = hs_msg 15 sg @ x"
      using cln.ready_fine [OF D(1)] frame_rest [OF D(3)] by simp_all
    from r(7) [OF this] h(2) show ?thesis by (auto simp: m_def good_sig_def)
  qed
  show "ends (client_inv w0) ?Q G (client_certificate_verify L s w)"
  proof (cases "rc = 0 \<and> l \<noteq> 0")
    case False
    have "\<not> G" using hon False by (auto simp: good_sig_def)
    moreover have "client_certificate_verify L s w = Some (False, ?s1, w1)"
      using False r(1,5) c(1) by (auto simp: client_certificate_verify_def)
    ultimately show ?thesis using client_ready_inv [OF R1] by simp
  next
    case True
    with r(6) have l: "l \<le> sig_len_sig L" and j: "j = hs_msg 15 m" by (simp_all add: m_def)
    then have ul: "unat l \<le> length b" "unat l \<le> 0xFFFFFF" "\<not> sig_len_sig L < l"
      using r(4) oqs(4) by (simp_all add: word_le_nat_alt not_less)
    have pos: "0 < length m" "length m \<le> unat (sig_len_sig L)"
      using True ul(1) r(4) by (simp_all add: m_def unat_gt_0 min_def)
    have eq: "client_certificate_verify L s w = do {
        (ok, s, w) \<leftarrow> client_hash L ?s2 w1;
        if \<not> ok then Some (False, s, w)
        else do {
          (ok, w) \<leftarrow> oqs_sig_verify L (cl_transcript_hash s) (cl_transcript_hash_len s)
              (cl_signature s) (cl_signature_length s) (cl_sig_public_key s) w;
          if \<not> ok then Some (False, s, w)
          else client_update L 15 (cl_signature s) (cl_signature_length s) s w
        } }"
      using True r(1) c(1) ul(3) by (simp add: client_certificate_verify_def Let_def cong: if_cong)
    have sg: "cl_signature ?s2 = Some b" "cl_signature_length ?s2 = l" "cl_sig_public_key ?s2 = Some cert"
      by (simp_all add: cert)
    show ?thesis unfolding eq
    proof (rule ends_mono [OF client_check_signature [OF lib R2 sg(1,2) m_def [symmetric] ul(1,2) sg(3) lc]])
      fix s' w' assume "client_ready L w0 (ds @ [hs_msg 15 m]) (i @ j) out 1 s' w' \<and>
         cl_shared_secret s' = cl_shared_secret ?s2 \<and> sig_verify L (sha256 (concat ds)) m cert"
      then show "?Q s' w'" using pos j D(4)
        by (auto simp: client_shared_def good_sig_def intro!: exI [of _ m])
    qed (use hon G in \<open>auto simp: good_sig_def\<close>)
  qed
qed

lemma client_recv_finished_ok:
  assumes lib: "library_correct L sha256" and pc: "peer_closed w0"
    and v: "v = finished_mac L ss TLS_SERVER_FINISHED_LABEL (sha256 (concat ds))"
    and G: "G \<longrightarrow> lib_up L \<and> io_fine w0 \<and> (\<exists>r. inbox w0 = i @ hs_msg 20 v @ r)"
  shows "phase_ok (client_inv w0) (client_shared L w0 ss ds i out) (client_recv_finished L)
     (client_shared L w0 ss (ds @ [hs_msg 20 v]) (i @ hs_msg 20 v) out) G"
proof (rule phase_okI)
  fix s w assume P: "client_shared L w0 ss ds i out s w"
  note D = client_sharedD [OF P]
  have m: "hs_msg 20 v = hs_msg (msg_code TLS_MSG_FINISHED) v" by simp
  show "ends (client_inv w0) (client_shared L w0 ss (ds @ [hs_msg 20 v]) (i @ hs_msg 20 v) out) G (client_recv_finished L s w)"
    by (rule ends_mono [OF cln_ver.recv_fin_ok [OF lib D(1) pc D(4) D(5) [symmetric] v m]])
      (use G in \<open>auto intro!: client_shared_step [OF P]\<close>)
qed

lemma client_send_finished_ok:
  assumes lib: "library_correct L sha256" and G: "G \<longrightarrow> lib_up L \<and> io_fine w0"
    and m: "m = hs_msg 20 (finished_mac L ss TLS_CLIENT_FINISHED_LABEL (sha256 (concat ds)))"
  shows "phase_ok (client_inv w0) (client_shared L w0 ss ds i out) (client_send_finished L)
     (client_shared L w0 ss (ds @ [m]) i (out @ m)) G"
proof (rule phase_okI)
  fix s w assume P: "client_shared L w0 ss ds i out s w"
  note D = client_sharedD [OF P]
  have m': "m = hs_msg (msg_code TLS_MSG_FINISHED) (finished_mac L ss TLS_CLIENT_FINISHED_LABEL (sha256 (concat ds)))"
    by (simp add: m)
  show "ends (client_inv w0) (client_shared L w0 ss (ds @ [m]) i (out @ m)) G (client_send_finished L s w)"
    by (rule ends_mono [OF cln_fin.send_fin_ok [OF lib D(1,4) D(5) [symmetric] m']])
      (use G in \<open>auto intro!: client_shared_step [OF P]\<close>)
qed

subsection \<open>Application data phases\<close>

definition client_keyed ::
  "('c, 'm) lib \<Rightarrow> world \<Rightarrow> tls_record_state \<Rightarrow> tls_record_state \<Rightarrow> bytes \<Rightarrow> bytes list \<Rightarrow> bytes \<Rightarrow> bytes \<Rightarrow> 'm client \<Rightarrow> world \<Rightarrow> bool" where
  "client_keyed L w0 ws rs ss ds i out s w \<longleftrightarrow>
     client_shared L w0 ss ds i out s w \<and> cl_send_state s = ws \<and> cl_recv_state s = rs"

lemma client_application_keys_ok:
  assumes lib: "library_correct L sha256" and G: "G \<longrightarrow> lib_up L"
    and ks: "ks = app_keys L ss (sha256 (concat ds))"
  shows "phase_ok (client_inv w0) (client_shared L w0 ss ds i out) (client_application_keys L)
     (client_keyed L w0 (record_start (client_key ks) (client_iv ks)) (record_start (server_key ks) (server_iv ks))
        ss ds i out) G"
proof (rule phase_okI)
  fix s w assume P: "client_shared L w0 ss ds i out s w"
  note D = client_sharedD [OF P]
  show "ends (client_inv w0) (client_keyed L w0 (record_start (client_key ks) (client_iv ks))
      (record_start (server_key ks) (server_iv ks)) ss ds i out) G (client_application_keys L s w)"
    by (rule ends_mono [OF cln_key.install_ok [OF lib D(1,4) D(5) [symmetric] ks]])
      (use G in \<open>auto simp: client_keyed_def intro!: client_shared_step [OF P]\<close>)
qed

lemma client_send_data_ok:
  assumes lib: "library_correct L sha256" and G: "G \<longrightarrow> lib_up L \<and> io_fine w0" and st: "record_ok ws"
  shows "phase_ok (client_inv w0) (client_keyed L w0 ws rs ss ds i out) (client_send_data L)
     (client_keyed L w0 (next_seq ws) rs ss ds i (out @ record_bytes L ws client_message)) G"
proof (rule phase_okI)
  fix s w assume K: "client_keyed L w0 ws rs ss ds i out s w"
  then have P: "client_shared L w0 ss ds i out s w" and d: "cl_send_state s = ws" "cl_recv_state s = rs"
    by (simp_all add: client_keyed_def)
  have n: "0 < length client_message" "length client_message \<le> 1024" by (simp_all add: client_message_def)
  obtain rc st' o' w1 where r: "send_encrypted_record L (Some client_message) (of_nat (length client_message))
      (Some (cl_send_state s)) w = Some (rc, Some st', w1)"
    "client_ready L w0 ds i (out @ o') 1 (s\<lparr>cl_send_state := st'\<rparr>) w1"
    "rc = 0 \<Longrightarrow> o' = record_bytes L ws client_message \<and> st' = next_seq ws" "lib_up L \<Longrightarrow> io_fine w0 \<Longrightarrow> rc = 0"
    by (rule cln_snd.send_data_ok [OF lib client_sharedD(1) [OF P] d(1) st n]) (rule that)
  have eq: "client_send_data L s w = Some (rc = 0, s\<lparr>cl_send_state := st'\<rparr>, w1)"
    using r(1) by (simp add: client_send_data_def)
  show "ends (client_inv w0) (client_keyed L w0 (next_seq ws) rs ss ds i (out @ record_bytes L ws client_message)) G
     (client_send_data L s w)"
    using r(2-4) client_ready_inv [OF r(2)] P d(2) G
    by (auto simp: eq client_keyed_def client_shared_def)
qed

definition client_got :: "bytes \<Rightarrow> 'm client \<Rightarrow> bool" where
  "client_got pt s \<longleftrightarrow> 0 < length pt \<and> length pt \<le> 1023 \<and>
     cl_plaintext_len s = of_nat (length pt) \<and> take (Suc (length pt)) (cl_plaintext s) = pt @ [0]"

lemma client_recv_data_ok:
  assumes lib: "library_correct L sha256" and pc: "peer_closed w0" and st: "record_ok rs"
    and G: "G \<longrightarrow> lib_up L \<and> io_fine w0 \<and>
       (\<exists>msg r. 0 < length msg \<and> length msg \<le> 1023 \<and> inbox w0 = i @ record_bytes L rs msg @ r)"
  shows "phase_ok (client_inv w0) (client_keyed L w0 ws rs ss ds i out) (client_recv_data L)
     (\<lambda>s w. \<exists>pt. client_got pt s \<and> client_keyed L w0 ws (next_seq rs) ss ds (i @ record_bytes L rs pt) out s w) G"
proof (rule phase_okI)
  fix s w assume K: "client_keyed L w0 ws rs ss ds i out s w"
  then have P: "client_shared L w0 ss ds i out s w" and d: "cl_send_state s = ws" "cl_recv_state s = rs"
    by (simp_all add: client_keyed_def)
  show "ends (client_inv w0) (\<lambda>s w. \<exists>pt. client_got pt s \<and>
        client_keyed L w0 ws (next_seq rs) ss ds (i @ record_bytes L rs pt) out s w) G (client_recv_data L s w)"
  proof (rule ends_mono [OF cln_rcv.recv_data_ok [OF lib client_sharedD(1) [OF P] pc d(2) st]], elim exE conjE)
    fix s' w' pt p q
    assume a: "0 < length pt" "length pt \<le> 1023" "take (length pt + 1) p = pt @ [0]"
      "client_ready L w0 ds (i @ record_bytes L rs pt) out 1 s' w'"
      "s' = s\<lparr>cl_plaintext := q, cl_plaintext_len := of_nat (length pt), cl_recv_state := next_seq rs,
         cl_plaintext := p\<rparr>"
    have "client_keyed L w0 ws (next_seq rs) ss ds (i @ record_bytes L rs pt) out s' w'"
      unfolding client_keyed_def using a(4,5) d(1)
      by (intro conjI client_shared_step [OF P]) simp_all
    moreover have "client_got pt s'" using a(1-3,5) by (simp add: client_got_def)
    ultimately show "\<exists>pt. client_got pt s' \<and> client_keyed L w0 ws (next_seq rs) ss ds (i @ record_bytes L rs pt) out s' w'"
      by blast
  qed (use G in simp)
qed

end
