(* ===== verification/Client_Run.thy ===== *)
theory Client_Run
  imports Client_Session
begin

section \<open>The client program as a whole\<close>

text \<open>
  The phases composed into \<open>client_main\<close>, as theory \<open>Server_Run\<close> does for the server. What the
  client received is found phase by phase (\<open>run_phases_ok_choose\<close>); after Certificate Verify
  the handshake it takes part in is known, and the rest of the chain is proved for it.
\<close>

text \<open>The handshakes a client goes through with: lengths as the scheme says, and a signature
  that verifies under the certificate for the hash of the first three messages.\<close>

definition client_valid :: "('c, 'm) lib \<Rightarrow> (bytes \<Rightarrow> bytes) \<Rightarrow> handshake \<Rightarrow> bool" where
  "client_valid L sha256 h \<longleftrightarrow>
     length (hv_ct h) = unat (kem_len_ct L) \<and> length (hv_cert h) = unat (sig_len_pk L) \<and>
     good_sig L (signed_hash sha256 h) (hv_cert h) (hv_sig h)"

definition client_accepted ::
  "('c, 'm) lib \<Rightarrow> (bytes \<Rightarrow> bytes) \<Rightarrow> world \<Rightarrow> handshake \<Rightarrow> bytes \<Rightarrow> 'm client \<Rightarrow> world \<Rightarrow> bool" where
  "client_accepted L sha256 w0 h pt s w \<longleftrightarrow>
     h = client_view L (rng w0) (hv_ct h) (hv_cert h) (hv_sig h) \<and> client_valid L sha256 h \<and> client_got pt s \<and>
     frame w0 (server_stream L sha256 h pt) (client_stream L sha256 h client_message) 1 w \<and>
     cl_send_state s = next_seq (client_dir L sha256 h) \<and>
     cl_recv_state s = next_seq (server_dir L sha256 h)"

definition client_exit ::
  "('c, 'm) lib \<Rightarrow> (bytes \<Rightarrow> bytes) \<Rightarrow> world \<Rightarrow> 'm client \<Rightarrow> world \<Rightarrow> bool" where
  "client_exit L sha256 w0 s w \<longleftrightarrow>
     client_res w0 s w \<and>
     (cl_ret s = EXIT_FAILURE \<or> cl_ret s = EXIT_SUCCESS \<and> (\<exists>h pt. client_accepted L sha256 w0 h pt s w))"

lemma client_inv_exit: "client_inv w0 s w \<Longrightarrow> client_exit L sha256 w0 s w"
  by (simp add: client_inv_def client_exit_def)

abbreviation client_succeeds where
  "client_succeeds L sha256 w0 s w \<equiv>
     cl_ret s = EXIT_SUCCESS \<and> (\<exists>h pt. client_accepted L sha256 w0 h pt s w)"

lemma client_step:
  assumes "phase_ok (client_inv w0) P f Q G" and "phase_ok (client_exit L sha256 w0) Q (run_phases fs) R G"
  shows "phase_ok (client_exit L sha256 w0) P (run_phases (f # fs)) R G"
  by (rule run_phases_ok_Cons [OF phase_ok_inv [OF assms(1)] assms(2)]) (rule client_inv_exit)

lemma client_choose:
  assumes "phase_ok (client_inv w0) P f (\<lambda>s w. \<exists>x. Q x s w) G"
    and "\<And>x s w. Q x s w \<Longrightarrow> phase_ok (client_exit L sha256 w0) (Q x) (run_phases fs) R G"
  shows "phase_ok (client_exit L sha256 w0) P (run_phases (f # fs)) R G"
  by (rule run_phases_ok_choose [OF phase_ok_inv [OF assms(1)] assms(2)]) (rule client_inv_exit)

text \<open>An input an honest server could have sent, with the ciphertext, the certificate and the
  signature given or still open.\<close>

definition client_served :: "('c, 'm) lib \<Rightarrow> (bytes \<Rightarrow> bytes) \<Rightarrow> world \<Rightarrow> handshake \<Rightarrow> bool" where
  "client_served L sha256 w0 h \<longleftrightarrow>
     lib_up L \<and> io_fine w0 \<and> h = client_view L (rng w0) (hv_ct h) (hv_cert h) (hv_sig h) \<and> client_valid L sha256 h \<and>
     (\<exists>msg r. 0 < length msg \<and> length msg \<le> 1023 \<and> inbox w0 = server_stream L sha256 h msg @ r)"

lemma client_valid_hs:
  assumes "library_correct L sha256" and "client_valid L sha256 h"
  shows "hs_valid (2, hv_ct h)" "hs_valid (11, hv_cert h)" "hs_valid (15, hv_sig h)"
  using assms oqs_correctD(2-4) [OF library_correctD(5) [OF assms(1)]]
  by (simp_all add: client_valid_def good_sig_def)

text \<open>What has been read determines the open parts.\<close>

lemma client_served_ct:
  assumes lib: "library_correct L sha256" and h: "client_served L sha256 w0 h"
    and ct: "length ct = unat (kem_len_ct L)" and i: "inbox w0 = hs_msg 2 ct @ r"
  shows "hv_ct h = ct \<and> (\<exists>x. r = hs_msg 11 (hv_cert h) @ x)"
proof -
  from h obtain msg y where e: "inbox w0 = hs_msg 2 (hv_ct h) @ hs_msg 11 (hv_cert h) @ y" and v: "client_valid L sha256 h"
    by (auto simp: client_served_def server_stream_def)
  have c: "hs_valid (2, ct)" using ct oqs_correctD(2) [OF library_correctD(5) [OF lib]] by simp
  from hs_cancel [OF client_valid_hs(1) [OF lib v] c e [unfolded i, symmetric]] show ?thesis by blast
qed

lemma client_served_cert:
  assumes lib: "library_correct L sha256" and h: "client_served L sha256 w0 h"
    and ct: "length ct = unat (kem_len_ct L)" and cert: "length cert = unat (sig_len_pk L)"
    and i: "inbox w0 = hs_msg 2 ct @ hs_msg 11 cert @ r"
  shows "hv_cert h = cert \<and> (\<exists>x. r = hs_msg 15 (hv_sig h) @ x)"
proof -
  from h obtain msg y where e: "inbox w0 = hs_msg 2 (hv_ct h) @ hs_msg 11 (hv_cert h) @ hs_msg 15 (hv_sig h) @ y"
    and v: "client_valid L sha256 h"
    by (auto simp: client_served_def server_stream_def cv_msg_def)
  from client_served_ct [OF lib h ct i] have "hv_ct h = ct" by blast
  with e i have e2: "hs_msg 11 (hv_cert h) @ hs_msg 15 (hv_sig h) @ y = hs_msg 11 cert @ r" by simp
  have c: "hs_valid (11, cert)" using cert oqs_correctD(3) [OF library_correctD(5) [OF lib]] by simp
  from hs_cancel [OF client_valid_hs(2) [OF lib v] c e2] show ?thesis by blast
qed

lemma client_served_sig:
  assumes lib: "library_correct L sha256" and h: "client_served L sha256 w0 h"
    and ct: "length ct = unat (kem_len_ct L)" and cert: "length cert = unat (sig_len_pk L)"
    and sg: "length sg \<le> unat (sig_len_sig L)"
    and i: "inbox w0 = hs_msg 2 ct @ hs_msg 11 cert @ hs_msg 15 sg @ r"
  shows "h = client_view L (rng w0) ct cert sg"
proof -
  from h have v: "client_valid L sha256 h" and d: "h = client_view L (rng w0) (hv_ct h) (hv_cert h) (hv_sig h)"
    by (simp_all add: client_served_def)
  from client_served_ct [OF lib h ct i] have a: "hv_ct h = ct" by blast
  from client_served_cert [OF lib h ct cert i] obtain x where b: "hv_cert h = cert"
    "hs_msg 15 sg @ r = hs_msg 15 (hv_sig h) @ x" by blast
  have c: "hs_valid (15, sg)" using sg oqs_correctD(4) [OF library_correctD(5) [OF lib]] by simp
  from hs_cancel [OF c client_valid_hs(3) [OF lib v] b(2)] have "hv_sig h = sg" by blast
  with a b(1) d show ?thesis by simp
qed

subsection \<open>After Certificate Verify\<close>

lemma client_success_ok:
  assumes acc: "\<And>s w. P s w \<Longrightarrow> client_ready L w0 ds i out 1 s w \<and> client_accepted L sha256 w0 h pt s w"
  shows "phase_ok (client_exit L sha256 w0) P (run_phases [client_success]) (client_succeeds L sha256 w0) G"
proof (rule phase_okI)
  fix s :: "'a client" and w assume P: "P s w"
  let ?s = "s\<lparr>cl_ret := EXIT_SUCCESS\<rparr>"
  from acc [OF P] have R: "client_inv w0 s w" and A: "client_accepted L sha256 w0 h pt s w"
    using client_ready_inv by blast+
  have "client_accepted L sha256 w0 h pt ?s w" using A by (simp add: client_accepted_def client_got_def)
  moreover have "client_res w0 ?s w" using R by (simp add: client_inv_def client_res_def client_held_def)
  ultimately have "client_exit L sha256 w0 ?s w" "client_succeeds L sha256 w0 ?s w"
    unfolding client_exit_def by auto
  then show "ends (client_exit L sha256 w0) (client_succeeds L sha256 w0) G (run_phases [client_success] s w)"
    by (simp add: client_success_def)
qed

lemma client_rest_ok:
  assumes lib: "library_correct L sha256" and pc: "peer_closed w0"
    and h: "h = client_view L (rng w0) (hv_ct h) (hv_cert h) (hv_sig h)" and v: "client_valid L sha256 h"
    and G: "G \<longrightarrow> client_served L sha256 w0 h"
    and i: "i = hs_msg 2 (hv_ct h) @ hs_msg 11 (hv_cert h) @ cv_msg h"
  shows "phase_ok (client_exit L sha256 w0)
     (client_shared L w0 (hv_ss h) (hello_log h @ [cv_msg h]) i (hs_msg 1 (hv_pk h)))
     (run_phases (drop 4 (client_session L)))
     (client_succeeds L sha256 w0) G"
proof -
  let ?i = "i @ sf_msg L sha256 h" and ?o = "hs_msg 1 (hv_pk h) @ cf_msg L sha256 h"
  let ?log = "hello_log h @ [cv_msg h, sf_msg L sha256 h, cf_msg L sha256 h]"
  let ?ws = "client_dir L sha256 h" and ?rs = "server_dir L sha256 h"
  have up: "G \<longrightarrow> lib_up L" "G \<longrightarrow> lib_up L \<and> io_fine w0" using G by (simp_all add: client_served_def)
  have fin: "G \<longrightarrow> lib_up L \<and> io_fine w0 \<and> (\<exists>r. inbox w0 = i @ hs_msg 20 (server_fin L sha256 h) @ r)"
    "G \<longrightarrow> lib_up L \<and> io_fine w0 \<and> (\<exists>msg r. 0 < length msg \<and> length msg \<le> 1023 \<and>
       inbox w0 = ?i @ record_bytes L ?rs msg @ r)"
    using G by (auto simp: client_served_def server_stream_def server_record_def sf_msg_def cv_msg_def i)
  have ds: "(hello_log h @ [cv_msg h]) @ [hs_msg 20 (server_fin L sha256 h)] = hello_log h @ [cv_msg h, sf_msg L sha256 h]"
    "(hello_log h @ [cv_msg h, sf_msg L sha256 h]) @ [cf_msg L sha256 h] = ?log"
    by (simp_all add: sf_msg_def)
  have dirs: "record_start (client_key (session_keys L sha256 h)) (client_iv (session_keys L sha256 h)) = ?ws"
    "record_start (server_key (session_keys L sha256 h)) (server_iv (session_keys L sha256 h)) = ?rs"
    by (simp_all add: client_dir_def server_dir_def)
  have sf: "i @ hs_msg 20 (server_fin L sha256 h) = ?i" by (simp add: sf_msg_def)
  note recv_fin = client_recv_finished_ok [OF lib pc server_fin_def fin(1), unfolded ds(1) sf]
  have cf: "cf_msg L sha256 h = hs_msg 20 (finished_mac L (hv_ss h) TLS_CLIENT_FINISHED_LABEL
      (sha256 (concat (hello_log h @ [cv_msg h, sf_msg L sha256 h]))))"
    by (simp add: cf_msg_def client_fin_def)
  note send_fin = client_send_finished_ok [OF lib up(2) cf, unfolded ds(2)]
  have ks: "session_keys L sha256 h = app_keys L (hv_ss h) (sha256 (concat ?log))" by (simp add: session_keys_def)
  note keys = client_application_keys_ok [OF lib up(1) ks, unfolded dirs]
  note ok = dir_ok [OF lib, of h]
  have last: "phase_ok (client_exit L sha256 w0)
      (\<lambda>s w. client_got pt s \<and> client_keyed L w0 (next_seq ?ws) (next_seq ?rs) (hv_ss h) ?log
          (?i @ record_bytes L ?rs pt) (?o @ record_bytes L ?ws client_message) s w)
      (run_phases [client_success]) (client_succeeds L sha256 w0) G" for pt
  proof (rule client_success_ok)
    fix s w assume K: "client_got pt s \<and> client_keyed L w0 (next_seq ?ws) (next_seq ?rs) (hv_ss h) ?log
          (?i @ record_bytes L ?rs pt) (?o @ record_bytes L ?ws client_message) s w"
    then have P: "client_shared L w0 (hv_ss h) ?log (?i @ record_bytes L ?rs pt) (?o @ record_bytes L ?ws client_message) s w"
      by (simp add: client_keyed_def)
    have "server_stream L sha256 h pt = ?i @ record_bytes L ?rs pt"
      "client_stream L sha256 h client_message = ?o @ record_bytes L ?ws client_message"
      by (simp_all add: server_stream_def client_stream_def server_record_def client_record_def i)
    then have "client_accepted L sha256 w0 h pt s w"
      using K client_sharedD(3) [OF P] h v unfolding client_accepted_def client_keyed_def by simp
    then show "client_ready L w0 ?log (?i @ record_bytes L ?rs pt) (?o @ record_bytes L ?ws client_message) 1 s w \<and>
        client_accepted L sha256 w0 h pt s w"
      using client_sharedD(1) [OF P] by blast
  qed
  have drop: "drop 4 (client_session L) = [client_recv_finished L, client_send_finished L,
     client_application_keys L, client_send_data L, client_recv_data L, client_success]"
    by (simp add: client_session_def)
  show ?thesis unfolding drop
    by (rule client_step [OF recv_fin], rule client_step [OF send_fin], rule client_step [OF keys],
        rule client_step [OF client_send_data_ok [OF lib up(2) conjunct1 [OF ok]]],
        rule client_choose [OF client_recv_data_ok [OF lib pc conjunct2 [OF ok] fin(2)] last])
qed

subsection \<open>The whole chain\<close>

lemma client_valid_view:
  assumes "length ct = unat (kem_len_ct L)" and "length cert = unat (sig_len_pk L)"
    and "good_sig L (sha256 (concat [hs_msg 1 (own_pk L w0), hs_msg 2 ct, hs_msg 11 cert])) cert sg"
  shows "client_valid L sha256 (client_view L (rng w0) ct cert sg)"
  using assms by (simp add: client_valid_def signed_hash_def hello_log_def own_pk_def)

lemma client_valid_good:
  assumes "client_served L sha256 w0 h"
  shows "good_sig L (sha256 (concat [hs_msg 1 (own_pk L w0), hs_msg 2 (hv_ct h), hs_msg 11 (hv_cert h)])) (hv_cert h) (hv_sig h)"
    "length (hv_ct h) = unat (kem_len_ct L)" "length (hv_cert h) = unat (sig_len_pk L)"
proof -
  have pk: "hv_pk h = own_pk L w0"
    using assms client_view_sel(1) [of L "rng w0" "hv_ct h" "hv_cert h" "hv_sig h"]
    unfolding client_served_def own_pk_def by metis
  show "good_sig L (sha256 (concat [hs_msg 1 (own_pk L w0), hs_msg 2 (hv_ct h), hs_msg 11 (hv_cert h)])) (hv_cert h) (hv_sig h)"
    "length (hv_ct h) = unat (kem_len_ct L)" "length (hv_cert h) = unat (sig_len_pk L)"
    using assms by (simp_all add: client_served_def client_valid_def signed_hash_def hello_log_def pk)
qed

text \<open>From Certificate Verify on, with ciphertext and certificate known.\<close>

lemma client_from_verify_ok:
  fixes L :: "('c, 'm) lib"
  assumes lib: "library_correct L sha256" and pc: "peer_closed w0"
    and G: "G \<longrightarrow> (\<exists>h. client_served L sha256 w0 h)"
    and l: "length ct = unat (kem_len_ct L)" "length cert = unat (sig_len_pk L)"
    and i: "inbox w0 = hs_msg 2 ct @ hs_msg 11 cert @ y"
    and m: "m = hs_msg 1 (own_pk L w0)" and ds: "ds = [m, hs_msg 2 ct, hs_msg 11 cert]"
  shows "phase_ok (client_exit L sha256 w0)
     (client_certified L w0 (kem_decaps L ct (own_sk L w0)) cert ds (hs_msg 2 ct @ hs_msg 11 cert) m)
     (run_phases (drop 3 (client_session L))) (client_succeeds L sha256 w0) G"
proof -
  have g: "G \<longrightarrow> lib_up L \<and> io_fine w0 \<and> (\<exists>sg r. good_sig L (sha256 (concat ds)) cert sg \<and>
      inbox w0 = (hs_msg 2 ct @ hs_msg 11 cert) @ hs_msg 15 sg @ r)"
  proof
    assume G
    with G obtain h where h: "client_served L sha256 w0 h" by blast
    from client_served_ct [OF lib h l(1) i] client_served_cert [OF lib h l i] obtain x where
      e: "hv_ct h = ct" "hv_cert h = cert" "y = hs_msg 15 (hv_sig h) @ x" by blast
    with client_valid_good(1) [OF h] i h
    show "lib_up L \<and> io_fine w0 \<and> (\<exists>sg r. good_sig L (sha256 (concat ds)) cert sg \<and>
        inbox w0 = (hs_msg 2 ct @ hs_msg 11 cert) @ hs_msg 15 sg @ r)" by (auto simp: ds m client_served_def)
  qed
  have split: "drop 3 (client_session L) = client_certificate_verify L # drop 4 (client_session L)"
    by (simp add: client_session_def)
  let ?i = "(hs_msg 2 ct @ hs_msg 11 cert)" and ?ss = "kem_decaps L ct (own_sk L w0)"
  show ?thesis unfolding split
  proof (rule client_choose [OF client_certificate_verify_ok [OF lib pc g]])
    fix sg and s :: "'m client" and w
    let ?h = "client_view L (rng w0) ct cert sg"
    assume Q: "good_sig L (sha256 (concat ds)) cert sg \<and>
      client_shared L w0 ?ss (ds @ [hs_msg 15 sg]) (?i @ hs_msg 15 sg) m s w"
    then have v: "client_valid L sha256 ?h" by (intro client_valid_view l) (simp add: ds m)
    from Q have sg: "length sg \<le> unat (sig_len_sig L)" and
      f: "inbox w0 = hs_msg 2 ct @ hs_msg 11 cert @ hs_msg 15 sg @ inbox w"
      by (simp_all add: good_sig_def client_shared_def client_ready_def frame_def)
    have h: "?h = client_view L (rng w0) (hv_ct ?h) (hv_cert ?h) (hv_sig ?h)" by simp
    have "G \<longrightarrow> client_served L sha256 w0 ?h" using G client_served_sig [OF lib _ l sg f] by auto
    note rest = client_rest_ok [OF lib pc h v this refl]
    have eqs: "hv_ss ?h = ?ss" "hello_log ?h @ [cv_msg ?h] = ds @ [hs_msg 15 sg]" "hs_msg 1 (hv_pk ?h) = m"
      "hs_msg 2 (hv_ct ?h) @ hs_msg 11 (hv_cert ?h) @ cv_msg ?h = ?i @ hs_msg 15 sg"
      by (simp_all add: own_sk_def own_pk_def hello_log_def cv_msg_def ds m)
    show "phase_ok (client_exit L sha256 w0) (\<lambda>s w. good_sig L (sha256 (concat ds)) cert sg \<and>
        client_shared L w0 ?ss (ds @ [hs_msg 15 sg]) (?i @ hs_msg 15 sg) m s w)
      (run_phases (drop 4 (client_session L))) (client_succeeds L sha256 w0) G"
      using rest unfolding eqs phase_ok_def by blast
  qed
qed

text \<open>From the Certificate on, with the ciphertext known.\<close>

lemma client_from_certificate_ok:
  fixes L :: "('c, 'm) lib"
  assumes lib: "library_correct L sha256" and pc: "peer_closed w0"
    and G: "G \<longrightarrow> (\<exists>h. client_served L sha256 w0 h)"
    and l: "length ct = unat (kem_len_ct L)" and i: "inbox w0 = hs_msg 2 ct @ y"
    and m: "m = hs_msg 1 (own_pk L w0)"
  shows "phase_ok (client_exit L sha256 w0)
     (client_shared L w0 (kem_decaps L ct (own_sk L w0)) ([m] @ [hs_msg 2 ct]) (hs_msg 2 ct) m)
     (run_phases (drop 2 (client_session L))) (client_succeeds L sha256 w0) G"
proof -
  have g: "G \<longrightarrow> lib_up L \<and> io_fine w0 \<and> (\<exists>cert r. length cert = unat (sig_len_pk L) \<and>
      inbox w0 = hs_msg 2 ct @ hs_msg 11 cert @ r)"
  proof
    assume G
    with G obtain h where h: "client_served L sha256 w0 h" by blast
    then have "lib_up L \<and> io_fine w0" by (simp add: client_served_def)
    with client_served_ct [OF lib h l i] i client_valid_good(3) [OF h]
    show "lib_up L \<and> io_fine w0 \<and> (\<exists>cert r. length cert = unat (sig_len_pk L) \<and> inbox w0 = hs_msg 2 ct @ hs_msg 11 cert @ r)"
      by blast
  qed
  have split: "drop 2 (client_session L) = client_certificate L # drop 3 (client_session L)"
    by (simp add: client_session_def)
  let ?Q = "\<lambda>cert. client_certified L w0 (kem_decaps L ct (own_sk L w0)) cert (([m] @ [hs_msg 2 ct]) @ [hs_msg 11 cert])
        (hs_msg 2 ct @ hs_msg 11 cert) m"
  show ?thesis unfolding split
  proof (rule client_choose [OF client_certificate_ok [OF lib pc g]])
    fix cert and s :: "'m client" and w
    assume Q: "length cert = unat (sig_len_pk L) \<and> ?Q cert s w"
    then have "inbox w0 = hs_msg 2 ct @ hs_msg 11 cert @ inbox w"
      by (simp add: client_certified_def client_shared_def client_ready_def frame_def)
    from client_from_verify_ok [OF lib pc G l conjunct1 [OF Q] this m refl]
    show "phase_ok (client_exit L sha256 w0) (\<lambda>s w. length cert = unat (sig_len_pk L) \<and> ?Q cert s w)
        (run_phases (drop 3 (client_session L))) (client_succeeds L sha256 w0) G"
      by (simp add: phase_ok_def)
  qed
qed

lemma client_session_ok:
  fixes L :: "('c, 'm) lib"
  assumes lib: "library_correct L sha256" and pc: "peer_closed w0"
    and G: "G \<longrightarrow> (\<exists>h. client_served L sha256 w0 h)"
  shows "phase_ok (client_exit L sha256 w0) (client_ready L w0 [] [] [] 1)
     (run_phases (client_session L)) (client_succeeds L sha256 w0) G"
proof -
  let ?m = "hs_msg 1 (own_pk L w0)"
  have up: "G \<longrightarrow> lib_up L \<and> io_fine w0" using G by (auto simp: client_served_def)
  have g: "G \<longrightarrow> lib_up L \<and> io_fine w0 \<and> (\<exists>ct r. length ct = unat (kem_len_ct L) \<and> inbox w0 = hs_msg 2 ct @ r)"
  proof
    assume G
    with G obtain h where h: "client_served L sha256 w0 h" by blast
    then have "\<exists>r. inbox w0 = hs_msg 2 (hv_ct h) @ r" by (auto simp: client_served_def server_stream_def)
    with client_valid_good(2) [OF h] up \<open>G\<close>
    show "lib_up L \<and> io_fine w0 \<and> (\<exists>ct r. length ct = unat (kem_len_ct L) \<and> inbox w0 = hs_msg 2 ct @ r)"
      by blast
  qed
  have split: "client_session L = client_hello L # client_server_hello L # drop 2 (client_session L)"
    by (simp add: client_session_def)
  show ?thesis
  proof (subst split, rule client_step [OF client_hello_ok [OF lib up refl]],
      rule client_choose [OF client_server_hello_ok [OF lib pc g]])
    fix ct and s :: "'m client" and w
    assume Q: "length ct = unat (kem_len_ct L) \<and>
        client_shared L w0 (kem_decaps L ct (own_sk L w0)) ([?m] @ [hs_msg 2 ct]) (hs_msg 2 ct) ?m s w"
    then have "inbox w0 = hs_msg 2 ct @ inbox w" by (simp add: client_shared_def client_ready_def frame_def)
    from client_from_certificate_ok [OF lib pc G conjunct1 [OF Q] this refl]
    show "phase_ok (client_exit L sha256 w0) (\<lambda>s w. length ct = unat (kem_len_ct L) \<and>
        client_shared L w0 (kem_decaps L ct (own_sk L w0)) ([?m] @ [hs_msg 2 ct]) (hs_msg 2 ct) ?m s w)
      (run_phases (drop 2 (client_session L))) (client_succeeds L sha256 w0) G"
      by (simp add: phase_ok_def)
  qed
qed

lemma client_phases_ok:
  assumes lib: "library_correct L sha256" and pc: "peer_closed w0"
    and G: "G \<longrightarrow> (\<exists>h. client_served L sha256 w0 h)"
  shows "phase_ok (client_exit L sha256 w0) (\<lambda>s w. s = client_locals \<and> w = w0)
     (run_phases (client_setup L @ client_session L)) (client_succeeds L sha256 w0) G"
proof -
  have g: "G \<longrightarrow> lib_up L" using G by (auto simp: client_served_def)
  show ?thesis
    unfolding client_setup_def append_Cons append_Nil
    by (rule client_step [OF client_new_sig_ok [OF g]], rule client_step [OF client_alloc_sig_ok [OF g]],
        rule client_step [OF client_new_kem_ok [OF g]], rule client_step [OF client_keypair_ok [OF lib g]],
        rule client_step [OF client_connect_ok [OF g]],
        rule client_step [OF client_init_transcript_ok [OF g] client_session_ok [OF lib pc G]])
qed

subsection \<open>The program\<close>

lemma client_end_accepted:
  assumes "client_accepted L sha256 w0 h pt s w" and "s' = s\<lparr>cl_transcript := tr, cl_application_keys := ks\<rparr>"
  shows "client_accepted L sha256 w0 h pt s' (w\<lparr>live := lv\<rparr>)"
  using assms by (simp add: client_accepted_def client_got_def frame_def)

lemma client_main_ends:
  assumes lib: "library_correct L sha256" and pc: "peer_closed w"
    and G: "G \<longrightarrow> (\<exists>h. client_served L sha256 w h)"
  shows "\<exists>ret s' w'. client_main L w = Some (ret, s', w') \<and> live w' = live w \<and> pipe_to w w' \<and>
     cl_application_keys s' = zero_keys \<and>
     (ret = EXIT_FAILURE \<and> \<not> G \<or>
      ret = EXIT_SUCCESS \<and> (\<exists>h pt. client_accepted L sha256 w h pt s' w'))"
proof -
  have P: "client_locals = client_locals \<and> w = w" by simp
  from phase_okD [OF client_phases_ok [OF lib pc G] P]
  obtain ok s2 w2 where r: "run_phases (client_setup L @ client_session L) client_locals w = Some (ok, s2, w2)"
    "client_exit L sha256 w s2 w2" "ok \<Longrightarrow> cl_ret s2 = EXIT_SUCCESS" "G \<Longrightarrow> ok"
    by (rule endsE) (rule that, assumption, assumption, simp_all)
  from r(2) have res: "client_res w s2 w2" by (simp add: client_exit_def)
  obtain s3 where e: "client_end s2 w2 = Some (cl_ret s2, s3, w2\<lparr>live := live w\<rparr>)"
    "s3 = s2\<lparr>cl_transcript := cl_transcript s3, cl_application_keys := zero_keys\<rparr>"
    using client_end_ok [OF res] by blast
  have pp: "pipe_to w (w2\<lparr>live := live w\<rparr>)" using res by (auto simp: client_res_def frame_def)
  have m: "client_main L w = Some (cl_ret s2, s3, w2\<lparr>live := live w\<rparr>)"
    using r(1) e(1) by (simp add: client_main_def)
  have z: "cl_application_keys s3 = zero_keys" by (subst e(2)) simp
  from r(2) consider "cl_ret s2 = EXIT_FAILURE"
    | h pt where "cl_ret s2 = EXIT_SUCCESS" "client_accepted L sha256 w h pt s2 w2"
    by (auto simp: client_exit_def)
  then show ?thesis
  proof cases
    case 1
    with r(3,4) have "\<not> G" by auto
    with 1 m z pp show ?thesis by simp
  next
    case 2
    have "\<exists>h pt. client_accepted L sha256 w h pt s3 (w2\<lparr>live := live w\<rparr>)"
      using client_end_accepted [OF 2(2) e(2), of "live w"] by blast
    with 2(1) m z pp show ?thesis by simp
  qed
qed

text \<open>An input determines the handshake and the text a client can have accepted on it.\<close>

lemma client_accepted_unique:
  assumes lib: "library_correct L sha256" and A: "client_accepted L sha256 w g pt s' w'"
    and h: "h = client_view L (rng w) (hv_ct h) (hv_cert h) (hv_sig h)" and v: "client_valid L sha256 h"
    and msg: "0 < length msg" "length msg \<le> 1023" and inb: "inbox w = server_stream L sha256 h msg @ r"
  shows "g = h \<and> pt = msg \<and> inbox w' = r"
proof -
  from A have a: "g = client_view L (rng w) (hv_ct g) (hv_cert g) (hv_sig g)" "client_valid L sha256 g"
    "0 < length pt" "length pt \<le> 1024" "inbox w = server_stream L sha256 g pt @ inbox w'"
    by (simp_all add: client_accepted_def client_got_def frame_def)
  have le: "length (hv_ct k) \<le> 0xFFFFFF" "length (hv_cert k) \<le> 0xFFFFFF" "length (hv_sig k) \<le> 0xFFFFFF"
    if "client_valid L sha256 k" for k
    using client_valid_hs [OF lib that] by simp_all
  have gh: "hv_ct g = hv_ct h \<Longrightarrow> hv_cert g = hv_cert h \<Longrightarrow> hv_sig g = hv_sig h \<Longrightarrow> g = h"
    by (subst a(1), subst h) simp
  have m: "length msg \<le> 1024" using msg(2) by simp
  from server_stream_cancel [OF lib le [OF a(2)] le [OF v] gh a(3,4) msg(1) m a(5) [unfolded inb, symmetric]]
  show ?thesis by blast
qed

subsection \<open>A concrete run\<close>

definition example_offer :: handshake where
  "example_offer = client_view sample_lib 0 [4, 5] [1, 2, 3]
     (sig_sign sample_lib 1 (signed_hash (pad 32) (client_view sample_lib 0 [4, 5] [1, 2, 3] [])) [])"

definition client_world :: world where
  "client_world = sample_world (server_stream sample_lib (pad 32) example_offer [72, 105])"

lemma client_world_sel [simp]:
  "peer_closed client_world" "io_fine client_world" "rng client_world = 0" "outbox client_world = []"
  "inbox client_world = server_stream sample_lib (pad 32) example_offer [72, 105]"
  using sample_world_fine by (simp_all add: client_world_def sample_world_def)

lemma example_offer_view:
  "example_offer = client_view sample_lib (rng client_world) (hv_ct example_offer) (hv_cert example_offer) (hv_sig example_offer)"
  by (simp add: example_offer_def)

lemma signed_hash_view:
  "signed_hash sha256 (client_view L n ct cert sg) =
     sha256 (concat [hs_msg 1 (fst (kem_keypair L n)), hs_msg 2 ct, hs_msg 11 cert])"
  by (simp add: signed_hash_def hello_log_def)

lemma example_offer_valid: "client_valid sample_lib (pad 32) example_offer"
  unfolding example_offer_def client_valid_def good_sig_def signed_hash_view by simp

lemma client_world_served: "client_served sample_lib (pad 32) client_world example_offer"
  unfolding client_served_def using sample_lib_up example_offer_view example_offer_valid
  by (intro conjI exI [of _ "[72, 105]"] exI [of _ "[]"]) simp_all

subsection \<open>Properties\<close>

text \<open>C6: the client process always ends, whatever the server sends, whichever library calls fail and
  however transfers are cut (the server eventually closes), in one of two ways. Either \<open>SIGPIPE\<close>
  kills it in a \<open>send\<close>, with no exit code and no cleanup: only under the default disposition,
  which the program leaves as it is, and only if the server breaks the connection while it writes.
  Or it exits with one of its two codes; then every socket, file, context, key buffer and OQS
  object it acquired has been freed exactly once, and the variable \<open>application_keys\<close> is wiped
  (not the copies of the keys in \<open>send_state\<close> and \<open>recv_state\<close>).\<close>

theorem client_main_terminates:
  assumes "library_correct L sha256" and "peer_closed w"
  shows "\<exists>out. client_process L sigpipe_default w = Some out \<and>
     (out = Killed_SIGPIPE \<and> sigpipe_default \<and> (\<exists>k. io_sched w k = Io_pipe) \<or>
      (\<exists>ret s' w'. out = Exited ret s' w' \<and> (ret = EXIT_SUCCESS \<or> ret = EXIT_FAILURE) \<and>
         live w' = live w \<and> cl_application_keys s' = zero_keys))"
proof -
  obtain ret s' w' where m: "client_main L w = Some (ret, s', w')" "live w' = live w" "pipe_to w w'"
    "cl_application_keys s' = zero_keys" "ret = EXIT_SUCCESS \<or> ret = EXIT_FAILURE"
    using client_main_ends [OF assms, of False] by blast
  then have "client_process L sigpipe_default w = Some (process_outcome sigpipe_default w (ret, s', w'))"
    by (simp add: client_process_def)
  with m(2-5) show ?thesis by (auto simp: process_outcome_def pipe_to_def)
qed

theorem client_main_terminates_witness:
  "\<exists>out. client_process (failing_lib 9) True
       ((sample_world [2, 0])\<lparr>io_sched := \<lambda>k. if k < 3 then Xfer 4 else Io_pipe\<rparr>) = Some out \<and>
     (out = Killed_SIGPIPE \<or>
      (\<exists>ret s' w'. out = Exited ret s' w' \<and> (ret = EXIT_SUCCESS \<or> ret = EXIT_FAILURE) \<and>
         live w' = live (sample_world [2, 0]) \<and> cl_application_keys s' = zero_keys))"
proof -
  let ?w = "(sample_world [2, 0])\<lparr>io_sched := \<lambda>k. if k < 3 then Xfer 4 else Io_pipe\<rparr>"
  have "peer_closed ?w" by simp
  from client_main_terminates [OF failing_library_correct [of 9] this, where sigpipe_default = True] show ?thesis by auto
qed

text \<open>C7: the client reports success only after a complete, authenticated session: what it read is
  exactly a server's stream for a handshake in which it took part with its own key pair, the
  signature in it verifies under the certificate in it for the hash of the first three messages,
  the Server Finished is the MAC of this very transcript under the decapsulated secret, and one
  record was sealed with the server's key; what it wrote is exactly its own stream for that
  handshake, and both record states have advanced by one.\<close>

theorem client_main_accepts_only:
  assumes "library_correct L sha256" and "peer_closed w"
    and "client_main L w = Some (EXIT_SUCCESS, s', w')"
  shows "\<exists>h pt. client_accepted L sha256 w h pt s' w'"
  using client_main_ends [OF assms(1,2), of False] assms(3) by auto

theorem client_main_accepts_only_witness:
  "\<exists>s' w' h pt. client_main sample_lib client_world = Some (EXIT_SUCCESS, s', w') \<and>
     client_accepted sample_lib (pad 32) client_world h pt s' w'"
proof -
  have "True \<longrightarrow> (\<exists>h. client_served sample_lib (pad 32) client_world h)" using client_world_served by blast
  from client_main_ends [OF sample_library_correct client_world_sel(1) this]
  obtain s' w' where "client_main sample_lib client_world = Some (EXIT_SUCCESS, s', w')" by auto
  with client_main_accepts_only [OF sample_library_correct client_world_sel(1) this] show ?thesis by blast
qed

text \<open>C9: an honest server satisfies the client, whatever its certificate: when no call fails and the
  input starts with a server's stream for the client's key, signed under the certificate it
  carries, the client succeeds, consumes exactly that stream, has the server's text
  NUL-terminated in its buffer, and has written its complete stream.\<close>

theorem client_main_completes_honest:
  assumes lib: "library_correct L sha256" and pc: "peer_closed w" and up: "lib_up L" "io_fine w"
    and h: "h = client_view L (rng w) (hv_ct h) (hv_cert h) (hv_sig h)" and v: "client_valid L sha256 h"
    and msg: "0 < length msg" "length msg \<le> 1023"
    and inb: "inbox w = server_stream L sha256 h msg @ r"
  shows "\<exists>s' w'. client_main L w = Some (EXIT_SUCCESS, s', w') \<and> inbox w' = r \<and>
     outbox w' = outbox w @ client_stream L sha256 h client_message \<and>
     take (length msg + 1) (cl_plaintext s') = msg @ [0]"
proof -
  have "True \<longrightarrow> (\<exists>h. client_served L sha256 w h)"
    using up h v msg inb unfolding client_served_def by blast
  from client_main_ends [OF lib pc this] obtain s' w' g pt where m:
    "client_main L w = Some (EXIT_SUCCESS, s', w')" "client_accepted L sha256 w g pt s' w'" by auto
  from client_accepted_unique [OF lib m(2) h v msg inb] have e: "g = h" "pt = msg" "inbox w' = r" by simp_all
  with m show ?thesis by (auto simp: client_accepted_def frame_def client_got_def)
qed

theorem client_main_completes_honest_witness:
  "\<exists>s' w'. client_main sample_lib client_world = Some (EXIT_SUCCESS, s', w') \<and> inbox w' = [] \<and>
     outbox w' = client_stream sample_lib (pad 32) example_offer client_message \<and>
     take (length [72, 105 :: byte] + 1) (cl_plaintext s') = [72, 105, 0]"
  using client_main_completes_honest [OF sample_library_correct client_world_sel(1) sample_lib_up client_world_sel(2)
      example_offer_view example_offer_valid, of "[72, 105]" "[]"]
  by simp

end
