(* ===== verification/Agreement.thy ===== *)
theory Agreement
  imports Server_Run Client_Run
begin

section \<open>The two programs against each other\<close>

text \<open>
  What a run of the client and a run of the server know of each other. The streams of both are
  functions of one \<^typ>\<open>handshake\<close>, and each function is injective: so a client and a server joined
  by a faithful channel have the same handshake (and the same keys, by the law of the KEM), and
  where the channel is not faithful the Finished values and the signature tell, unless
  a hash, HMAC or HKDF collides. The laws of the KEM and of the signature scheme are hypotheses.
\<close>

definition kem_correct :: "('c, 'm) lib \<Rightarrow> bool" where
  "kem_correct L \<longleftrightarrow> (\<forall>n m. kem_decaps L (fst (kem_encaps L n (fst (kem_keypair L m)))) (snd (kem_keypair L m)) =
     snd (kem_encaps L n (fst (kem_keypair L m))))"

definition sig_correct :: "('c, 'm) lib \<Rightarrow> bytes \<Rightarrow> bytes \<Rightarrow> bool" where
  "sig_correct L sk cert \<longleftrightarrow> (\<forall>n m. sig_verify L m (sig_sign L n m sk) cert)"

lemma sample_kem_correct: "kem_correct sample_lib"
  by (simp add: kem_correct_def pad_def)

lemma sample_sig_correct: "sig_correct sample_lib sk cert"
  by (simp add: sig_correct_def)

subsection \<open>One handshake, two views\<close>

definition fits :: "handshake \<Rightarrow> bool" where
  "fits h \<longleftrightarrow> length (hv_pk h) \<le> 0xFFFFFF \<and> length (hv_ct h) \<le> 0xFFFFFF \<and>
     length (hv_cert h) \<le> 0xFFFFFF \<and> length (hv_sig h) \<le> 0xFFFFFF"

lemma client_fits:
  assumes "library_correct L sha256" and "client_accepted L sha256 w h pt s w'"
  shows "fits h"
proof -
  from assms(2) have v: "client_valid L sha256 h" and h: "h = client_view L (rng w) (hv_ct h) (hv_cert h) (hv_sig h)"
    by (simp_all add: client_accepted_def)
  have "length (hv_pk h) \<le> 0xFFFFFF"
    using oqs_correctD(1,6) [OF library_correctD(5) [OF assms(1)]] by (subst h) simp
  then show ?thesis using client_valid_hs [OF assms(1) v] by (simp add: fits_def)
qed

lemma server_fits:
  assumes "library_correct L sha256" and "server_accepted L sha256 w sk cert pk pt s w'"
  shows "fits (server_view_of L sha256 w sk cert pk)"
proof -
  note oqs = oqs_correctD [OF library_correctD(5) [OF assms(1)]]
  from assms(2) have "length pk = unat (kem_len_pk L)" "length cert = unat (sig_len_pk L)"
    by (auto simp: server_accepted_def Let_def key_file_def split: if_splits option.splits)
  then show ?thesis
    using oqs(1-4,8) order_trans [OF oqs(12) oqs(4)] by (simp add: fits_def server_view_sig)
qed

text \<open>With the law of the KEM the client's view of what a server answered it is the server's.\<close>

lemma views_agree:
  assumes "kem_correct L"
  shows "client_view L m (fst (kem_encaps L n (fst (kem_keypair L m)))) cert
       (hv_sig (server_view L sha256 n sk cert (fst (kem_keypair L m)))) =
     server_view L sha256 n sk cert (fst (kem_keypair L m))"
  using assms by (simp add: client_view_def server_view_def kem_correct_def Let_def split: prod.splits)

lemma views_eq:
  assumes kem: "kem_correct L" and g: "g = server_view L sha256 n sk cert pk"
    and h: "h = client_view L m (hv_ct h) (hv_cert h) (hv_sig h)"
    and e: "hv_pk h = hv_pk g" "hv_ct h = hv_ct g" "hv_cert h = hv_cert g"
  shows "hv_ss h = hv_ss g" and "hv_sig h = hv_sig g \<Longrightarrow> h = g"
proof -
  have "hv_pk h = fst (kem_keypair L m)" by (subst h) simp
  with e(1) g have pk: "pk = fst (kem_keypair L m)" by simp
  have "hv_ss h = kem_decaps L (hv_ct h) (snd (kem_keypair L m))" by (subst h) simp
  also have "\<dots> = hv_ss g" using kem by (simp add: e(2) g pk kem_correct_def)
  finally show "hv_ss h = hv_ss g" .
  then show "h = g" if "hv_sig h = hv_sig g" using e that by (intro handshake.equality) simp_all
qed

text \<open>Equal transcripts are transcripts of equal messages.\<close>

lemma hello_log_map:
  "hello_log h = map (\<lambda>(t, b). hs_msg t b) [(1, hv_pk h), (2, hv_ct h), (11, hv_cert h)]"
  by (simp add: hello_log_def)

lemma hello_log_inj:
  assumes "fits g" and "fits h" and "concat (hello_log g) = concat (hello_log h)"
  shows "hv_pk g = hv_pk h" "hv_ct g = hv_ct h" "hv_cert g = hv_cert h"
  using hs.concat_inj [OF _ _ assms(3) [unfolded hello_log_map]] assms(1,2) by (simp_all add: fits_def)

lemma full_log_inj:
  assumes lib: "library_correct L sha256" and "fits g" and "fits h"
    and eq: "concat (hello_log g @ [cv_msg g, sf_msg L sha256 g]) = concat (hello_log h @ [cv_msg h, sf_msg L sha256 h])"
  shows "hv_pk g = hv_pk h" "hv_ct g = hv_ct h" "hv_cert g = hv_cert h" "hv_sig g = hv_sig h"
proof -
  have m: "hello_log k @ [cv_msg k, sf_msg L sha256 k] = map (\<lambda>(t, b). hs_msg t b)
      [(1, hv_pk k), (2, hv_ct k), (11, hv_cert k), (15, hv_sig k), (20, server_fin L sha256 k)]" for k
    by (simp add: hello_log_def cv_msg_def sf_msg_def)
  show "hv_pk g = hv_pk h" "hv_ct g = hv_ct h" "hv_cert g = hv_cert h" "hv_sig g = hv_sig h"
    using hs.concat_inj [OF _ _ eq [unfolded m]] assms(2,3) length_fin(1) [OF lib] by (simp_all add: fits_def)
qed

text \<open>What the two endpoints can be compared on when they do not have the same handshake: a
  collision of HKDF or HMAC on the Finished values, or of SHA-256 on the logs.\<close>

definition finished_collision ::
  "('c, 'm) lib \<Rightarrow> (bytes \<Rightarrow> bytes) \<Rightarrow> handshake \<Rightarrow> handshake \<Rightarrow> bool" where
  "finished_collision L sha256 g h \<longleftrightarrow>
     (let ps = (\<lambda>k. finished_params (hv_ss k) TLS_CLIENT_FINISHED_LABEL);
          log = (\<lambda>k. concat (hello_log k @ [cv_msg k, sf_msg L sha256 k]))
      in collision (\<lambda>p. kdf_derive L p 32) (ps g) (ps h) \<or>
         collision (\<lambda>(k, d). hmac_sha256 L k d) (kdf_derive L (ps g) 32, sha256 (log g))
           (kdf_derive L (ps h) 32, sha256 (log h)) \<or>
         collision sha256 (log g) (log h))"

lemma client_fin_binds:
  assumes lib: "library_correct L sha256" and "fits g" and "fits h"
    and "client_fin L sha256 g = client_fin L sha256 h"
  shows "g = h \<or> finished_collision L sha256 g h"
proof -
  have "hv_ss g = hv_ss h \<and> concat (hello_log g @ [cv_msg g, sf_msg L sha256 g]) = concat (hello_log h @ [cv_msg h, sf_msg L sha256 h])
      \<or> finished_collision L sha256 g h"
    using assms(4) unfolding client_fin_def finished_mac_def finished_collision_def Let_def
    by (auto simp: collision_def finished_params_def)
  then show ?thesis using full_log_inj [OF assms(1-3)] by (auto intro: handshake.equality)
qed

subsection \<open>Two runs\<close>

text \<open>Two programs whose runs are given, joined in the direction from the client to the server.\<close>

lemma joined_to_server:
  assumes lib: "library_correct L sha256"
    and c: "client_accepted L sha256 wc h pt sc wc'" and s: "server_accepted L sha256 ws sk cert pk pt' ss ws'"
    and g: "g = server_view_of L sha256 ws sk cert pk"
    and "outbox wc = []" and ch: "inbox ws = outbox wc'"
  shows "hv_pk h = hv_pk g" and "cf_msg L sha256 h @ client_record L sha256 h client_message =
      cf_msg L sha256 g @ client_record L sha256 g pt' @ inbox ws'"
proof -
  from c have o: "outbox wc' = client_stream L sha256 h client_message" using assms(5) by (simp add: client_accepted_def frame_def)
  from s g have i: "inbox ws = client_stream L sha256 g pt' @ inbox ws'"
    by (simp add: server_accepted_def Let_def frame_def)
  have v: "hs_valid (1, hv_pk h)" "hs_valid (1, hv_pk g)"
    using client_fits [OF lib c] server_fits [OF lib s] by (simp_all add: fits_def flip: g)
  have e: "hs_msg 1 (hv_pk h) @ cf_msg L sha256 h @ client_record L sha256 h client_message =
      hs_msg 1 (hv_pk g) @ cf_msg L sha256 g @ client_record L sha256 g pt' @ inbox ws'"
    using ch o i by (simp add: client_stream_def)
  from hs_cancel [OF v e] show "hv_pk h = hv_pk g" and "cf_msg L sha256 h @ client_record L sha256 h client_message =
      cf_msg L sha256 g @ client_record L sha256 g pt' @ inbox ws'" by blast+
qed

lemma joined_finished:
  assumes lib: "library_correct L sha256"
    and "cf_msg L sha256 h @ x = cf_msg L sha256 g @ y"
  shows "client_fin L sha256 h = client_fin L sha256 g" "x = y"
proof -
  have v: "hs_valid (20, client_fin L sha256 h)" "hs_valid (20, client_fin L sha256 g)"
    using length_fin(2) [OF lib] by simp_all
  from hs_cancel [OF v assms(2) [unfolded cf_msg_def msg_code.simps]]
  show "client_fin L sha256 h = client_fin L sha256 g" "x = y" by blast+
qed

lemma joined_record:
  assumes lib: "library_correct L sha256" and len: "0 < length q" "length q \<le> 1024"
    and "client_record L sha256 h client_message = client_record L sha256 h q @ r"
  shows "q = client_message" "r = []"
proof -
  have m: "0 < length client_message" "length client_message \<le> 1024" by (simp_all add: client_message_def)
  from record_bytes_cancel [OF library_correctD(4) [OF lib] conjunct1 [OF dir_ok [OF lib, of h]] m len, of "[]" r] assms(4)
  show "q = client_message" "r = []" by (simp_all add: client_record_def)
qed

text \<open>The honest run of both: each program finds the other's stream in its input.\<close>

lemma honest_runs:
  assumes lib: "library_correct L sha256" and kem: "kem_correct L" and sign: "sig_correct L sk cert" and up: "lib_up L"
    and wc: "peer_closed wc" "io_fine wc" "outbox wc = []"
    and ws: "peer_closed ws" "io_fine ws" "outbox ws = []"
    and keys: "key_file ws SECRET_KEY_FILE (unat (sig_len_sk L)) = Some sk"
      "key_file ws PUBLIC_KEY_FILE (unat (sig_len_pk L)) = Some cert"
    and h: "h = server_view L sha256 (rng ws) sk cert (fst (kem_keypair L (rng wc)))"
    and inb: "inbox wc = server_stream L sha256 h server_message" "inbox ws = client_stream L sha256 h client_message"
  shows "\<exists>sc wc' ss ws'. client_main L wc = Some (EXIT_SUCCESS, sc, wc') \<and> server_main L ws = Some (EXIT_SUCCESS, ss, ws') \<and>
     client_accepted L sha256 wc h server_message sc wc' \<and>
     server_accepted L sha256 ws sk cert (hv_pk h) client_message ss ws' \<and> inbox wc' = [] \<and> inbox ws' = []"
proof -
  note oqs = oqs_correctD [OF library_correctD(5) [OF lib]]
  have msgs: "0 < length client_message" "length client_message \<le> 1023" "0 < length server_message" "length server_message \<le> 1023"
    by (simp_all add: client_message_def server_message_def)
  have cert: "length cert = unat (sig_len_pk L)"
    using keys(2) by (auto simp: key_file_def split: if_splits option.splits)
  have v: "client_valid L sha256 h"
    unfolding client_valid_def good_sig_def using cert oqs(8,11,12) sign
    by (simp add: h sig_correct_def) (simp add: server_view_sig)
  have view: "h = client_view L (rng wc) (hv_ct h) (hv_cert h) (hv_sig h)"
    using views_agree [OF kem, of "rng wc" "rng ws" cert sha256 sk] by (simp add: h)
  have "client_served L sha256 wc h"
    unfolding client_served_def using up wc(2) v view msgs(3,4) inb(1) by (intro conjI exI [of _ server_message] exI [of _ "[]"]) simp_all
  then have "True \<longrightarrow> (\<exists>h. client_served L sha256 wc h)" by blast
  from client_main_ends [OF lib wc(1) this] obtain sc wc' h' pt where c:
    "client_main L wc = Some (EXIT_SUCCESS, sc, wc')" "client_accepted L sha256 wc h' pt sc wc'" by auto
  have "inbox wc = server_stream L sha256 h server_message @ []" using inb(1) by simp
  from client_accepted_unique [OF lib c(2) view v msgs(3,4) this] have hc: "h' = h" "pt = server_message" "inbox wc' = []"
    by simp_all
  have "server_honest L sha256 ws sk cert"
    unfolding server_honest_def using up ws(2) msgs(1,2) inb(2) oqs(6)
    by (intro conjI exI [of _ "fst (kem_keypair L (rng wc))"] exI [of _ client_message] exI [of _ "[]"]) (simp_all add: h)
  then have "True \<longrightarrow> (\<exists>sk cert. server_serves L sha256 ws sk cert)" using keys by (auto simp: server_serves_def)
  from server_main_ends [OF lib ws(1) this] obtain ss ws' sk' cert' pk pt' where s:
    "server_main L ws = Some (EXIT_SUCCESS, ss, ws')" "server_accepted L sha256 ws sk' cert' pk pt' ss ws'" by auto
  have "inbox ws = client_stream L sha256 h client_message @ []" using inb(2) by simp
  from server_accepted_unique [OF lib s(2) keys h _ msgs(1,2) this] oqs(6)
  have "sk' = sk" "cert' = cert" "pk = hv_pk h" "pt' = client_message" "inbox ws' = []" by (simp_all add: h)
  with c s hc show ?thesis by blast
qed

lemma accepted_dirs:
  assumes "client_accepted L sha256 wc h pt sc wc'" and "server_accepted L sha256 ws sk cert pk pt' ss ws'"
    and "h = server_view_of L sha256 ws sk cert pk"
  shows "cl_send_state sc = sv_recv_state ss" "cl_recv_state sc = sv_send_state ss"
    "rs_key (cl_send_state sc) = client_key (session_keys L sha256 h)"
    "rs_key (cl_recv_state sc) = server_key (session_keys L sha256 h)"
  using assms by (simp_all add: client_accepted_def server_accepted_def Let_def client_dir_def server_dir_def
      next_seq_def record_start_def)

subsection \<open>A concrete pair of runs\<close>

definition pair_view :: handshake where
  "pair_view = server_view sample_lib (pad 32) 0 [7, 8, 9] [1, 2, 3] [1, 0]"

definition pair_client :: world where
  "pair_client = sample_world (server_stream sample_lib (pad 32) pair_view server_message)"

definition pair_server :: world where
  "pair_server = (sample_world (client_stream sample_lib (pad 32) pair_view client_message))
     \<lparr>files := [SECRET_KEY_FILE \<mapsto> [7, 8, 9], PUBLIC_KEY_FILE \<mapsto> [1, 2, 3]]\<rparr>"

lemma pair_sel [simp]:
  "peer_closed pair_client" "io_fine pair_client" "rng pair_client = 0" "outbox pair_client = []"
  "inbox pair_client = server_stream sample_lib (pad 32) pair_view server_message"
  "peer_closed pair_server" "io_fine pair_server" "rng pair_server = 0" "outbox pair_server = []"
  "inbox pair_server = client_stream sample_lib (pad 32) pair_view client_message"
  "key_file pair_server SECRET_KEY_FILE 3 = Some [7, 8, 9]"
  "key_file pair_server PUBLIC_KEY_FILE 3 = Some [1, 2, 3]"
  using sample_world_fine
  by (simp_all add: pair_client_def pair_server_def io_fine_def sample_world_def key_file_def)

lemma pair_view_keys: "pair_view = server_view sample_lib (pad 32) (rng pair_server) [7, 8, 9] [1, 2, 3]
    (fst (kem_keypair sample_lib (rng pair_client)))"
  by (simp add: pair_view_def)

lemma pair_runs:
  obtains sc wc' ss ws' where "client_main sample_lib pair_client = Some (EXIT_SUCCESS, sc, wc')"
    "server_main sample_lib pair_server = Some (EXIT_SUCCESS, ss, ws')"
    "outbox wc' = inbox pair_server" "outbox ws' = inbox pair_client"
proof -
  have "key_file pair_server SECRET_KEY_FILE (unat (sig_len_sk sample_lib)) = Some [7, 8, 9]"
    "key_file pair_server PUBLIC_KEY_FILE (unat (sig_len_pk sample_lib)) = Some [1, 2, 3]" by simp_all
  from honest_runs [OF sample_library_correct sample_kem_correct sample_sig_correct sample_lib_up pair_sel(1,2,4,6,7,9)
      this pair_view_keys pair_sel(5,10)]
  show thesis
    by (elim exE conjE, intro that) (auto simp: client_accepted_def server_accepted_def Let_def frame_def pair_view_def)
qed

subsection \<open>Properties\<close>

text \<open>C1: an honest client and an honest server, each reading what the other writes, complete a
  session when no call fails: both succeed, each output is the other's whole input, both messages
  arrive, and the sending record state of either side is the receiving one of the other.\<close>

theorem honest_session:
  assumes "library_correct L sha256" and "kem_correct L" and "sig_correct L sk cert" and "lib_up L"
    and "peer_closed wc" "io_fine wc" "outbox wc = []"
    and "peer_closed ws" "io_fine ws" "outbox ws = []"
    and "key_file ws SECRET_KEY_FILE (unat (sig_len_sk L)) = Some sk"
      "key_file ws PUBLIC_KEY_FILE (unat (sig_len_pk L)) = Some cert"
    and h: "h = server_view L sha256 (rng ws) sk cert (fst (kem_keypair L (rng wc)))"
    and "inbox wc = server_stream L sha256 h server_message" "inbox ws = client_stream L sha256 h client_message"
  shows "\<exists>sc wc' ss ws'. client_main L wc = Some (EXIT_SUCCESS, sc, wc') \<and>
     server_main L ws = Some (EXIT_SUCCESS, ss, ws') \<and>
     outbox wc' = inbox ws \<and> outbox ws' = inbox wc \<and> inbox wc' = [] \<and> inbox ws' = [] \<and>
     take (length server_message + 1) (cl_plaintext sc) = server_message @ [0] \<and>
     take (length client_message + 1) (sv_plaintext ss) = client_message @ [0] \<and>
     cl_send_state sc = sv_recv_state ss \<and> cl_recv_state sc = sv_send_state ss"
proof -
  obtain sc wc' ss ws' where r: "client_main L wc = Some (EXIT_SUCCESS, sc, wc')" "server_main L ws = Some (EXIT_SUCCESS, ss, ws')"
    and c: "client_accepted L sha256 wc h server_message sc wc'"
    and s: "server_accepted L sha256 ws sk cert (hv_pk h) client_message ss ws'" and i: "inbox wc' = []" "inbox ws' = []"
    using honest_runs [OF assms] by blast
  have view: "h = server_view_of L sha256 ws sk cert (hv_pk h)" by (simp add: h)
  have "outbox wc' = inbox ws" "outbox ws' = inbox wc"
    using c s view assms(7,10,14,15) by (simp_all add: client_accepted_def server_accepted_def Let_def frame_def)
  moreover have "take (length server_message + 1) (cl_plaintext sc) = server_message @ [0]"
    "take (length client_message + 1) (sv_plaintext ss) = client_message @ [0]"
    using c s by (simp_all add: client_accepted_def client_got_def server_accepted_def server_got_def Let_def)
  ultimately show ?thesis using r i accepted_dirs(1,2) [OF c s view] by blast
qed

theorem honest_session_witness:
  "\<exists>sc wc' ss ws'. client_main sample_lib pair_client = Some (EXIT_SUCCESS, sc, wc') \<and>
     server_main sample_lib pair_server = Some (EXIT_SUCCESS, ss, ws') \<and>
     outbox wc' = inbox pair_server \<and> outbox ws' = inbox pair_client \<and> inbox wc' = [] \<and> inbox ws' = [] \<and>
     take (length server_message + 1) (cl_plaintext sc) = server_message @ [0] \<and>
     take (length client_message + 1) (sv_plaintext ss) = client_message @ [0] \<and>
     cl_send_state sc = sv_recv_state ss \<and> cl_recv_state sc = sv_send_state ss"
  by (rule honest_session [OF sample_library_correct sample_kem_correct sample_sig_correct sample_lib_up pair_sel(1,2,4,6,7,9)
      _ _ pair_view_keys pair_sel(5,10)]) simp_all

text \<open>C2: two successful runs joined by a faithful channel agree: a client and a server that each
  read what the other wrote took part in the same handshake, so they hold the same session keys,
  and each has received the other's message.\<close>

theorem connected_runs_agree:
  assumes lib: "library_correct L sha256" and kem: "kem_correct L"
    and "peer_closed wc" "peer_closed ws" and "outbox wc = []" "outbox ws = []"
    and "client_main L wc = Some (EXIT_SUCCESS, sc, wc')" and "server_main L ws = Some (EXIT_SUCCESS, ss, ws')"
    and "inbox ws = outbox wc'" and "inbox wc = outbox ws'"
  shows "\<exists>h sk cert pk. h = server_view L sha256 (rng ws) sk cert pk \<and>
     client_accepted L sha256 wc h server_message sc wc' \<and>
     server_accepted L sha256 ws sk cert pk client_message ss ws' \<and>
     cl_send_state sc = sv_recv_state ss \<and> cl_recv_state sc = sv_send_state ss"
proof -
  from client_main_ends [OF lib assms(3), of False] assms(7) obtain h pt where c: "client_accepted L sha256 wc h pt sc wc'"
    by auto
  from server_main_ends [OF lib assms(4), of False] assms(8) obtain sk cert pk pt' where
    s: "server_accepted L sha256 ws sk cert pk pt' ss ws'" by auto
  define g where "g = server_view_of L sha256 ws sk cert pk"
  from joined_to_server [OF lib c s g_def assms(5,9)] have pk: "hv_pk h = hv_pk g" and
    tail: "cf_msg L sha256 h @ client_record L sha256 h client_message =
      cf_msg L sha256 g @ client_record L sha256 g pt' @ inbox ws'" .
  have fits: "fits h" "fits g" using client_fits [OF lib c] server_fits [OF lib s] by (simp_all flip: g_def)
  have p: "0 < length pt" "length pt \<le> 1024" "0 < length pt'" "length pt' \<le> 1024"
    using c s by (simp_all add: client_accepted_def client_got_def server_accepted_def server_got_def Let_def)
  have m: "0 < length server_message" "length server_message \<le> 1024" by (simp_all add: server_message_def)
  have hview: "h = client_view L (rng wc) (hv_ct h) (hv_cert h) (hv_sig h)" using c by (simp add: client_accepted_def)
  have same: "h = g" if "hv_ct h = hv_ct g" "hv_cert h = hv_cert g" "hv_sig h = hv_sig g"
    by (rule views_eq(2) [OF kem g_def hview pk that])
  have "server_stream L sha256 h pt @ inbox wc' = server_stream L sha256 g server_message @ []"
    using c s assms(6,10) by (simp add: client_accepted_def server_accepted_def Let_def frame_def flip: g_def)
  from server_stream_cancel [OF lib _ _ _ _ _ _ same p(1,2) m this] fits [unfolded fits_def]
  have hg: "h = g" "pt = server_message" by blast+
  have "pt' = client_message" by (rule joined_record(1) [OF lib p(3,4) joined_finished(2) [OF lib tail [unfolded hg(1)]]])
  with s have s': "server_accepted L sha256 ws sk cert pk client_message ss ws'" by simp
  have c': "client_accepted L sha256 wc h server_message sc wc'" using c unfolding hg(2) .
  have v: "h = server_view_of L sha256 ws sk cert pk" using hg(1) unfolding g_def .
  show ?thesis
    by (rule exI [of _ h], rule exI [of _ sk], rule exI [of _ cert], rule exI [of _ pk])
      (intro conjI v c' s' accepted_dirs(1,2) [OF c s v])
qed

theorem connected_runs_agree_witness:
  "\<exists>sc wc' ss ws' h sk cert pk. h = server_view sample_lib (pad 32) (rng pair_server) sk cert pk \<and>
     client_accepted sample_lib (pad 32) pair_client h server_message sc wc' \<and>
     server_accepted sample_lib (pad 32) pair_server sk cert pk client_message ss ws' \<and>
     cl_send_state sc = sv_recv_state ss \<and> cl_recv_state sc = sv_send_state ss"
proof (rule pair_runs)
  fix sc wc' ss ws'
  assume r: "client_main sample_lib pair_client = Some (EXIT_SUCCESS, sc, wc')"
    "server_main sample_lib pair_server = Some (EXIT_SUCCESS, ss, ws')"
    "outbox wc' = inbox pair_server" "outbox ws' = inbox pair_client"
  from connected_runs_agree [OF sample_library_correct sample_kem_correct pair_sel(1,6,4,9) r(1,2) r(3,4) [symmetric]]
  show ?thesis by blast
qed

text \<open>C3: key confirmation against an active attacker: whatever was done to the bytes on their way to
  the client, when both programs succeed and the server reads what the client wrote, they have
  the same handshake (key, ciphertext, secret, certificate, signature) and the client's message
  has arrived, or else their Finished values are a collision of HKDF, HMAC or SHA-256.\<close>

theorem tampering_detected:
  assumes lib: "library_correct L sha256"
    and "peer_closed wc" "peer_closed ws" and "outbox wc = []"
    and "client_main L wc = Some (EXIT_SUCCESS, sc, wc')" and "server_main L ws = Some (EXIT_SUCCESS, ss, ws')"
    and "inbox ws = outbox wc'"
  shows "\<exists>h g pt pt' sk cert pk. g = server_view L sha256 (rng ws) sk cert pk \<and>
     client_accepted L sha256 wc h pt sc wc' \<and> server_accepted L sha256 ws sk cert pk pt' ss ws' \<and>
     (h = g \<and> pt' = client_message \<and> cl_send_state sc = sv_recv_state ss \<and> cl_recv_state sc = sv_send_state ss \<or>
      finished_collision L sha256 h g)"
proof -
  from client_main_ends [OF lib assms(2), of False] assms(5) obtain h pt where c: "client_accepted L sha256 wc h pt sc wc'"
    by auto
  from server_main_ends [OF lib assms(3), of False] assms(6) obtain sk cert pk pt' where
    s: "server_accepted L sha256 ws sk cert pk pt' ss ws'" by auto
  define g where "g = server_view_of L sha256 ws sk cert pk"
  note tail = joined_to_server(2) [OF lib c s g_def assms(4,7)]
  have fits: "fits h" "fits g" using client_fits [OF lib c] server_fits [OF lib s] by (simp_all flip: g_def)
  have p: "0 < length pt'" "length pt' \<le> 1024" using s by (simp_all add: server_accepted_def server_got_def Let_def)
  have "pt' = client_message \<and> cl_send_state sc = sv_recv_state ss \<and> cl_recv_state sc = sv_send_state ss" if "h = g"
    using joined_record(1) [OF lib p joined_finished(2) [OF lib tail [unfolded that]]] accepted_dirs(1,2) [OF c s] that g_def
    by simp
  with client_fin_binds [OF lib fits joined_finished(1) [OF lib tail]]
  have "h = g \<and> pt' = client_message \<and> cl_send_state sc = sv_recv_state ss \<and> cl_recv_state sc = sv_send_state ss \<or>
      finished_collision L sha256 h g" by blast
  with c s show ?thesis
    by (intro exI [of _ h] exI [of _ g] exI [of _ pt] exI [of _ pt'] exI [of _ sk] exI [of _ cert] exI [of _ pk] conjI g_def)
qed

theorem tampering_detected_witness:
  "\<exists>sc wc' ss ws' h g pt pt' sk cert pk. g = server_view sample_lib (pad 32) (rng pair_server) sk cert pk \<and>
     client_accepted sample_lib (pad 32) pair_client h pt sc wc' \<and> server_accepted sample_lib (pad 32) pair_server sk cert pk pt' ss ws' \<and>
     (h = g \<and> pt' = client_message \<and> cl_send_state sc = sv_recv_state ss \<and> cl_recv_state sc = sv_send_state ss \<or>
      finished_collision sample_lib (pad 32) h g)"
proof (rule pair_runs)
  fix sc wc' ss ws'
  assume r: "client_main sample_lib pair_client = Some (EXIT_SUCCESS, sc, wc')"
    "server_main sample_lib pair_server = Some (EXIT_SUCCESS, ss, ws')" "outbox wc' = inbox pair_server"
  from tampering_detected [OF sample_library_correct pair_sel(1,6,4) r(1,2) r(3) [symmetric]]
  show ?thesis by blast
qed

text \<open>C4: what the signature is good for: when the client succeeds, the hash its accepted signature
  covers fixes the exchange; whenever a server with any key file has signed that same hash, client and
  server have the same public key, ciphertext, certificate and shared secret, or SHA-256 collides.\<close>

theorem signature_fixes_exchange:
  assumes lib: "library_correct L sha256" and kem: "kem_correct L" and "peer_closed wc"
    and "client_main L wc = Some (EXIT_SUCCESS, sc, wc')"
  shows "\<exists>h pt. client_accepted L sha256 wc h pt sc wc' \<and>
     sig_verify L (signed_hash sha256 h) (hv_sig h) (hv_cert h) \<and>
     (\<forall>n sk cert pk g. g = server_view L sha256 n sk cert pk \<longrightarrow> fits g \<longrightarrow> signed_hash sha256 g = signed_hash sha256 h \<longrightarrow>
        hv_pk h = hv_pk g \<and> hv_ct h = hv_ct g \<and> hv_cert h = hv_cert g \<and> hv_ss h = hv_ss g \<or>
        collision sha256 (concat (hello_log h)) (concat (hello_log g)))"
proof -
  from client_main_ends [OF lib assms(3), of False] assms(4) obtain h pt where c: "client_accepted L sha256 wc h pt sc wc'"
    by auto
  then have h: "h = client_view L (rng wc) (hv_ct h) (hv_cert h) (hv_sig h)"
    "sig_verify L (signed_hash sha256 h) (hv_sig h) (hv_cert h)"
    by (simp_all add: client_accepted_def client_valid_def good_sig_def)
  have "hv_pk h = hv_pk g \<and> hv_ct h = hv_ct g \<and> hv_cert h = hv_cert g \<and> hv_ss h = hv_ss g \<or>
      collision sha256 (concat (hello_log h)) (concat (hello_log g))"
    if g: "g = server_view L sha256 n sk cert pk" "fits g" "signed_hash sha256 g = signed_hash sha256 h" for n sk cert pk g
  proof (cases "concat (hello_log h) = concat (hello_log g)")
    case True
    note e = hello_log_inj [OF client_fits [OF lib c] g(2) True]
    with views_eq(1) [OF kem g(1) h(1) e] show ?thesis by blast
  next
    case False
    with g(3) show ?thesis by (simp add: collision_def signed_hash_def)
  qed
  with c h(2) show ?thesis by blast
qed

theorem signature_fixes_exchange_witness:
  "\<exists>sc wc' h pt. client_accepted sample_lib (pad 32) pair_client h pt sc wc' \<and>
     sig_verify sample_lib (signed_hash (pad 32) h) (hv_sig h) (hv_cert h)"
proof (rule pair_runs)
  fix sc wc' ss ws'
  assume r: "client_main sample_lib pair_client = Some (EXIT_SUCCESS, sc, wc')"
  from signature_fixes_exchange [OF sample_library_correct sample_kem_correct pair_sel(1) r]
  show ?thesis by blast
qed

end
