(* ===== verification/Dsa_Keygen.thy ===== *)
theory Dsa_Keygen
  imports Endpoint
begin

section \<open>The key generator (\<open>tools/generate_dsa_keypair.c\<close>)\<close>

text \<open>
  \<open>main\<close> as phases that may \<open>goto end\<close>, like the endpoint programs. Writing a file is modelled
  with its three steps: \<open>fopen\<close> in mode \<open>wb\<close> creates or empties the file, \<open>fwrite\<close> puts bytes into
  the stream's buffer and returns how many, \<open>fclose\<close> flushes the buffer (when that fails a part may
  have been written) and closes the stream in any case. The program ignores what \<open>fclose\<close> returns.
\<close>

definition KEYGEN_PUBLIC_FILE :: string where
  "KEYGEN_PUBLIC_FILE = ''../keys/server_mldsa_public.key''"

definition KEYGEN_SECRET_FILE :: string where
  "KEYGEN_SECRET_FILE = ''../keys/server_mldsa_secret.key''"

subsection \<open>Writing files\<close>

definition sys_fopen_wb :: "('c, 'm) lib \<Rightarrow> string \<Rightarrow> world \<Rightarrow> bool \<times> world" where
  "sys_fopen_wb L filename w =
     (let (ok, w) = acquire L H_FILE w
      in (ok, if ok then w\<lparr>files := (files w)(filename \<mapsto> [])\<rparr> else w))"

definition sys_fwrite :: "('c, 'm) lib \<Rightarrow> bytes \<Rightarrow> world \<Rightarrow> nat \<times> world" where
  "sys_fwrite L data w =
     (let (ok, w') = ext_call L w
      in (if ok then length data else min (length data) (io_short L (lib_calls w)), w'))"

definition sys_fclose_wb :: "('c, 'm) lib \<Rightarrow> string \<Rightarrow> bytes \<Rightarrow> world \<Rightarrow> world option" where
  "sys_fclose_wb L filename buffered w =
     do {
       let (ok, w') = ext_call L w;
       w' \<leftarrow> release H_FILE w';
       Some (w'\<lparr>files := (files w')(filename \<mapsto> if ok then buffered else take (io_short L (lib_calls w)) buffered)\<rparr>)
     }"

subsection \<open>The program\<close>

record keygen =
  kg_ret :: int
  kg_sig :: bool
  kg_public_key :: ptr
  kg_secret_key :: ptr

definition keygen_alloc :: "('c, 'm) lib \<Rightarrow> keygen phase" where
  "keygen_alloc L s w =
     (let (p1, w) = oqs_malloc L (sig_len_pk L) w;
          (p2, w) = oqs_malloc L (sig_len_sk L) w
      in Some (\<not> (p1 = None \<or> p2 = None), s\<lparr>kg_public_key := p1, kg_secret_key := p2\<rparr>, w))"

definition keygen_keypair :: "('c, 'm) lib \<Rightarrow> keygen phase" where
  "keygen_keypair L s w =
     do {
       (ok, p, k, w) \<leftarrow> oqs_sig_keypair L (kg_public_key s) (kg_secret_key s) w;
       Some (ok, s\<lparr>kg_public_key := p, kg_secret_key := k\<rparr>, w)
     }"

definition save_key :: "('c, 'm) lib \<Rightarrow> string \<Rightarrow> ptr \<Rightarrow> size_t \<Rightarrow> world \<Rightarrow> (bool \<times> world) option" where
  "save_key L filename key len w =
     do {
       let (fp, w) = sys_fopen_wb L filename w;
       if \<not> fp then Some (False, w)
       else do {
         k \<leftarrow> key;
         data \<leftarrow> rd k 0 (unat len);
         let (n, w) = sys_fwrite L data w;
         w \<leftarrow> sys_fclose_wb L filename (take n data) w;
         Some (n = unat len, w)
       }
     }"

definition keygen_save_public :: "('c, 'm) lib \<Rightarrow> keygen phase" where
  "keygen_save_public L s w =
     do { (ok, w) \<leftarrow> save_key L KEYGEN_PUBLIC_FILE (kg_public_key s) (sig_len_pk L) w; Some (ok, s, w) }"

definition keygen_save_secret :: "('c, 'm) lib \<Rightarrow> keygen phase" where
  "keygen_save_secret L s w =
     do { (ok, w) \<leftarrow> save_key L KEYGEN_SECRET_FILE (kg_secret_key s) (sig_len_sk L) w; Some (ok, s, w) }"

definition keygen_success :: "keygen phase" where
  "keygen_success s w = Some (True, s\<lparr>kg_ret := EXIT_SUCCESS\<rparr>, w)"

definition keygen_cleanup :: "ptr \<Rightarrow> ptr \<Rightarrow> bool \<Rightarrow> world \<Rightarrow> world option" where
  "keygen_cleanup public_key secret_key sig w =
     do {
       w \<leftarrow> (if sig then oqs_free secret_key w else Some w);
       w \<leftarrow> oqs_free public_key w;
       free_if sig H_SIG w
     }"

definition keygen_phases :: "('c, 'm) lib \<Rightarrow> keygen phase list" where
  "keygen_phases L = [keygen_alloc L, keygen_keypair L, keygen_save_public L, keygen_save_secret L, keygen_success]"

definition keygen_main :: "('c, 'm) lib \<Rightarrow> world \<Rightarrow> (int \<times> world) option" where
  "keygen_main L w =
     (let (ok, w) = acquire L H_SIG w;
          s = \<lparr>kg_ret = EXIT_FAILURE, kg_sig = ok, kg_public_key = None, kg_secret_key = None\<rparr>
      in if \<not> ok then Some (EXIT_FAILURE, w)
         else do {
           (_, s, w) \<leftarrow> run_phases (keygen_phases L) s w;
           w \<leftarrow> keygen_cleanup (kg_public_key s) (kg_secret_key s) (kg_sig s) w;
           Some (kg_ret s, w)
         })"

subsection \<open>What it does to the world\<close>

text \<open>What a file holds after \<open>fclose\<close>, the \<open>n\<close>-th library call, flushed \<open>k\<close> into it.\<close>

definition flushed :: "('c, 'm) lib \<Rightarrow> nat \<Rightarrow> bytes \<Rightarrow> bytes" where
  "flushed L n k = (if call_ok L n then k else take (io_short L n) k)"

lemma flushed_up [simp]: "lib_up L \<Longrightarrow> flushed L n k = k"
  by (simp add: flushed_def lib_up_def)

text \<open>A save that reports success wrote the whole key to the stream, in three calls; what is in the
  file is up to the last of them.\<close>

lemma save_key_spec:
  assumes "length k = unat len"
  obtains ok c w' where "save_key L fn (Some k) len w = Some (ok, w')"
    "live w' = live w" "rng w' = rng w" "inbox w' = inbox w" "outbox w' = outbox w"
    "files w' = files w \<or> files w' = (files w)(fn \<mapsto> c)"
    "ok \<Longrightarrow> files w' = (files w)(fn \<mapsto> flushed L (lib_calls w + 2) k) \<and> lib_calls w' = lib_calls w + 3" "lib_up L \<Longrightarrow> ok"
proof -
  let ?n = "if call_ok L (Suc (lib_calls w)) then length k else min (length k) (io_short L (Suc (lib_calls w)))"
  show thesis
  proof (cases "call_ok L (lib_calls w)")
    case True
    define c where "c = flushed L (lib_calls w + 2) (take ?n k)"
    define w' where "w' = w\<lparr>lib_calls := lib_calls w + 3, files := (files w)(fn \<mapsto> c)\<rparr>"
    have "save_key L fn (Some k) len w = Some (?n = unat len, w')"
      using True assms by (simp add: save_key_def sys_fopen_wb_def sys_fwrite_def sys_fclose_wb_def env_simps
          rd_def w'_def c_def flushed_def numeral_2_eq_2 numeral_3_eq_3 min.commute)
    moreover have "?n = unat len \<Longrightarrow> c = flushed L (lib_calls w + 2) k" using assms by (simp add: c_def)
    ultimately show thesis
      by (intro that [where c = c, of "?n = unat len" w']) (use assms in \<open>simp_all add: w'_def lib_up_def\<close>)
  next
    case False
    then have "save_key L fn (Some k) len w = Some (False, w\<lparr>lib_calls := Suc (lib_calls w)\<rparr>)"
      by (simp add: save_key_def sys_fopen_wb_def env_simps)
    then show thesis by (rule that) (use False in \<open>auto simp: lib_up_def\<close>)
  qed
qed

definition keygen_held :: "keygen \<Rightarrow> handle \<Rightarrow> nat" where
  "keygen_held s = (\<lambda>_. 0)(H_SIG := nb (kg_sig s), H_OQS_MEM := ptrs [kg_public_key s, kg_secret_key s])"

text \<open>What holds however far the program gets: exactly what the variables say is held, and of
  the files only the two key files have changed, if at all.\<close>

definition keygen_res :: "world \<Rightarrow> keygen \<Rightarrow> world \<Rightarrow> bool" where
  "keygen_res w0 s w \<longleftrightarrow>
     live w = (\<lambda>h. live w0 h + keygen_held s h) \<and> kg_sig s \<and> inbox w = inbox w0 \<and> outbox w = outbox w0 \<and>
     (\<forall>f. f \<noteq> KEYGEN_PUBLIC_FILE \<longrightarrow> f \<noteq> KEYGEN_SECRET_FILE \<longrightarrow> files w f = files w0 f)"

text \<open>The files after a success: the program made ten library calls, the seventh and the tenth
  are those to \<open>fclose\<close>.\<close>

definition keygen_saved :: "('c, 'm) lib \<Rightarrow> world \<Rightarrow> world \<Rightarrow> bool" where
  "keygen_saved L w0 w \<longleftrightarrow>
     files w = (files w0)(KEYGEN_PUBLIC_FILE \<mapsto> flushed L (lib_calls w0 + 6) (fst (sig_keypair L (rng w0))),
                          KEYGEN_SECRET_FILE \<mapsto> flushed L (lib_calls w0 + 9) (snd (sig_keypair L (rng w0))))"

definition keygen_exit :: "('c, 'm) lib \<Rightarrow> world \<Rightarrow> keygen \<Rightarrow> world \<Rightarrow> bool" where
  "keygen_exit L w0 s w \<longleftrightarrow> keygen_res w0 s w \<and>
     (kg_ret s = EXIT_FAILURE \<or> kg_ret s = EXIT_SUCCESS \<and> keygen_saved L w0 w)"

definition keygen_at :: "('c, 'm) lib \<Rightarrow> world \<Rightarrow> keygen \<Rightarrow> world \<Rightarrow> bool" where
  "keygen_at L w0 s w \<longleftrightarrow> keygen_res w0 s w \<and> kg_ret s = EXIT_FAILURE \<and>
     (case sig_keypair L (rng w0) of (pk, sk) \<Rightarrow> kg_public_key s = Some pk \<and> kg_secret_key s = Some sk)"

lemma keygen_alloc_ok:
  assumes "G \<longrightarrow> lib_up L"
  shows "phase_ok (keygen_exit L w0)
     (\<lambda>s w. keygen_res w0 s w \<and> kg_ret s = EXIT_FAILURE \<and> kg_public_key s = None \<and> kg_secret_key s = None \<and>
        files w = files w0 \<and> rng w = rng w0 \<and> lib_calls w = lib_calls w0 + 1) (keygen_alloc L)
     (\<lambda>s w. keygen_res w0 s w \<and> kg_ret s = EXIT_FAILURE \<and> files w = files w0 \<and> rng w = rng w0 \<and> lib_calls w = lib_calls w0 + 3 \<and>
        (\<exists>p k. kg_public_key s = Some p \<and> kg_secret_key s = Some k \<and>
           length p = unat (sig_len_pk L) \<and> length k = unat (sig_len_sk L))) G"
proof (rule phase_okI)
  fix s w assume P: "keygen_res w0 s w \<and> kg_ret s = EXIT_FAILURE \<and> kg_public_key s = None \<and> kg_secret_key s = None \<and>
        files w = files w0 \<and> rng w = rng w0 \<and> lib_calls w = lib_calls w0 + 1"
  obtain p1 w1 p2 w2 where m: "oqs_malloc L (sig_len_pk L) w = (p1, w1)"
    "oqs_malloc L (sig_len_sk L) w1 = (p2, w2)" by fastforce
  note a = oqs_malloc_spec [OF m(1)] oqs_malloc_spec [OF m(2)]
  let ?s = "s\<lparr>kg_public_key := p1, kg_secret_key := p2\<rparr>"
  have f: "frame w [] [] 0 w2" using a frame_trans0 by blast
  then have R: "keygen_res w0 ?s w2" using P a by (auto simp: keygen_res_def keygen_held_def frame_def)
  have "lib_calls w2 = lib_calls w + 2" using m by (auto simp: oqs_malloc_def acquire_def Let_def split: if_splits)
  then have same: "files w2 = files w0" "rng w2 = rng w0" "lib_calls w2 = lib_calls w0 + 3" using f P by (simp_all add: frame_def)
  show "ends (keygen_exit L w0) (\<lambda>s w. keygen_res w0 s w \<and> kg_ret s = EXIT_FAILURE \<and> files w = files w0 \<and> rng w = rng w0 \<and> lib_calls w = lib_calls w0 + 3 \<and>
        (\<exists>p k. kg_public_key s = Some p \<and> kg_secret_key s = Some k \<and>
           length p = unat (sig_len_pk L) \<and> length k = unat (sig_len_sk L))) G (keygen_alloc L s w)"
    using R P same a assms by (auto simp: keygen_alloc_def m keygen_exit_def)
qed

lemma keygen_keypair_ok:
  assumes "sig_sizes L" and "G \<longrightarrow> lib_up L"
  shows "phase_ok (keygen_exit L w0)
     (\<lambda>s w. keygen_res w0 s w \<and> kg_ret s = EXIT_FAILURE \<and> files w = files w0 \<and> rng w = rng w0 \<and> lib_calls w = lib_calls w0 + 3 \<and>
        (\<exists>p k. kg_public_key s = Some p \<and> kg_secret_key s = Some k \<and>
           length p = unat (sig_len_pk L) \<and> length k = unat (sig_len_sk L)))
     (keygen_keypair L) (\<lambda>s w. keygen_at L w0 s w \<and> files w = files w0 \<and> lib_calls w = lib_calls w0 + 4) G"
proof (rule phase_okI, elim conjE exE)
  fix s w p k
  assume P: "keygen_res w0 s w" "kg_ret s = EXIT_FAILURE" "files w = files w0" "rng w = rng w0" "lib_calls w = lib_calls w0 + 3"
    "kg_public_key s = Some p" "kg_secret_key s = Some k" "length p = unat (sig_len_pk L)" "length k = unat (sig_len_sk L)"
  obtain ok p' k' w1 where r: "oqs_sig_keypair L (Some p) (Some k) w = Some (ok, Some p', Some k', w1)"
    "frame w [] [] 1 w1" "live w1 = live w" "length p' = length p" "length k' = length k"
    "ok \<Longrightarrow> sig_keypair L (rng w) = (p', k')" "lib_up L \<Longrightarrow> ok"
    by (rule sig_keypair_ok [OF assms(1) P(8,9), where w = w]) (rule that)
  have R: "keygen_res w0 (s\<lparr>kg_public_key := Some p', kg_secret_key := Some k'\<rparr>) w1"
    using P(1,6,7) r(2,3) by (auto simp: keygen_res_def keygen_held_def frame_def)
  have "lib_calls w1 = lib_calls w + 1"
    using r(1) by (auto simp: oqs_sig_keypair_def random_call_def ext_call_def Let_def Option.bind_eq_Some_conv split: if_splits prod.splits)
  then show "ends (keygen_exit L w0) (\<lambda>s w. keygen_at L w0 s w \<and> files w = files w0 \<and> lib_calls w = lib_calls w0 + 4) G
      (keygen_keypair L s w)"
    using R P(2-7) r assms(2) by (simp add: keygen_keypair_def keygen_exit_def keygen_at_def frame_def)
qed

lemma keygen_res_files:
  assumes "keygen_res w0 s w" and "live w' = live w" "inbox w' = inbox w" "outbox w' = outbox w"
    and "files w' = files w \<or> files w' = (files w)(fn \<mapsto> c)" and "fn = KEYGEN_PUBLIC_FILE \<or> fn = KEYGEN_SECRET_FILE"
  shows "keygen_res w0 s w'"
  using assms by (auto simp: keygen_res_def)

text \<open>The files between the two saves.\<close>

definition keygen_half :: "('c, 'm) lib \<Rightarrow> world \<Rightarrow> world \<Rightarrow> bool" where
  "keygen_half L w0 w \<longleftrightarrow> lib_calls w = lib_calls w0 + 7 \<and>
     files w = (files w0)(KEYGEN_PUBLIC_FILE \<mapsto> flushed L (lib_calls w0 + 6) (fst (sig_keypair L (rng w0))))"

lemma keygen_at_keys:
  assumes "keygen_at L w0 s w"
  shows "kg_public_key s = Some (fst (sig_keypair L (rng w0)))" "kg_secret_key s = Some (snd (sig_keypair L (rng w0)))"
  using assms by (auto simp: keygen_at_def split: prod.splits)

lemma keygen_at_save:
  assumes "keygen_at L w0 s w" and "live w' = live w" "inbox w' = inbox w" "outbox w' = outbox w"
    and "files w' = files w \<or> files w' = (files w)(fn \<mapsto> c)" and "fn = KEYGEN_PUBLIC_FILE \<or> fn = KEYGEN_SECRET_FILE"
  shows "keygen_at L w0 s w'"
  using keygen_res_files [OF _ assms(2-6)] assms(1) by (simp add: keygen_at_def)

lemma keygen_save_public_ok:
  assumes "sig_sizes L" and "G \<longrightarrow> lib_up L"
  shows "phase_ok (keygen_exit L w0) (\<lambda>s w. keygen_at L w0 s w \<and> files w = files w0 \<and> lib_calls w = lib_calls w0 + 4)
     (keygen_save_public L) (\<lambda>s w. keygen_at L w0 s w \<and> keygen_half L w0 w) G"
proof (rule phase_okI, elim conjE)
  fix s w assume P: "keygen_at L w0 s w" "files w = files w0" "lib_calls w = lib_calls w0 + 4"
  let ?pk = "fst (sig_keypair L (rng w0))"
  have len: "length ?pk = unat (sig_len_pk L)" using assms(1) by (simp add: sig_sizes_def)
  obtain ok c w' where r: "save_key L KEYGEN_PUBLIC_FILE (Some ?pk) (sig_len_pk L) w = Some (ok, w')"
    "live w' = live w" "rng w' = rng w" "inbox w' = inbox w" "outbox w' = outbox w"
    "files w' = files w \<or> files w' = (files w)(KEYGEN_PUBLIC_FILE \<mapsto> c)"
    "ok \<Longrightarrow> files w' = (files w)(KEYGEN_PUBLIC_FILE \<mapsto> flushed L (lib_calls w + 2) ?pk) \<and> lib_calls w' = lib_calls w + 3"
    "lib_up L \<Longrightarrow> ok"
    by (rule save_key_spec [OF len, of L KEYGEN_PUBLIC_FILE w]) (rule that)
  have A: "keygen_at L w0 s w'" using keygen_at_save [OF P(1) r(2,4,5,6)] by simp
  have "keygen_half L w0 w'" if ok using r(7) [OF that] P(2,3) by (simp add: keygen_half_def add.commute)
  then show "ends (keygen_exit L w0) (\<lambda>s w. keygen_at L w0 s w \<and> keygen_half L w0 w) G (keygen_save_public L s w)"
    using A r(1,8) keygen_at_keys(1) [OF P(1)] assms(2) by (auto simp: keygen_save_public_def keygen_exit_def keygen_at_def)
qed

lemma keygen_save_secret_ok:
  assumes "sig_sizes L" and "G \<longrightarrow> lib_up L"
  shows "phase_ok (keygen_exit L w0) (\<lambda>s w. keygen_at L w0 s w \<and> keygen_half L w0 w)
     (keygen_save_secret L) (\<lambda>s w. keygen_at L w0 s w \<and> keygen_saved L w0 w) G"
proof (rule phase_okI, elim conjE)
  fix s w assume P: "keygen_at L w0 s w" "keygen_half L w0 w"
  let ?sk = "snd (sig_keypair L (rng w0))"
  have len: "length ?sk = unat (sig_len_sk L)" using assms(1) by (simp add: sig_sizes_def)
  obtain ok c w' where r: "save_key L KEYGEN_SECRET_FILE (Some ?sk) (sig_len_sk L) w = Some (ok, w')"
    "live w' = live w" "rng w' = rng w" "inbox w' = inbox w" "outbox w' = outbox w"
    "files w' = files w \<or> files w' = (files w)(KEYGEN_SECRET_FILE \<mapsto> c)"
    "ok \<Longrightarrow> files w' = (files w)(KEYGEN_SECRET_FILE \<mapsto> flushed L (lib_calls w + 2) ?sk) \<and> lib_calls w' = lib_calls w + 3"
    "lib_up L \<Longrightarrow> ok"
    by (rule save_key_spec [OF len, of L KEYGEN_SECRET_FILE w]) (rule that)
  have A: "keygen_at L w0 s w'" using keygen_at_save [OF P(1) r(2,4,5,6)] by simp
  have "keygen_saved L w0 w'" if ok using r(7) [OF that] P(2) by (simp add: keygen_half_def keygen_saved_def add.commute)
  then show "ends (keygen_exit L w0) (\<lambda>s w. keygen_at L w0 s w \<and> keygen_saved L w0 w) G (keygen_save_secret L s w)"
    using A r(1,8) keygen_at_keys(2) [OF P(1)] assms(2) by (auto simp: keygen_save_secret_def keygen_exit_def keygen_at_def)
qed

lemma keygen_held_ret [simp]: "keygen_held (s\<lparr>kg_ret := r\<rparr>) = keygen_held s"
  by (simp add: keygen_held_def)

lemma keygen_success_ok:
  "phase_ok (keygen_exit L w0) (\<lambda>s w. keygen_at L w0 s w \<and> keygen_saved L w0 w) keygen_success
     (\<lambda>s w. kg_ret s = EXIT_SUCCESS \<and> keygen_exit L w0 s w) G"
  by (rule phase_okI) (simp add: keygen_success_def keygen_exit_def keygen_at_def keygen_res_def)

lemma keygen_phases_ok:
  assumes "sig_sizes L" and "G \<longrightarrow> lib_up L"
  shows "phase_ok (keygen_exit L w0)
     (\<lambda>s w. keygen_res w0 s w \<and> kg_ret s = EXIT_FAILURE \<and> kg_public_key s = None \<and> kg_secret_key s = None \<and>
        files w = files w0 \<and> rng w = rng w0 \<and> lib_calls w = lib_calls w0 + 1)
     (run_phases (keygen_phases L))
     (\<lambda>s w. kg_ret s = EXIT_SUCCESS \<and> keygen_exit L w0 s w) G"
  unfolding keygen_phases_def
  by (rule run_phases_ok_Cons [OF keygen_alloc_ok [OF assms(2)]], rule run_phases_ok_Cons [OF keygen_keypair_ok [OF assms]],
      rule run_phases_ok_Cons [OF keygen_save_public_ok [OF assms]], rule run_phases_ok_Cons [OF keygen_save_secret_ok [OF assms]],
      rule run_phases_ok_Cons [OF keygen_success_ok], rule run_phases_ok_Nil) simp

lemma acquire_calls: "acquire L h w = (ok, w') \<Longrightarrow> lib_calls w' = lib_calls w + 1"
  by (auto simp: acquire_def split: if_splits)

lemma keygen_main_ends:
  assumes "sig_sizes L" and G: "G \<longrightarrow> lib_up L"
  shows "\<exists>ret w'. keygen_main L w = Some (ret, w') \<and> live w' = live w \<and>
     (\<forall>f. f \<noteq> KEYGEN_PUBLIC_FILE \<longrightarrow> f \<noteq> KEYGEN_SECRET_FILE \<longrightarrow> files w' f = files w f) \<and>
     (ret = EXIT_FAILURE \<and> \<not> G \<or> ret = EXIT_SUCCESS \<and> keygen_saved L w w')"
proof -
  obtain ok w1 where a: "acquire L H_SIG w = (ok, w1)" by fastforce
  note sp = acquire_spec [OF a]
  let ?s = "\<lparr>kg_ret = EXIT_FAILURE, kg_sig = ok, kg_public_key = None, kg_secret_key = None\<rparr>"
  show ?thesis
  proof (cases ok)
    case False
    with a have "keygen_main L w = Some (EXIT_FAILURE, w1)" by (simp add: keygen_main_def)
    with sp False G show ?thesis by (auto simp: frame_def)
  next
    case True
    have "keygen_res w ?s w1 \<and> kg_ret ?s = EXIT_FAILURE \<and> kg_public_key ?s = None \<and> kg_secret_key ?s = None \<and>
        files w1 = files w \<and> rng w1 = rng w \<and> lib_calls w1 = lib_calls w + 1"
      using sp True acquire_calls [OF a] by (auto simp: keygen_res_def keygen_held_def frame_def)
    from phase_okD [OF keygen_phases_ok [OF assms] this]
    obtain ok2 s2 w2 where r: "run_phases (keygen_phases L) ?s w1 = Some (ok2, s2, w2)" "keygen_exit L w s2 w2" "ok2 \<Longrightarrow> kg_ret s2 = EXIT_SUCCESS" "G \<Longrightarrow> ok2"
      by (rule endsE) (rule that, assumption, assumption, simp_all)
    from r(2) have R: "live w2 = (\<lambda>h. live w h + keygen_held s2 h)" "kg_sig s2"
      by (simp_all add: keygen_exit_def keygen_res_def)
    have "keygen_cleanup (kg_public_key s2) (kg_secret_key s2) (kg_sig s2) w2 = Some (w2\<lparr>live := live w\<rparr>)"
      by (simp add: keygen_cleanup_def oqs_free_def free_if_live R keygen_held_def release_def) (simp add: fun_eq_iff)
    then have "keygen_main L w = Some (kg_ret s2, w2\<lparr>live := live w\<rparr>)"
      using True a r(1) by (simp add: keygen_main_def)
    with r(2-4) show ?thesis
      by (auto simp: keygen_exit_def keygen_res_def keygen_saved_def)
  qed
qed

lemma call_index:
  fixes n :: nat
  shows "n + 1 = Suc n" "n + 2 = Suc (Suc n)" "n + 3 = Suc (Suc (Suc n))" "n + 4 = Suc (Suc (Suc (Suc n)))"
    "n + 5 = Suc (Suc (Suc (Suc (Suc n))))" "n + 6 = Suc (Suc (Suc (Suc (Suc (Suc n)))))"
    "n + 7 = Suc (Suc (Suc (Suc (Suc (Suc (Suc n))))))" "n + 8 = Suc (Suc (Suc (Suc (Suc (Suc (Suc (Suc n)))))))"
    "n + 9 = Suc (Suc (Suc (Suc (Suc (Suc (Suc (Suc (Suc n))))))))"
  by simp_all

text \<open>The run up to the key pair, and through the first file, when nothing failed so far.\<close>

lemma keygen_run:
  assumes "sig_sizes L" and kp: "sig_keypair L (rng w) = (pk, sk)"
    and "call_ok L (lib_calls w)" "call_ok L (lib_calls w + 1)" "call_ok L (lib_calls w + 2)" "call_ok L (lib_calls w + 3)"
      "call_ok L (lib_calls w + 4)" "call_ok L (lib_calls w + 5)"
  defines "c \<equiv> (if call_ok L (lib_calls w + 6) then length pk else io_short L (lib_calls w + 6))"
  defines "w1 \<equiv> w\<lparr>rng := Suc (rng w), lib_calls := lib_calls w + 7,
      live := (live w)(H_SIG := Suc (live w H_SIG), H_OQS_MEM := Suc (Suc (live w H_OQS_MEM)), H_FILE := live w H_FILE),
      files := (files w)(KEYGEN_PUBLIC_FILE \<mapsto> take c pk)\<rparr>"
  defines "s \<equiv> \<lparr>kg_ret = EXIT_FAILURE, kg_sig = True, kg_public_key = Some pk, kg_secret_key = Some sk\<rparr>"
  shows "keygen_main L w =
     do { (_, s, w) \<leftarrow> run_phases [keygen_save_secret L, keygen_success] s w1;
          w \<leftarrow> keygen_cleanup (kg_public_key s) (kg_secret_key s) (kg_sig s) w;
          Some (kg_ret s, w) }"
proof -
  have l: "length pk = unat (sig_len_pk L)" "length sk = unat (sig_len_sk L)"
    using assms(1) kp unfolding sig_sizes_def by (metis fst_conv, metis snd_conv)
  show ?thesis
    using assms(3-8) l unfolding call_index
    by (simp add: w1_def c_def call_index keygen_main_def keygen_phases_def keygen_alloc_def keygen_keypair_def keygen_save_public_def
        save_key_def sys_fopen_wb_def sys_fwrite_def sys_fclose_wb_def oqs_malloc_def oqs_sig_keypair_def
        random_call_def env_simps rd_def wr_all kp s_def Let_def)
qed

subsection \<open>Properties\<close>

text \<open>C33: the generator always ends with one of its two exit codes, releases the object, the buffers and
  the files it opened on every path, and touches no file but the two key files. When it reports
  success it has written the two keys of one generated pair to the streams of the two files, and
  each file holds its whole key if the \<open>fclose\<close> that flushed it (the seventh and the tenth library
  call) succeeded, and otherwise the part that this flush wrote: the exit code does not tell. When
  no call fails it succeeds, and the files hold the pair.\<close>

theorem keygen_main_correct:
  assumes "sig_sizes L"
  shows "\<exists>ret w'. keygen_main L w = Some (ret, w') \<and> (ret = EXIT_SUCCESS \<or> ret = EXIT_FAILURE) \<and> live w' = live w \<and>
     (\<forall>f. f \<noteq> KEYGEN_PUBLIC_FILE \<and> f \<noteq> KEYGEN_SECRET_FILE \<longrightarrow> files w' f = files w f) \<and>
     (ret = EXIT_SUCCESS \<longrightarrow> (let (pk, sk) = sig_keypair L (rng w) in
        files w' = (files w)(KEYGEN_PUBLIC_FILE \<mapsto> flushed L (lib_calls w + 6) pk,
                             KEYGEN_SECRET_FILE \<mapsto> flushed L (lib_calls w + 9) sk))) \<and>
     (lib_up L \<longrightarrow> ret = EXIT_SUCCESS \<and> (let (pk, sk) = sig_keypair L (rng w) in
        files w' = (files w)(KEYGEN_PUBLIC_FILE \<mapsto> pk, KEYGEN_SECRET_FILE \<mapsto> sk)))"
proof -
  have "lib_up L \<longrightarrow> lib_up L" by simp
  from keygen_main_ends [OF assms this, of w] obtain ret w' where m: "keygen_main L w = Some (ret, w')" "live w' = live w"
    "\<forall>f. f \<noteq> KEYGEN_PUBLIC_FILE \<longrightarrow> f \<noteq> KEYGEN_SECRET_FILE \<longrightarrow> files w' f = files w f"
    "ret = EXIT_FAILURE \<and> \<not> lib_up L \<or> ret = EXIT_SUCCESS \<and> keygen_saved L w w'" by blast
  then show ?thesis
    by (intro exI [of _ ret] exI [of _ w']) (auto simp: keygen_saved_def case_prod_beta)
qed

theorem keygen_main_correct_witness:
  "(\<exists>w'. keygen_main sample_lib (sample_world []) = Some (EXIT_SUCCESS, w') \<and> live w' = live (sample_world []) \<and>
     files w' = [KEYGEN_PUBLIC_FILE \<mapsto> [0, 2, 3], KEYGEN_SECRET_FILE \<mapsto> [0, 2, 3]]) \<and>
   (\<exists>ret w'. keygen_main (failing_lib 9) (sample_world []) = Some (ret, w') \<and>
     (ret = EXIT_SUCCESS \<longrightarrow> files w' KEYGEN_SECRET_FILE = Some []))"
proof -
  have w: "rng (sample_world []) = 0" "files (sample_world []) = Map.empty" "lib_calls (sample_world []) = 0"
    by (simp_all add: sample_world_def)
  have io: "flushed (failing_lib 9) 9 k = []" for k by (simp add: flushed_def failing_lib_def sample_lib_def)
  show ?thesis
    using keygen_main_correct [OF sample_sig_sizes(1), of "sample_world []"] sample_lib_up
      keygen_main_correct [OF sample_sig_sizes(2) [of 9], of "sample_world []"]
    by (auto simp: w io case_prod_beta)
qed

text \<open>C34: the two files are not replaced together: when the secret key file cannot be opened (every
  call before it succeeds), the program fails after the old public key has been overwritten, so the
  new public key stands beside the old secret key.\<close>

theorem keygen_mismatched_files:
  assumes "sig_sizes L" and "\<forall>k < 7. call_ok L (lib_calls w + k)" and "\<not> call_ok L (lib_calls w + 7)"
  shows "\<exists>w'. keygen_main L w = Some (EXIT_FAILURE, w') \<and>
     files w' KEYGEN_PUBLIC_FILE = Some (fst (sig_keypair L (rng w))) \<and>
     files w' KEYGEN_SECRET_FILE = files w KEYGEN_SECRET_FILE"
proof -
  obtain pk sk where kp: "sig_keypair L (rng w) = (pk, sk)" by (cases "sig_keypair L (rng w)")
  note run = keygen_run [OF assms(1) kp]
  have c: "call_ok L (lib_calls w + k)" if "k < 7" for k using assms(2) that by blast
  from c [of 0] c [of 1] c [of 2] c [of 3] c [of 4] c [of 5] c [of 6] assms(3) show ?thesis
    by (simp add: run kp keygen_save_secret_def save_key_def sys_fopen_wb_def env_simps keygen_cleanup_def oqs_free_def
        KEYGEN_PUBLIC_FILE_def KEYGEN_SECRET_FILE_def)
qed

theorem keygen_mismatched_files_witness:
  "\<exists>w'. keygen_main (failing_lib 7) (sample_world []) = Some (EXIT_FAILURE, w') \<and>
     files w' KEYGEN_PUBLIC_FILE = Some [0, 2, 3] \<and> files w' KEYGEN_SECRET_FILE = None"
  using keygen_mismatched_files [OF sample_sig_sizes(2) [of 7], of "sample_world []"]
  by (simp add: failing_lib_def sample_world_def)

text \<open>C35: what \<open>fclose\<close> reports is ignored: when flushing the public key fails (and no other call), the
  program still reports success, with a truncated public key in the file.\<close>

theorem keygen_ignores_fclose:
  assumes "sig_sizes L" and "\<forall>k. k \<noteq> 6 \<longrightarrow> call_ok L (lib_calls w + k)" and "\<not> call_ok L (lib_calls w + 6)"
  shows "\<exists>w'. keygen_main L w = Some (EXIT_SUCCESS, w') \<and>
     files w' KEYGEN_PUBLIC_FILE = Some (take (io_short L (lib_calls w + 6)) (fst (sig_keypair L (rng w))))"
proof -
  obtain pk sk where kp: "sig_keypair L (rng w) = (pk, sk)" by (cases "sig_keypair L (rng w)")
  note run = keygen_run [OF assms(1) kp]
  have c: "call_ok L (lib_calls w + k)" if "k \<noteq> 6" for k using assms(2) that by blast
  have l: "length sk = unat (sig_len_sk L)" using assms(1) kp unfolding sig_sizes_def by (metis snd_conv)
  from c [of 0] c [of 1] c [of 2] c [of 3] c [of 4] c [of 5] c [of 7] c [of 8, unfolded add.commute [of _ 8]] c [of 9] assms(3) l show ?thesis
    by (simp add: run kp keygen_save_secret_def save_key_def sys_fopen_wb_def sys_fwrite_def sys_fclose_wb_def
        keygen_success_def env_simps keygen_cleanup_def oqs_free_def rd_def KEYGEN_PUBLIC_FILE_def KEYGEN_SECRET_FILE_def)
qed

theorem keygen_ignores_fclose_witness:
  "\<exists>w'. keygen_main (sample_lib\<lparr>call_ok := \<lambda>k. k \<noteq> 6\<rparr>) (sample_world []) = Some (EXIT_SUCCESS, w') \<and>
     files w' KEYGEN_PUBLIC_FILE = Some []"
proof -
  let ?L = "sample_lib\<lparr>call_ok := \<lambda>k. k \<noteq> 6\<rparr>"
  have "sig_sizes ?L" using sample_sig_sizes(1) by (simp add: sig_sizes_def)
  moreover have "io_short ?L n = 0" for n by (simp add: sample_lib_def)
  ultimately show ?thesis using keygen_ignores_fclose [of ?L "sample_world []"] by (simp add: sample_world_def)
qed

end
