(* ===== verification/Kem_Demo.thy ===== *)
theory Kem_Demo
  imports Endpoint
begin

section \<open>The KEM demonstration (\<open>demo/kem_demo.c\<close>)\<close>

text \<open>
  Key generation, encapsulation and decapsulation in one process. Every error exit of \<open>main\<close> frees
  the same variables and returns \<open>OQS_ERROR\<close>: the steps are phases, \<open>cleanup_heap\<close> runs behind
  them. Of what the program prints the model keeps the verdict, \<open>kd_match\<close>.
\<close>

abbreviation OQS_SUCCESS :: int where "OQS_SUCCESS \<equiv> 0"
abbreviation OQS_ERROR :: int where "OQS_ERROR \<equiv> - 1"

record kem_demo =
  kd_kem :: bool
  kd_public_key :: ptr
  kd_secret_key :: ptr
  kd_ciphertext :: ptr
  kd_shared_secret_e :: ptr
  kd_shared_secret_d :: ptr
  kd_match :: "bool option"

definition kem_demo_alloc :: "('c, 'm) lib \<Rightarrow> kem_demo phase" where
  "kem_demo_alloc L s w =
     (let (p1, w) = oqs_malloc L (kem_len_pk L) w;
          (p2, w) = oqs_malloc L (kem_len_sk L) w;
          (p3, w) = oqs_malloc L (kem_len_ct L) w;
          (p4, w) = oqs_malloc L (kem_len_ss L) w;
          (p5, w) = oqs_malloc L (kem_len_ss L) w;
          s = s\<lparr>kd_public_key := p1, kd_secret_key := p2, kd_ciphertext := p3, kd_shared_secret_e := p4,
                kd_shared_secret_d := p5\<rparr>
      in Some (\<not> (p1 = None \<or> p2 = None \<or> p3 = None \<or> p4 = None \<or> p5 = None), s, w))"

definition kem_demo_keypair :: "('c, 'm) lib \<Rightarrow> kem_demo phase" where
  "kem_demo_keypair L s w =
     do {
       (ok, p, k, w) \<leftarrow> oqs_kem_keypair L (kd_public_key s) (kd_secret_key s) w;
       Some (ok, s\<lparr>kd_public_key := p, kd_secret_key := k\<rparr>, w)
     }"

definition kem_demo_encaps :: "('c, 'm) lib \<Rightarrow> kem_demo phase" where
  "kem_demo_encaps L s w =
     do {
       (ok, c, k, w) \<leftarrow> oqs_kem_encaps L (kd_ciphertext s) (kd_shared_secret_e s) (kd_public_key s) w;
       Some (ok, s\<lparr>kd_ciphertext := c, kd_shared_secret_e := k\<rparr>, w)
     }"

definition kem_demo_decaps :: "('c, 'm) lib \<Rightarrow> kem_demo phase" where
  "kem_demo_decaps L s w =
     do {
       (ok, k, w) \<leftarrow> oqs_kem_decaps L (kd_shared_secret_d s) (kd_ciphertext s) (kd_secret_key s) w;
       Some (ok, s\<lparr>kd_shared_secret_d := k\<rparr>, w)
     }"

definition kem_demo_compare :: "('c, 'm) lib \<Rightarrow> kem_demo phase" where
  "kem_demo_compare L s w =
     do {
       e \<leftarrow> kd_shared_secret_e s;
       e \<leftarrow> rd e 0 (unat (kem_len_ss L));
       d \<leftarrow> kd_shared_secret_d s;
       d \<leftarrow> rd d 0 (unat (kem_len_ss L));
       Some (True, s\<lparr>kd_match := Some (e = d)\<rparr>, w)
     }"

definition kem_demo_cleanup :: "kem_demo \<Rightarrow> world \<Rightarrow> world option" where
  "kem_demo_cleanup s w =
     do {
       w \<leftarrow> (if kd_kem s
             then do { w \<leftarrow> oqs_free (kd_secret_key s) w; w \<leftarrow> oqs_free (kd_shared_secret_e s) w;
                       oqs_free (kd_shared_secret_d s) w }
             else Some w);
       w \<leftarrow> oqs_free (kd_public_key s) w;
       w \<leftarrow> oqs_free (kd_ciphertext s) w;
       free_if (kd_kem s) H_KEM w
     }"

definition kem_demo_phases :: "('c, 'm) lib \<Rightarrow> kem_demo phase list" where
  "kem_demo_phases L = [kem_demo_alloc L, kem_demo_keypair L, kem_demo_encaps L, kem_demo_decaps L, kem_demo_compare L]"

definition kem_demo_main :: "('c, 'm) lib \<Rightarrow> world \<Rightarrow> (int \<times> bool option \<times> world) option" where
  "kem_demo_main L w =
     (let (ok, w) = acquire L H_KEM w;
          s = \<lparr>kd_kem = ok, kd_public_key = None, kd_secret_key = None, kd_ciphertext = None,
               kd_shared_secret_e = None, kd_shared_secret_d = None, kd_match = None\<rparr>
      in if \<not> ok then Some (OQS_ERROR, None, w)
         else do {
           (ok, s, w) \<leftarrow> run_phases (kem_demo_phases L) s w;
           w \<leftarrow> kem_demo_cleanup s w;
           Some (if ok then OQS_SUCCESS else OQS_ERROR, kd_match s, w)
         })"

subsection \<open>The phases\<close>

definition kem_demo_held :: "kem_demo \<Rightarrow> handle \<Rightarrow> nat" where
  "kem_demo_held s = (\<lambda>_. 0)(H_KEM := nb (kd_kem s), H_OQS_MEM :=
     ptrs [kd_public_key s, kd_secret_key s, kd_ciphertext s, kd_shared_secret_e s, kd_shared_secret_d s])"

definition kem_demo_inv :: "world \<Rightarrow> kem_demo \<Rightarrow> world \<Rightarrow> bool" where
  "kem_demo_inv w0 s w \<longleftrightarrow> live w = (\<lambda>h. live w0 h + kem_demo_held s h) \<and> kd_kem s"

text \<open>With buffers of the scheme's sizes, after \<open>d\<close> draws of random bytes.\<close>

definition kem_demo_has :: "('c, 'm) lib \<Rightarrow> world \<Rightarrow> nat \<Rightarrow> bytes \<Rightarrow> bytes \<Rightarrow> bytes \<Rightarrow> bytes \<Rightarrow> bytes \<Rightarrow> kem_demo \<Rightarrow> world \<Rightarrow> bool" where
  "kem_demo_has L w0 d pk sk ct e x s w \<longleftrightarrow>
     kem_demo_inv w0 s w \<and> rng w = rng w0 + d \<and> kd_match s = None \<and>
     kd_public_key s = Some pk \<and> kd_secret_key s = Some sk \<and> kd_ciphertext s = Some ct \<and>
     kd_shared_secret_e s = Some e \<and> kd_shared_secret_d s = Some x \<and>
     length pk = unat (kem_len_pk L) \<and> length sk = unat (kem_len_sk L) \<and> length ct = unat (kem_len_ct L) \<and>
     length e = unat (kem_len_ss L) \<and> length x = unat (kem_len_ss L)"

abbreviation "kem_demo_start \<equiv> \<lambda>w0 s w. kem_demo_inv w0 s w \<and> rng w = rng w0 \<and> kd_match s = None \<and> kd_public_key s = None \<and>
     kd_secret_key s = None \<and> kd_ciphertext s = None \<and> kd_shared_secret_e s = None \<and> kd_shared_secret_d s = None"

lemma kem_demo_alloc_ok:
  assumes "G \<longrightarrow> lib_up L"
  shows "phase_ok (\<lambda>s w. kem_demo_inv w0 s w \<and> kd_match s = None) (kem_demo_start w0) (kem_demo_alloc L)
     (\<lambda>s w. \<exists>pk sk ct e x. kem_demo_has L w0 0 pk sk ct e x s w) G"
proof (rule phase_okI)
  fix s w assume P: "kem_demo_start w0 s w"
  obtain p1 w1 p2 w2 p3 w3 p4 w4 p5 w5 where m: "oqs_malloc L (kem_len_pk L) w = (p1, w1)"
    "oqs_malloc L (kem_len_sk L) w1 = (p2, w2)" "oqs_malloc L (kem_len_ct L) w2 = (p3, w3)"
    "oqs_malloc L (kem_len_ss L) w3 = (p4, w4)" "oqs_malloc L (kem_len_ss L) w4 = (p5, w5)" by fastforce
  note a = oqs_malloc_spec [OF m(1)] oqs_malloc_spec [OF m(2)] oqs_malloc_spec [OF m(3)] oqs_malloc_spec [OF m(4)]
    oqs_malloc_spec [OF m(5)]
  let ?s = "s\<lparr>kd_public_key := p1, kd_secret_key := p2, kd_ciphertext := p3, kd_shared_secret_e := p4, kd_shared_secret_d := p5\<rparr>"
  have eq: "kem_demo_alloc L s w = Some (\<not> (p1 = None \<or> p2 = None \<or> p3 = None \<or> p4 = None \<or> p5 = None), ?s, w5)"
    by (simp add: kem_demo_alloc_def m)
  have I: "kem_demo_inv w0 ?s w5" using P a by (simp add: kem_demo_inv_def kem_demo_held_def) (simp add: fun_eq_iff)
  have r: "rng w5 = rng w0" using P a by (simp add: frame_def)
  have "\<exists>pk sk ct e x. kem_demo_has L w0 0 pk sk ct e x ?s w5"
    if "p1 \<noteq> None" "p2 \<noteq> None" "p3 \<noteq> None" "p4 \<noteq> None" "p5 \<noteq> None"
    using I r P a that by (auto simp: kem_demo_has_def)
  with I P a assms show "ends (\<lambda>s w. kem_demo_inv w0 s w \<and> kd_match s = None)
      (\<lambda>s w. \<exists>pk sk ct e x. kem_demo_has L w0 0 pk sk ct e x s w) G (kem_demo_alloc L s w)"
    unfolding eq by auto
qed

lemma kem_demo_has_step:
  assumes "kem_demo_has L w0 d pk sk ct e x s w" and "frame w [] [] n w'" "live w' = live w"
    and "length pk' = length pk" "length sk' = length sk" "length ct' = length ct" "length e' = length e" "length x' = length x"
    and "s' = s\<lparr>kd_public_key := Some pk', kd_secret_key := Some sk', kd_ciphertext := Some ct', kd_shared_secret_e := Some e',
       kd_shared_secret_d := Some x'\<rparr>"
  shows "kem_demo_has L w0 (d + n) pk' sk' ct' e' x' s' w'"
proof -
  have "kem_demo_held s' = kem_demo_held s" using assms(1,9) by (simp add: kem_demo_held_def kem_demo_has_def)
  then show ?thesis using assms by (simp add: kem_demo_has_def kem_demo_inv_def frame_def)
qed

lemma kem_demo_keypair_ok:
  assumes "oqs_correct L" and "G \<longrightarrow> lib_up L"
  shows "phase_ok (\<lambda>s w. kem_demo_inv w0 s w \<and> kd_match s = None)
     (\<lambda>s w. \<exists>pk sk ct e x. kem_demo_has L w0 0 pk sk ct e x s w) (kem_demo_keypair L)
     (\<lambda>s w. \<exists>pk sk ct e x. kem_demo_has L w0 1 pk sk ct e x s w \<and> kem_keypair L (rng w0) = (pk, sk)) G"
proof (rule phase_okI, elim exE)
  fix s w pk sk ct e x assume H: "kem_demo_has L w0 0 pk sk ct e x s w"
  then have l: "length pk = unat (kem_len_pk L)" "length sk = unat (kem_len_sk L)" and r0: "rng w = rng w0"
    and v: "kd_public_key s = Some pk" "kd_secret_key s = Some sk" "kd_ciphertext s = Some ct" "kd_shared_secret_e s = Some e"
      "kd_shared_secret_d s = Some x" by (simp_all add: kem_demo_has_def)
  obtain ok p k w1 where r: "oqs_kem_keypair L (Some pk) (Some sk) w = Some (ok, Some p, Some k, w1)"
    "frame w [] [] 1 w1" "live w1 = live w" "length p = length pk" "length k = length sk"
    "ok \<Longrightarrow> kem_keypair L (rng w) = (p, k)" "lib_up L \<Longrightarrow> ok"
    by (rule keypair_ok [OF assms(1) l, where w = w]) (rule that)
  let ?s = "s\<lparr>kd_public_key := Some p, kd_secret_key := Some k\<rparr>"
  have "kem_demo_has L w0 1 p k ct e x ?s w1"
    using kem_demo_has_step [OF H r(2,3,4,5) refl refl refl, of ?s] v by simp
  moreover from this have "kem_demo_inv w0 ?s w1" "kd_match ?s = None" by (simp_all add: kem_demo_has_def)
  moreover have "kem_demo_keypair L s w = Some (ok, ?s, w1)" using r(1) v by (simp add: kem_demo_keypair_def)
  ultimately show "ends (\<lambda>s w. kem_demo_inv w0 s w \<and> kd_match s = None)
     (\<lambda>s w. \<exists>pk sk ct e x. kem_demo_has L w0 1 pk sk ct e x s w \<and> kem_keypair L (rng w0) = (pk, sk)) G (kem_demo_keypair L s w)"
    using r(6,7) r0 assms(2) by auto
qed

lemma kem_demo_encaps_ok:
  assumes "oqs_correct L" and "G \<longrightarrow> lib_up L"
  shows "phase_ok (\<lambda>s w. kem_demo_inv w0 s w \<and> kd_match s = None)
     (\<lambda>s w. \<exists>pk sk ct e x. kem_demo_has L w0 1 pk sk ct e x s w \<and> kem_keypair L (rng w0) = (pk, sk)) (kem_demo_encaps L)
     (\<lambda>s w. \<exists>pk sk ct e x. kem_demo_has L w0 2 pk sk ct e x s w \<and> kem_keypair L (rng w0) = (pk, sk) \<and>
        kem_encaps L (Suc (rng w0)) pk = (ct, e)) G"
proof (rule phase_okI, elim exE conjE)
  fix s w pk sk ct e x assume H: "kem_demo_has L w0 1 pk sk ct e x s w" and kp: "kem_keypair L (rng w0) = (pk, sk)"
  then have l: "length pk = unat (kem_len_pk L)" "length ct = unat (kem_len_ct L)" "length e = unat (kem_len_ss L)"
    and r0: "rng w = Suc (rng w0)"
    and v: "kd_public_key s = Some pk" "kd_secret_key s = Some sk" "kd_ciphertext s = Some ct" "kd_shared_secret_e s = Some e"
      "kd_shared_secret_d s = Some x" by (simp_all add: kem_demo_has_def)
  obtain ok c k w1 where r: "oqs_kem_encaps L (Some ct) (Some e) (Some pk) w = Some (ok, Some c, Some k, w1)"
    "frame w [] [] 1 w1" "live w1 = live w" "length c = length ct" "length k = length e"
    "ok \<Longrightarrow> kem_encaps L (rng w) pk = (c, k)" "lib_up L \<Longrightarrow> ok"
    by (rule encaps_ok [OF assms(1) l, where w = w]) (rule that)
  let ?s = "s\<lparr>kd_ciphertext := Some c, kd_shared_secret_e := Some k\<rparr>"
  have "kem_demo_has L w0 2 pk sk c k x ?s w1"
    using kem_demo_has_step [OF H r(2,3) refl refl r(4,5) refl, of ?s] v by (simp add: numeral_2_eq_2)
  moreover from this have "kem_demo_inv w0 ?s w1" "kd_match ?s = None" by (simp_all add: kem_demo_has_def)
  moreover have "kem_demo_encaps L s w = Some (ok, ?s, w1)" using r(1) v by (simp add: kem_demo_encaps_def)
  ultimately show "ends (\<lambda>s w. kem_demo_inv w0 s w \<and> kd_match s = None)
     (\<lambda>s w. \<exists>pk sk ct e x. kem_demo_has L w0 2 pk sk ct e x s w \<and> kem_keypair L (rng w0) = (pk, sk) \<and>
        kem_encaps L (Suc (rng w0)) pk = (ct, e)) G (kem_demo_encaps L s w)"
    using r(6,7) r0 assms(2) kp by auto
qed

lemma kem_demo_decaps_ok:
  assumes "oqs_correct L" and "G \<longrightarrow> lib_up L"
  shows "phase_ok (\<lambda>s w. kem_demo_inv w0 s w \<and> kd_match s = None)
     (\<lambda>s w. \<exists>pk sk ct e x. kem_demo_has L w0 2 pk sk ct e x s w \<and> kem_keypair L (rng w0) = (pk, sk) \<and>
        kem_encaps L (Suc (rng w0)) pk = (ct, e)) (kem_demo_decaps L)
     (\<lambda>s w. \<exists>pk sk ct e. kem_demo_has L w0 2 pk sk ct e (kem_decaps L ct sk) s w \<and> kem_keypair L (rng w0) = (pk, sk) \<and>
        kem_encaps L (Suc (rng w0)) pk = (ct, e)) G"
proof (rule phase_okI, elim exE conjE)
  fix s w pk sk ct e x assume H: "kem_demo_has L w0 2 pk sk ct e x s w"
    and kp: "kem_keypair L (rng w0) = (pk, sk)" "kem_encaps L (Suc (rng w0)) pk = (ct, e)"
  then have l: "length ct = unat (kem_len_ct L)" "length sk = unat (kem_len_sk L)" "length x = unat (kem_len_ss L)"
    and v: "kd_public_key s = Some pk" "kd_secret_key s = Some sk" "kd_ciphertext s = Some ct" "kd_shared_secret_e s = Some e"
      "kd_shared_secret_d s = Some x" by (simp_all add: kem_demo_has_def)
  obtain ok k w1 where r: "oqs_kem_decaps L (Some x) (Some ct) (Some sk) w = Some (ok, Some k, w1)"
    "frame w [] [] 0 w1" "live w1 = live w" "length k = length x" "ok \<Longrightarrow> k = kem_decaps L ct sk" "lib_up L \<Longrightarrow> ok"
    by (rule decaps_ok [OF assms(1) l, where w = w]) (rule that)
  let ?s = "s\<lparr>kd_shared_secret_d := Some k\<rparr>"
  have K: "kem_demo_has L w0 2 pk sk ct e k ?s w1"
    using kem_demo_has_step [OF H r(2,3) refl refl refl refl r(4), of ?s] v by simp
  then have "kem_demo_inv w0 ?s w1" "kd_match ?s = None" by (simp_all add: kem_demo_has_def)
  moreover have "kem_demo_decaps L s w = Some (ok, ?s, w1)" using r(1) v by (simp add: kem_demo_decaps_def)
  ultimately show "ends (\<lambda>s w. kem_demo_inv w0 s w \<and> kd_match s = None)
     (\<lambda>s w. \<exists>pk sk ct e. kem_demo_has L w0 2 pk sk ct e (kem_decaps L ct sk) s w \<and> kem_keypair L (rng w0) = (pk, sk) \<and>
        kem_encaps L (Suc (rng w0)) pk = (ct, e)) G (kem_demo_decaps L s w)"
    using r(5,6) assms(2) kp K by auto
qed

text \<open>The whole of it, with the verdict.\<close>

definition kem_verdict :: "('c, 'm) lib \<Rightarrow> nat \<Rightarrow> bool" where
  "kem_verdict L n =
     (let (pk, sk) = kem_keypair L n; (ct, e) = kem_encaps L (Suc n) pk in kem_decaps L ct sk = e)"

lemma kem_demo_held_match [simp]: "kem_demo_held (s\<lparr>kd_match := m\<rparr>) = kem_demo_held s"
  by (simp add: kem_demo_held_def)

lemma kem_demo_compare_ok:
  assumes "I = (\<lambda>s w. kem_demo_inv w0 s w \<and> kd_match s \<in> {None, Some (kem_verdict L (rng w0))})"
  shows "phase_ok I
     (\<lambda>s w. \<exists>pk sk ct e. kem_demo_has L w0 2 pk sk ct e (kem_decaps L ct sk) s w \<and> kem_keypair L (rng w0) = (pk, sk) \<and>
        kem_encaps L (Suc (rng w0)) pk = (ct, e)) (kem_demo_compare L)
     (\<lambda>s w. kem_demo_inv w0 s w \<and> kd_match s = Some (kem_verdict L (rng w0))) G"
  by (rule phase_okI) (auto simp: assms kem_demo_compare_def kem_demo_has_def kem_demo_inv_def kem_verdict_def rd_def)

lemma kem_demo_phases_ok:
  assumes "oqs_correct L" and "G \<longrightarrow> lib_up L"
  shows "phase_ok (\<lambda>s w. kem_demo_inv w0 s w \<and> kd_match s \<in> {None, Some (kem_verdict L (rng w0))})
     (kem_demo_start w0) (run_phases (kem_demo_phases L))
     (\<lambda>s w. kem_demo_inv w0 s w \<and> kd_match s = Some (kem_verdict L (rng w0))) G"
  unfolding kem_demo_phases_def
  by (rule run_phases_ok_Cons [OF phase_ok_inv [OF kem_demo_alloc_ok [OF assms(2)]]], simp,
      rule run_phases_ok_Cons [OF phase_ok_inv [OF kem_demo_keypair_ok [OF assms]]], simp,
      rule run_phases_ok_Cons [OF phase_ok_inv [OF kem_demo_encaps_ok [OF assms]]], simp,
      rule run_phases_ok_Cons [OF phase_ok_inv [OF kem_demo_decaps_ok [OF assms]]], simp,
      rule run_phases_ok_Cons [OF kem_demo_compare_ok [OF refl]], rule run_phases_ok_Nil) simp

subsection \<open>Properties\<close>

text \<open>C36: the KEM demonstration always ends and releases everything it acquired; it returns
  \<open>OQS_SUCCESS\<close> exactly when every call succeeded, and has then compared the two secrets of one key
  pair and one encapsulation: the verdict it prints is right, but a mismatch does not change the
  exit code.\<close>

theorem kem_demo_main_correct:
  assumes "oqs_correct L"
  shows "\<exists>rc m w'. kem_demo_main L w = Some (rc, m, w') \<and> live w' = live w \<and>
     (rc = OQS_SUCCESS \<and> m = Some (kem_verdict L (rng w)) \<or> rc = OQS_ERROR \<and> \<not> lib_up L)"
proof -
  obtain ok w1 where a: "acquire L H_KEM w = (ok, w1)" by fastforce
  note sp = acquire_spec [OF a]
  let ?s = "\<lparr>kd_kem = ok, kd_public_key = None, kd_secret_key = None, kd_ciphertext = None,
       kd_shared_secret_e = None, kd_shared_secret_d = None, kd_match = None\<rparr>"
  show ?thesis
  proof (cases ok)
    case False
    with a have "kem_demo_main L w = Some (OQS_ERROR, None, w1)" by (simp add: kem_demo_main_def)
    with sp False show ?thesis by auto
  next
    case True
    have P: "kem_demo_start w ?s w1" using sp True by (auto simp: kem_demo_inv_def kem_demo_held_def frame_def)
    have up: "lib_up L \<longrightarrow> lib_up L" by simp
    have "ends (\<lambda>s w'. kem_demo_inv w s w' \<and> kd_match s \<in> {None, Some (kem_verdict L (rng w))})
        (\<lambda>s w'. kem_demo_inv w s w' \<and> kd_match s = Some (kem_verdict L (rng w))) (lib_up L) (run_phases (kem_demo_phases L) ?s w1)"
      by (rule phase_okD [OF kem_demo_phases_ok [OF assms up]]) (rule P)
    then obtain ok2 s2 w2 where
      r: "run_phases (kem_demo_phases L) ?s w1 = Some (ok2, s2, w2)"
        "kem_demo_inv w s2 w2 \<and> kd_match s2 \<in> {None, Some (kem_verdict L (rng w))}"
        "ok2 \<Longrightarrow> kem_demo_inv w s2 w2 \<and> kd_match s2 = Some (kem_verdict L (rng w))" "lib_up L \<Longrightarrow> ok2"
      by (rule endsE) (rule that, assumption+)
    have "kem_demo_cleanup s2 w2 = Some (w2\<lparr>live := live w\<rparr>)"
      using r(2) by (simp add: kem_demo_cleanup_def oqs_free_def free_if_live kem_demo_inv_def kem_demo_held_def release_def)
        (simp add: fun_eq_iff)
    then have "kem_demo_main L w = Some (if ok2 then OQS_SUCCESS else OQS_ERROR, kd_match s2, w2\<lparr>live := live w\<rparr>)"
      using True a r(1) by (simp add: kem_demo_main_def)
    with r(3,4) show ?thesis by (cases ok2) auto
  qed
qed

text \<open>A library whose decapsulation is wrong: the demonstration still succeeds.\<close>

theorem kem_demo_main_correct_witness:
  "\<exists>w'. kem_demo_main (sample_lib\<lparr>kem_decaps := \<lambda>_ _. [9, 9]\<rparr>) (sample_world []) = Some (OQS_SUCCESS, Some False, w') \<and>
     live w' = live (sample_world [])"
proof -
  let ?L = "sample_lib\<lparr>kem_decaps := \<lambda>_ _. [9, 9]\<rparr>"
  have "oqs_correct ?L" using sample_oqs_correct by (simp add: oqs_correct_def)
  moreover have "lib_up ?L" using sample_lib_up by (simp add: lib_up_def)
  moreover have "kem_verdict ?L (rng (sample_world [])) = False" by (simp add: kem_verdict_def pad_def)
  ultimately show ?thesis using kem_demo_main_correct [of ?L "sample_world []"] by auto
qed

end
