(* ===== verification/Sig_Demo.thy ===== *)
theory Sig_Demo
  imports Endpoint
begin

section \<open>The signature demonstration (\<open>demo/sig_demo.c\<close>)\<close>

text \<open>
  A random message of 50 bytes is signed, printed and verified. The message is printed with
  \<open>%s\<close>, which reads up to the first NUL byte: a message without one makes \<open>printf\<close> read past its
  heap block, undefined behaviour, \<^term>\<open>None\<close> here. As in the KEM demonstration, the error exits
  all free the same variables and return \<open>OQS_ERROR\<close>.
\<close>

definition MESSAGE_LEN :: size_t where
  "MESSAGE_LEN = 50"

record sig_demo =
  sd_sig :: bool
  sd_public_key :: ptr
  sd_secret_key :: ptr
  sd_message :: ptr
  sd_signature :: ptr
  sd_signature_len :: size_t

definition sig_demo_alloc :: "('c, 'm) lib \<Rightarrow> sig_demo phase" where
  "sig_demo_alloc L s w =
     (let (p1, w) = oqs_malloc L (sig_len_pk L) w;
          (p2, w) = oqs_malloc L (sig_len_sk L) w;
          (p3, w) = oqs_malloc L (sig_len_sig L) w;
          (p4, w) = oqs_malloc L MESSAGE_LEN w;
          s = s\<lparr>sd_public_key := p1, sd_secret_key := p2, sd_signature := p3, sd_message := p4\<rparr>
      in Some (\<not> (p1 = None \<or> p2 = None \<or> p4 = None \<or> p3 = None), s, w))"

definition sig_demo_keypair :: "('c, 'm) lib \<Rightarrow> sig_demo phase" where
  "sig_demo_keypair L s w =
     do {
       m \<leftarrow> sd_message s;
       m \<leftarrow> wr m 0 (rand_bytes L (rng w) (unat MESSAGE_LEN));
       let w = w\<lparr>rng := Suc (rng w)\<rparr>;
       let s = s\<lparr>sd_message := Some m\<rparr>;
       (ok, p, k, w) \<leftarrow> oqs_sig_keypair L (sd_public_key s) (sd_secret_key s) w;
       Some (ok, s\<lparr>sd_public_key := p, sd_secret_key := k\<rparr>, w)
     }"

definition sig_demo_sign :: "('c, 'm) lib \<Rightarrow> sig_demo phase" where
  "sig_demo_sign L s w =
     do {
       m \<leftarrow> sd_message s;
       (ok, b, l, w) \<leftarrow> oqs_sig_sign L (sd_signature s) (sd_signature_len s) m MESSAGE_LEN (sd_secret_key s) w;
       let s = s\<lparr>sd_signature := b, sd_signature_len := l\<rparr>;
       if \<not> ok then Some (False, s, w)
       else do {
         printed \<leftarrow> print_cstr m;
         Some (True, s, w)
       }
     }"

definition sig_demo_verify :: "('c, 'm) lib \<Rightarrow> sig_demo phase" where
  "sig_demo_verify L s w =
     do {
       m \<leftarrow> sd_message s;
       (ok, w) \<leftarrow> oqs_sig_verify L m MESSAGE_LEN (sd_signature s) (sd_signature_len s) (sd_public_key s) w;
       Some (ok, s, w)
     }"

definition sig_demo_cleanup :: "sig_demo \<Rightarrow> world \<Rightarrow> world option" where
  "sig_demo_cleanup s w =
     do {
       w \<leftarrow> (if sd_sig s then oqs_free (sd_secret_key s) w else Some w);
       w \<leftarrow> oqs_free (sd_public_key s) w;
       w \<leftarrow> oqs_free (sd_message s) w;
       w \<leftarrow> oqs_free (sd_signature s) w;
       free_if (sd_sig s) H_SIG w
     }"

definition sig_demo_phases :: "('c, 'm) lib \<Rightarrow> sig_demo phase list" where
  "sig_demo_phases L = [sig_demo_alloc L, sig_demo_keypair L, sig_demo_sign L, sig_demo_verify L]"

definition sig_demo_main :: "('c, 'm) lib \<Rightarrow> world \<Rightarrow> (int \<times> world) option" where
  "sig_demo_main L w =
     (let (ok, w) = acquire L H_SIG w;
          s = \<lparr>sd_sig = ok, sd_public_key = None, sd_secret_key = None, sd_message = None,
               sd_signature = None, sd_signature_len = 0\<rparr>
      in if \<not> ok then Some (- 1, w)
         else do {
           (ok, s, w) \<leftarrow> run_phases (sig_demo_phases L) s w;
           w \<leftarrow> sig_demo_cleanup s w;
           Some (if ok then 0 else - 1, w)
         })"

subsection \<open>The phases\<close>

definition sig_demo_held :: "sig_demo \<Rightarrow> handle \<Rightarrow> nat" where
  "sig_demo_held s = (\<lambda>_. 0)(H_SIG := nb (sd_sig s), H_OQS_MEM :=
     ptrs [sd_public_key s, sd_secret_key s, sd_message s, sd_signature s])"

definition sig_demo_inv :: "world \<Rightarrow> sig_demo \<Rightarrow> world \<Rightarrow> bool" where
  "sig_demo_inv w0 s w \<longleftrightarrow> live w = (\<lambda>h. live w0 h + sig_demo_held s h) \<and> sd_sig s"

definition sig_demo_has :: "('c, 'm) lib \<Rightarrow> world \<Rightarrow> nat \<Rightarrow> bytes \<Rightarrow> bytes \<Rightarrow> bytes \<Rightarrow> bytes \<Rightarrow> sig_demo \<Rightarrow> world \<Rightarrow> bool" where
  "sig_demo_has L w0 d pk sk m b s w \<longleftrightarrow>
     sig_demo_inv w0 s w \<and> rng w = rng w0 + d \<and>
     sd_public_key s = Some pk \<and> sd_secret_key s = Some sk \<and> sd_message s = Some m \<and> sd_signature s = Some b \<and>
     length pk = unat (sig_len_pk L) \<and> length sk = unat (sig_len_sk L) \<and> length m = unat MESSAGE_LEN \<and>
     length b = unat (sig_len_sig L)"

lemma sig_demo_alloc_ok:
  assumes "G \<longrightarrow> lib_up L"
  shows "phase_ok (sig_demo_inv w0)
     (\<lambda>s w. sig_demo_inv w0 s w \<and> rng w = rng w0 \<and> sd_public_key s = None \<and> sd_secret_key s = None \<and>
        sd_message s = None \<and> sd_signature s = None)
     (sig_demo_alloc L) (\<lambda>s w. \<exists>pk sk m b. sig_demo_has L w0 0 pk sk m b s w) G"
proof (rule phase_okI)
  fix s w assume P: "sig_demo_inv w0 s w \<and> rng w = rng w0 \<and> sd_public_key s = None \<and> sd_secret_key s = None \<and>
        sd_message s = None \<and> sd_signature s = None"
  obtain p1 w1 p2 w2 p3 w3 p4 w4 where m: "oqs_malloc L (sig_len_pk L) w = (p1, w1)"
    "oqs_malloc L (sig_len_sk L) w1 = (p2, w2)" "oqs_malloc L (sig_len_sig L) w2 = (p3, w3)"
    "oqs_malloc L MESSAGE_LEN w3 = (p4, w4)" by fastforce
  note a = oqs_malloc_spec [OF m(1)] oqs_malloc_spec [OF m(2)] oqs_malloc_spec [OF m(3)] oqs_malloc_spec [OF m(4)]
  let ?s = "s\<lparr>sd_public_key := p1, sd_secret_key := p2, sd_signature := p3, sd_message := p4\<rparr>"
  have eq: "sig_demo_alloc L s w = Some (\<not> (p1 = None \<or> p2 = None \<or> p4 = None \<or> p3 = None), ?s, w4)"
    by (simp add: sig_demo_alloc_def m)
  have I: "sig_demo_inv w0 ?s w4" using P a by (simp add: sig_demo_inv_def sig_demo_held_def) (simp add: fun_eq_iff)
  have r: "rng w4 = rng w0" using P a by (simp add: frame_def)
  have "\<exists>pk sk m b. sig_demo_has L w0 0 pk sk m b ?s w4"
    if "p1 \<noteq> None" "p2 \<noteq> None" "p3 \<noteq> None" "p4 \<noteq> None"
    using I r a that by (auto simp: sig_demo_has_def)
  with I a assms show "ends (sig_demo_inv w0) (\<lambda>s w. \<exists>pk sk m b. sig_demo_has L w0 0 pk sk m b s w) G (sig_demo_alloc L s w)"
    unfolding eq by auto
qed

lemma sig_demo_has_step:
  assumes "sig_demo_has L w0 d pk sk m b s w" and "rng w' = rng w + n" "live w' = live w"
    and "length pk' = length pk" "length sk' = length sk" "length m' = length m" "length b' = length b"
    and "s' = s\<lparr>sd_public_key := Some pk', sd_secret_key := Some sk', sd_message := Some m', sd_signature := Some b',
       sd_signature_len := l\<rparr>" and "d' = d + n"
  shows "sig_demo_has L w0 d' pk' sk' m' b' s' w'"
proof -
  have "sig_demo_held s' = sig_demo_held s" using assms(1,8) by (simp add: sig_demo_held_def sig_demo_has_def)
  then show ?thesis using assms by (simp add: sig_demo_has_def sig_demo_inv_def)
qed

text \<open>The sizes of random data and keys.\<close>

definition sig_demo_lib :: "('c, 'm) lib \<Rightarrow> bool" where
  "sig_demo_lib L \<longleftrightarrow> oqs_correct L \<and> sig_sizes L \<and> (\<forall>n k. length (rand_bytes L n k) = k)"

lemma sig_demo_keypair_ok:
  assumes lib: "sig_demo_lib L" and G: "G \<longrightarrow> lib_up L"
  shows "phase_ok (sig_demo_inv w0) (\<lambda>s w. \<exists>pk sk m b. sig_demo_has L w0 0 pk sk m b s w) (sig_demo_keypair L)
     (\<lambda>s w. \<exists>pk sk m b. sig_demo_has L w0 2 pk sk m b s w \<and> m = rand_bytes L (rng w0) 50 \<and>
        sig_keypair L (Suc (rng w0)) = (pk, sk)) G"
proof (rule phase_okI, elim exE)
  fix s w pk sk m b assume H: "sig_demo_has L w0 0 pk sk m b s w"
  let ?m = "rand_bytes L (rng w) 50" and ?w = "w\<lparr>rng := Suc (rng w)\<rparr>"
  from H have l: "length pk = unat (sig_len_pk L)" "length sk = unat (sig_len_sk L)" "length ?m = length m"
    and r0: "rng w = rng w0"
    and v: "sd_public_key s = Some pk" "sd_secret_key s = Some sk" "sd_message s = Some m" "sd_signature s = Some b"
    using lib by (simp_all add: sig_demo_has_def sig_demo_lib_def MESSAGE_LEN_def)
  obtain ok p k w1 where r: "oqs_sig_keypair L (Some pk) (Some sk) ?w = Some (ok, Some p, Some k, w1)"
    "frame ?w [] [] 1 w1" "live w1 = live ?w" "length p = length pk" "length k = length sk"
    "ok \<Longrightarrow> sig_keypair L (rng ?w) = (p, k)" "lib_up L \<Longrightarrow> ok"
    using lib by (auto simp: sig_demo_lib_def intro: sig_keypair_ok [OF _ l(1,2), where w = ?w])
  let ?s = "s\<lparr>sd_message := Some ?m, sd_public_key := Some p, sd_secret_key := Some k\<rparr>"
  have "rng w1 = rng w + 2" "live w1 = live w" using r(2,3) by (simp_all add: frame_def)
  then have K: "sig_demo_has L w0 2 p k ?m b ?s w1"
    by (intro sig_demo_has_step [OF H _ _ r(4,5) l(3) refl, of w1 2 ?s "sd_signature_len s"]) (simp_all add: v)
  moreover from this have "sig_demo_inv w0 ?s w1" by (simp add: sig_demo_has_def)
  moreover have "sig_demo_keypair L s w = Some (ok, ?s, w1)" using r(1) v l(3) by (simp add: sig_demo_keypair_def wr_all MESSAGE_LEN_def)
  ultimately show "ends (sig_demo_inv w0) (\<lambda>s w. \<exists>pk sk m b. sig_demo_has L w0 2 pk sk m b s w \<and> m = rand_bytes L (rng w0) 50 \<and>
        sig_keypair L (Suc (rng w0)) = (pk, sk)) G (sig_demo_keypair L s w)"
    using r(6,7) r0 G by auto
qed

lemma sig_demo_sign_ok:
  assumes lib: "sig_demo_lib L" and G: "G \<longrightarrow> lib_up L" and nul: "0 \<in> set (rand_bytes L (rng w0) 50)"
  shows "phase_ok (sig_demo_inv w0)
     (\<lambda>s w. \<exists>pk sk m b. sig_demo_has L w0 2 pk sk m b s w \<and> m = rand_bytes L (rng w0) 50 \<and>
        sig_keypair L (Suc (rng w0)) = (pk, sk)) (sig_demo_sign L)
     (\<lambda>s w. \<exists>pk sk m b. sig_demo_has L w0 3 pk sk m b s w \<and> m = rand_bytes L (rng w0) 50 \<and>
        sig_keypair L (Suc (rng w0)) = (pk, sk) \<and> unat (sd_signature_len s) \<le> length b \<and>
        take (unat (sd_signature_len s)) b = sig_sign L (rng w0 + 2) m sk) G"
proof (rule phase_okI, elim exE conjE)
  fix s w pk sk m b
  assume H: "sig_demo_has L w0 2 pk sk m b s w" and m: "m = rand_bytes L (rng w0) 50"
    and kp: "sig_keypair L (Suc (rng w0)) = (pk, sk)"
  from H have l: "length m = unat MESSAGE_LEN" "length sk = unat (sig_len_sk L)" "length b = unat (sig_len_sig L)"
    and r0: "rng w = rng w0 + 2"
    and v: "sd_public_key s = Some pk" "sd_secret_key s = Some sk" "sd_message s = Some m" "sd_signature s = Some b"
    by (simp_all add: sig_demo_has_def)
  from lib have oqs: "oqs_correct L" by (simp add: sig_demo_lib_def)
  obtain ok b' l' w1 where r: "oqs_sig_sign L (Some b) (sd_signature_len s) m MESSAGE_LEN (Some sk) w = Some (ok, Some b', l', w1)"
    "frame w [] [] 1 w1" "live w1 = live w" "length b' = length b"
    "ok \<Longrightarrow> take (unat l') b' = sig_sign L (rng w) m sk \<and> unat l' = length (sig_sign L (rng w) m sk) \<and> unat l' \<le> length b"
    "lib_up L \<Longrightarrow> ok"
    by (rule sign_ok [OF oqs l, where l = "sd_signature_len s" and w = w]) (rule that)
  let ?s = "s\<lparr>sd_signature := Some b', sd_signature_len := l'\<rparr>"
  have "rng w1 = rng w + 1" using r(2) by (simp add: frame_def)
  then have K: "sig_demo_has L w0 3 pk sk m b' ?s w1"
    by (intro sig_demo_has_step [OF H _ r(3) refl refl refl r(4), of 1 ?s l']) (simp_all add: v)
  moreover from this have "sig_demo_inv w0 ?s w1" by (simp add: sig_demo_has_def)
  moreover have "sig_demo_sign L s w = Some (ok, ?s, w1)"
    using r(1) v nul by (cases ok) (simp_all add: sig_demo_sign_def print_cstr_def m Let_def)
  moreover have "\<exists>pk sk m b. sig_demo_has L w0 3 pk sk m b ?s w1 \<and> m = rand_bytes L (rng w0) 50 \<and>
        sig_keypair L (Suc (rng w0)) = (pk, sk) \<and> unat (sd_signature_len ?s) \<le> length b \<and>
        take (unat (sd_signature_len ?s)) b = sig_sign L (rng w0 + 2) m sk" if ok
    by (rule exI [of _ pk], rule exI [of _ sk], rule exI [of _ m], rule exI [of _ b'])
      (use K m kp r(4) r(5) [OF that, THEN conjunct1] r(5) [OF that, THEN conjunct2, THEN conjunct2] r0 in simp)
  ultimately show "ends (sig_demo_inv w0) (\<lambda>s w. \<exists>pk sk m b. sig_demo_has L w0 3 pk sk m b s w \<and> m = rand_bytes L (rng w0) 50 \<and>
        sig_keypair L (Suc (rng w0)) = (pk, sk) \<and> unat (sd_signature_len s) \<le> length b \<and>
        take (unat (sd_signature_len s)) b = sig_sign L (rng w0 + 2) m sk) G (sig_demo_sign L s w)"
    using r(6) G by (simp only: ends_Some) blast
qed

text \<open>Whether the signature of the message verifies under the key pair.\<close>

definition sig_verdict :: "('c, 'm) lib \<Rightarrow> nat \<Rightarrow> bool" where
  "sig_verdict L n =
     (let m = rand_bytes L n 50; (pk, sk) = sig_keypair L (Suc n) in sig_verify L m (sig_sign L (n + 2) m sk) pk)"

lemma sig_demo_verify_ok:
  assumes G: "G \<longrightarrow> lib_up L \<and> sig_verdict L (rng w0)"
  shows "phase_ok (sig_demo_inv w0)
     (\<lambda>s w. \<exists>pk sk m b. sig_demo_has L w0 3 pk sk m b s w \<and> m = rand_bytes L (rng w0) 50 \<and>
        sig_keypair L (Suc (rng w0)) = (pk, sk) \<and> unat (sd_signature_len s) \<le> length b \<and>
        take (unat (sd_signature_len s)) b = sig_sign L (rng w0 + 2) m sk) (sig_demo_verify L)
     (\<lambda>s w. sig_demo_inv w0 s w \<and> sig_verdict L (rng w0)) G"
proof (rule phase_okI, elim exE conjE)
  fix s w pk sk m b
  assume H: "sig_demo_has L w0 3 pk sk m b s w" and m: "m = rand_bytes L (rng w0) 50"
    and kp: "sig_keypair L (Suc (rng w0)) = (pk, sk)" and le: "unat (sd_signature_len s) \<le> length b"
    and sg: "take (unat (sd_signature_len s)) b = sig_sign L (rng w0 + 2) m sk"
  from H have l: "length m = unat MESSAGE_LEN" "length pk = unat (sig_len_pk L)"
    and v: "sd_public_key s = Some pk" "sd_message s = Some m" "sd_signature s = Some b" and I: "sig_demo_inv w0 s w"
    by (simp_all add: sig_demo_has_def)
  obtain ok w1 where r: "oqs_sig_verify L m MESSAGE_LEN (Some b) (sd_signature_len s) (Some pk) w = Some (ok, w1)"
    "frame w [] [] 0 w1" "live w1 = live w" "ok \<Longrightarrow> sig_verify L m (take (unat (sd_signature_len s)) b) pk"
    "lib_up L \<Longrightarrow> sig_verify L m (take (unat (sd_signature_len s)) b) pk \<Longrightarrow> ok"
    by (rule verify_ok [OF l(1) le l(2), where w = w]) (rule that)
  have "sig_verify L m (take (unat (sd_signature_len s)) b) pk = sig_verdict L (rng w0)"
    by (simp add: sig_verdict_def kp sg m Let_def)
  moreover have "sig_demo_inv w0 s w1" using I r(3) by (simp add: sig_demo_inv_def)
  ultimately show "ends (sig_demo_inv w0) (\<lambda>s w. sig_demo_inv w0 s w \<and> sig_verdict L (rng w0)) G (sig_demo_verify L s w)"
    using r(1,4,5) G v by (simp add: sig_demo_verify_def)
qed

lemma sig_demo_phases_ok:
  assumes lib: "sig_demo_lib L" and G: "G \<longrightarrow> lib_up L \<and> sig_verdict L (rng w0)" and nul: "0 \<in> set (rand_bytes L (rng w0) 50)"
  shows "phase_ok (sig_demo_inv w0)
     (\<lambda>s w. sig_demo_inv w0 s w \<and> rng w = rng w0 \<and> sd_public_key s = None \<and> sd_secret_key s = None \<and>
        sd_message s = None \<and> sd_signature s = None) (run_phases (sig_demo_phases L))
     (\<lambda>s w. sig_demo_inv w0 s w \<and> sig_verdict L (rng w0)) G"
proof -
  from G have up: "G \<longrightarrow> lib_up L" by simp
  show ?thesis unfolding sig_demo_phases_def
    by (rule run_phases_ok_Cons [OF sig_demo_alloc_ok [OF up]], rule run_phases_ok_Cons [OF sig_demo_keypair_ok [OF lib up]],
        rule run_phases_ok_Cons [OF sig_demo_sign_ok [OF lib up nul]], rule run_phases_ok_Cons [OF sig_demo_verify_ok [OF G]],
        rule run_phases_ok_Nil) simp
qed

subsection \<open>Properties\<close>

lemma sig_demo_start:
  assumes "acquire L H_SIG w = (True, w1)"
    and "s = \<lparr>sd_sig = True, sd_public_key = None, sd_secret_key = None, sd_message = None, sd_signature = None, sd_signature_len = 0\<rparr>"
  shows "sig_demo_inv w s w1 \<and> rng w1 = rng w \<and> sd_public_key s = None \<and> sd_secret_key s = None \<and>
     sd_message s = None \<and> sd_signature s = None"
  using acquire_spec [OF assms(1)] assms(2) by (auto simp: sig_demo_inv_def sig_demo_held_def frame_def)

text \<open>When the random message contains a NUL byte, the signature demonstration always ends, releases
  everything it acquired, reports success only for a signature that verifies, and does report
  success when it verifies and no call fails.\<close>

theorem sig_demo_main_correct:
  assumes lib: "sig_demo_lib L" and nul: "0 \<in> set (rand_bytes L (rng w) 50)"
  shows "\<exists>rc w'. sig_demo_main L w = Some (rc, w') \<and> live w' = live w \<and> (rc = 0 \<or> rc = - 1) \<and>
     (rc = 0 \<longrightarrow> sig_verdict L (rng w)) \<and> (lib_up L \<and> sig_verdict L (rng w) \<longrightarrow> rc = 0)"
proof -
  obtain ok w1 where a: "acquire L H_SIG w = (ok, w1)" by fastforce
  let ?s = "\<lparr>sd_sig = True, sd_public_key = None, sd_secret_key = None, sd_message = None, sd_signature = None, sd_signature_len = 0\<rparr>"
  show ?thesis
  proof (cases ok)
    case False
    with a have "sig_demo_main L w = Some (- 1, w1)" by (simp add: sig_demo_main_def)
    with acquire_spec [OF a] False show ?thesis by auto
  next
    case True
    let ?G = "lib_up L \<and> sig_verdict L (rng w)"
    have up: "?G \<longrightarrow> lib_up L \<and> sig_verdict L (rng w)" by simp
    have "ends (sig_demo_inv w) (\<lambda>s w'. sig_demo_inv w s w' \<and> sig_verdict L (rng w)) ?G (run_phases (sig_demo_phases L) ?s w1)"
      by (rule phase_okD [OF sig_demo_phases_ok [OF lib up nul]]) (rule sig_demo_start [OF a [unfolded True [THEN eqTrueI]] refl])
    then obtain ok2 s2 w2 where
      r: "run_phases (sig_demo_phases L) ?s w1 = Some (ok2, s2, w2)" "sig_demo_inv w s2 w2"
        "ok2 \<Longrightarrow> sig_demo_inv w s2 w2 \<and> sig_verdict L (rng w)" "?G \<Longrightarrow> ok2"
      by (rule endsE) (rule that, assumption+)
    have "sig_demo_cleanup s2 w2 = Some (w2\<lparr>live := live w\<rparr>)"
      using r(2) by (simp add: sig_demo_cleanup_def oqs_free_def free_if_live sig_demo_inv_def sig_demo_held_def release_def)
        (simp add: fun_eq_iff)
    then have "sig_demo_main L w = Some (if ok2 then 0 else - 1, w2\<lparr>live := live w\<rparr>)"
      using True a r(1) by (simp add: sig_demo_main_def)
    with r(3,4) show ?thesis by (cases ok2) auto
  qed
qed

lemma sample_sig_demo_lib: "sig_demo_lib sample_lib"
  using sample_oqs_correct sample_sig_sizes(1) by (simp add: sig_demo_lib_def) (simp add: sample_lib_def)

theorem sig_demo_main_correct_witness:
  "\<exists>rc w'. sig_demo_main sample_lib (sample_world []) = Some (rc, w') \<and> live w' = live (sample_world []) \<and>
     (rc = 0 \<or> rc = - 1) \<and> (rc = 0 \<longrightarrow> sig_verdict sample_lib 0) \<and>
     (lib_up sample_lib \<and> sig_verdict sample_lib 0 \<longrightarrow> rc = 0)"
proof -
  have "rand_bytes sample_lib (rng (sample_world [])) 50 ! 0 = 0" "length (rand_bytes sample_lib (rng (sample_world [])) 50) = 50"
    by (simp_all add: sample_lib_def sample_world_def)
  then have "0 \<in> set (rand_bytes sample_lib (rng (sample_world [])) 50)"
    by (metis nth_mem zero_less_numeral)
  from sig_demo_main_correct [OF sample_sig_demo_lib this] show ?thesis by (simp add: sample_world_def)
qed

text \<open>C37: a random message without a NUL byte is printed past its end: with every call succeeding, the
  demonstration then has no defined behaviour.\<close>

theorem sig_demo_overread:
  assumes lib: "sig_demo_lib L" and up: "lib_up L" and nul: "0 \<notin> set (rand_bytes L (rng w) 50)"
  shows "sig_demo_main L w = None"
proof -
  obtain ok w1 where a: "acquire L H_SIG w = (ok, w1)" by fastforce
  have ok: "ok = True" using acquire_spec [OF a] up by simp
  let ?s = "\<lparr>sd_sig = True, sd_public_key = None, sd_secret_key = None, sd_message = None, sd_signature = None, sd_signature_len = 0\<rparr>"
  have G: "True \<longrightarrow> lib_up L" using up by simp
  have "ends (sig_demo_inv w) (\<lambda>s w'. \<exists>pk sk m b. sig_demo_has L w 0 pk sk m b s w') True (sig_demo_alloc L ?s w1)"
    by (rule phase_okD [OF sig_demo_alloc_ok [OF G]]) (rule sig_demo_start [OF a [unfolded ok] refl])
  then obtain s2 w2 where 2: "sig_demo_alloc L ?s w1 = Some (True, s2, w2)" "\<exists>pk sk m b. sig_demo_has L w 0 pk sk m b s2 w2"
    by (rule ends_TrueE)
  from phase_okD [OF sig_demo_keypair_ok [OF lib G] 2(2)] obtain s3 w3 pk sk b where
    3: "sig_demo_keypair L s2 w2 = Some (True, s3, w3)" "sig_demo_has L w 2 pk sk (rand_bytes L (rng w) 50) b s3 w3"
    by (auto elim!: ends_TrueE)
  let ?m = "rand_bytes L (rng w) 50"
  from 3(2) have l: "length ?m = unat MESSAGE_LEN" "length sk = unat (sig_len_sk L)" "length b = unat (sig_len_sig L)"
    and v: "sd_secret_key s3 = Some sk" "sd_message s3 = Some ?m" "sd_signature s3 = Some b"
    by (simp_all add: sig_demo_has_def)
  from lib have oqs: "oqs_correct L" by (simp add: sig_demo_lib_def)
  obtain b' l' w4 where r: "oqs_sig_sign L (Some b) (sd_signature_len s3) ?m MESSAGE_LEN (Some sk) w3 = Some (True, Some b', l', w4)"
    using up by (auto intro: sign_ok [OF oqs l, where l = "sd_signature_len s3" and w = w3])
  have "sig_demo_sign L s3 w3 = None" using r v nul by (simp add: sig_demo_sign_def print_cstr_def Let_def)
  then show ?thesis using a ok 2(1) 3(1) by (simp add: sig_demo_main_def sig_demo_phases_def)
qed

theorem sig_demo_overread_witness:
  "sig_demo_main (sample_lib\<lparr>rand_bytes := \<lambda>_ k. replicate k 65\<rparr>) (sample_world []) = None"
proof (rule sig_demo_overread)
  show "sig_demo_lib (sample_lib\<lparr>rand_bytes := \<lambda>_ k. replicate k 65\<rparr>)"
    using sample_sig_demo_lib by (simp add: sig_demo_lib_def oqs_correct_def sig_sizes_def)
  show "lib_up (sample_lib\<lparr>rand_bytes := \<lambda>_ k. replicate k 65\<rparr>)" using sample_lib_up by (simp add: lib_up_def)
qed simp

end
