(* ===== verification/Aes_Demo.thy ===== *)
theory Aes_Demo
  imports Common Aes_Gcm Endpoint
begin

section \<open>The AES demonstration (\<open>demo/aes_demo.c\<close>)\<close>

text \<open>
  The program has its own \<open>aes_gcm_encrypt\<close> and \<open>aes_gcm_decrypt\<close>, without additional data. They
  are modelled from its text, and proved equal to those of \<open>src/aes_gcm.c\<close> on an empty header, whose
  contracts then apply. A negative length has no defined meaning (the check of the library's
  version is missing): \<^term>\<open>None\<close>. \<open>main\<close> returns what it prints in hexadecimal and the decrypted
  text.
\<close>

definition demo_aes_gcm_encrypt ::
  "('c, 'm) lib \<Rightarrow> ptr \<Rightarrow> int \<Rightarrow> ptr \<Rightarrow> ptr \<Rightarrow> ptr \<Rightarrow> ptr \<Rightarrow> world \<Rightarrow> (int \<times> ptr \<times> ptr \<times> world) option" where
  "demo_aes_gcm_encrypt L plaintext plaintext_len key iv ciphertext tag w =
     (if plaintext = None \<or> key = None \<or> iv = None \<or> ciphertext = None \<or> tag = None
      then Some (AES_ERROR, ciphertext, tag, w)
      else do {
        let (ok, w) = acquire L H_CIPHER_CTX w;
        if \<not> ok then Some (AES_ERROR, ciphertext, tag, w)
        else do {
          let ctx = cip_new L;
          let (ok, w) = ext_call L w;
          if \<not> ok then do { w \<leftarrow> release H_CIPHER_CTX w; Some (AES_ERROR, ciphertext, tag, w) }
          else do {
            let ctx = cip_select L True ctx;
            let (ok, w) = ext_call L w;
            if \<not> ok then do { w \<leftarrow> release H_CIPHER_CTX w; Some (AES_ERROR, ciphertext, tag, w) }
            else do {
              let ctx = cip_ivlen L AES_GCM_IV_LEN ctx;
              let (ok, w) = ext_call L w;
              if \<not> ok then do { w \<leftarrow> release H_CIPHER_CTX w; Some (AES_ERROR, ciphertext, tag, w) }
              else do {
                k \<leftarrow> key;
                k \<leftarrow> rd k 0 AES_256_KEY_LEN;
                v \<leftarrow> iv;
                v \<leftarrow> rd v 0 AES_GCM_IV_LEN;
                let ctx = cip_key_iv L True k v ctx;
                p \<leftarrow> (if plaintext_len < 0 then None else plaintext);
                p \<leftarrow> rd p 0 (nat plaintext_len);
                let (out, ctx) = cip_update L True p ctx;
                let left = fresh_mem L (nat plaintext_len) w;
                let (ok, w) = ext_call L w;
                c \<leftarrow> ciphertext;
                c \<leftarrow> wr c 0 (if ok then out else left);
                if \<not> ok then do { w \<leftarrow> release H_CIPHER_CTX w; Some (AES_ERROR, Some c, tag, w) }
                else do {
                  let ciphertext_len = int (length out);
                  let (ok, w) = ext_call L w;
                  if \<not> ok then do { w \<leftarrow> release H_CIPHER_CTX w; Some (AES_ERROR, Some c, tag, w) }
                  else do {
                    let (fin, ctx) = cip_final L ctx;
                    c \<leftarrow> wr c (length out) fin;
                    let ciphertext_len = ciphertext_len + int (length fin);
                    let left = fresh_mem L AES_GCM_TAG_LEN w;
                    let (ok, w) = ext_call L w;
                    t \<leftarrow> tag;
                    t \<leftarrow> wr t 0 (if ok then cip_get_tag L AES_GCM_TAG_LEN ctx else left);
                    if \<not> ok then do { w \<leftarrow> release H_CIPHER_CTX w; Some (AES_ERROR, Some c, Some t, w) }
                    else do {
                      w \<leftarrow> release H_CIPHER_CTX w;
                      Some (ciphertext_len, Some c, Some t, w)
                    }
                  }
                }
              }
            }
          }
        }
      })"

definition demo_aes_gcm_decrypt ::
  "('c, 'm) lib \<Rightarrow> ptr \<Rightarrow> int \<Rightarrow> ptr \<Rightarrow> ptr \<Rightarrow> ptr \<Rightarrow> ptr \<Rightarrow> world \<Rightarrow> (int \<times> ptr \<times> world) option" where
  "demo_aes_gcm_decrypt L ciphertext ciphertext_len tag key iv plaintext w =
     (if ciphertext = None \<or> tag = None \<or> key = None \<or> iv = None \<or> plaintext = None
      then Some (AES_ERROR, plaintext, w)
      else do {
        let (ok, w) = acquire L H_CIPHER_CTX w;
        if \<not> ok then Some (AES_ERROR, plaintext, w)
        else do {
          let ctx = cip_new L;
          let (ok, w) = ext_call L w;
          if \<not> ok then do { w \<leftarrow> release H_CIPHER_CTX w; Some (AES_ERROR, plaintext, w) }
          else do {
            let ctx = cip_select L False ctx;
            let (ok, w) = ext_call L w;
            if \<not> ok then do { w \<leftarrow> release H_CIPHER_CTX w; Some (AES_ERROR, plaintext, w) }
            else do {
              let ctx = cip_ivlen L AES_GCM_IV_LEN ctx;
              let (ok, w) = ext_call L w;
              if \<not> ok then do { w \<leftarrow> release H_CIPHER_CTX w; Some (AES_ERROR, plaintext, w) }
              else do {
                k \<leftarrow> key;
                k \<leftarrow> rd k 0 AES_256_KEY_LEN;
                v \<leftarrow> iv;
                v \<leftarrow> rd v 0 AES_GCM_IV_LEN;
                let ctx = cip_key_iv L False k v ctx;
                c \<leftarrow> (if ciphertext_len < 0 then None else ciphertext);
                c \<leftarrow> rd c 0 (nat ciphertext_len);
                let (out, ctx) = cip_update L False c ctx;
                let left = fresh_mem L (nat ciphertext_len) w;
                let (ok, w) = ext_call L w;
                p \<leftarrow> plaintext;
                p \<leftarrow> wr p 0 (if ok then out else left);
                if \<not> ok then do { w \<leftarrow> release H_CIPHER_CTX w; Some (AES_ERROR, Some p, w) }
                else do {
                  let plaintext_len = int (length out);
                  let (ok, w) = ext_call L w;
                  if \<not> ok then do { w \<leftarrow> release H_CIPHER_CTX w; Some (AES_ERROR, Some p, w) }
                  else do {
                    t \<leftarrow> tag;
                    t \<leftarrow> rd t 0 AES_GCM_TAG_LEN;
                    let ctx = cip_set_tag L t ctx;
                    let (ok, w) = ext_call L w;
                    let ret = (if ok then cip_verify L ctx else None);
                    p \<leftarrow> (case ret of None \<Rightarrow> Some p | Some fin \<Rightarrow> wr p (length out) fin);
                    w \<leftarrow> release H_CIPHER_CTX w;
                    case ret of
                      None \<Rightarrow> Some (AES_ERROR, Some p, w)
                    | Some fin \<Rightarrow> Some (plaintext_len + int (length fin), Some p, w)
                  }
                }
              }
            }
          }
        }
      })"

subsection \<open>The program\<close>

text \<open>\<open>RAND_bytes\<close> fills a buffer or fails, leaving it indeterminate.\<close>

definition rand_fill :: "('c, 'm) lib \<Rightarrow> bytes \<Rightarrow> nat \<Rightarrow> world \<Rightarrow> (bool \<times> bytes \<times> world) option" where
  "rand_fill L buf n w =
     do {
       let (ok, w') = random_call L w;
       b \<leftarrow> wr buf 0 (if ok then rand_bytes L (rng w) n else fresh_mem L n w);
       Some (ok, b, w')
     }"

definition aes_demo_text :: bytes where
  "aes_demo_text = cstr ''Hello PQC AES-GCM''"

definition aes_demo_main :: "('c, 'm) lib \<Rightarrow> world \<Rightarrow> (int \<times> string list \<times> bytes \<times> world) option" where
  "aes_demo_main L w =
     do {
       let plaintext = aes_demo_text @ [0];
       (ok, key, w) \<leftarrow> rand_fill L (local_array 32) 32 w;
       if \<not> ok then Some (EXIT_FAILURE, [], [], w)
       else do {
         (ok, iv, w) \<leftarrow> rand_fill L (local_array 12) 12 w;
         if \<not> ok then Some (EXIT_FAILURE, [], [], w)
         else do {
           (ciphertext_len, ciphertext, tag, w) \<leftarrow> demo_aes_gcm_encrypt L (Some plaintext)
              (int (length aes_demo_text)) (Some key) (Some iv) (Some (local_array 1024)) (Some (local_array 16)) w;
           if ciphertext_len < 0 then Some (EXIT_FAILURE, [], [], w)
           else do {
             (decrypted_len, decrypted, w) \<leftarrow> demo_aes_gcm_decrypt L ciphertext ciphertext_len tag (Some key)
                (Some iv) (Some (local_array 1024)) w;
             if decrypted_len < 0 then Some (EXIT_FAILURE, [], [], w)
             else do {
               decrypted \<leftarrow> decrypted;
               decrypted \<leftarrow> wr decrypted (nat decrypted_len) [0];
               ciphertext \<leftarrow> ciphertext;
               tag \<leftarrow> tag;
               key_hex \<leftarrow> print_hex key 32;
               iv_hex \<leftarrow> print_hex iv 12;
               ciphertext_hex \<leftarrow> print_hex ciphertext (of_int ciphertext_len);
               tag_hex \<leftarrow> print_hex tag 16;
               shown \<leftarrow> print_cstr decrypted;
               Some (EXIT_SUCCESS, [key_hex, iv_hex, ciphertext_hex, tag_hex], shown, w)
             }
           }
         }
       }
     }"

subsection \<open>Against the library\<close>

lemma demo_encrypt_eq:
  "0 \<le> pl \<Longrightarrow> demo_aes_gcm_encrypt L p pl k v c t w = aes_gcm_encrypt L p pl aad 0 k v c t w"
  by (simp add: demo_aes_gcm_encrypt_def aes_gcm_encrypt_def cong: if_cong)

lemma demo_decrypt_eq:
  "0 \<le> cl \<Longrightarrow> demo_aes_gcm_decrypt L c cl t k v p w = aes_gcm_decrypt L c cl aad 0 t k v p w"
  by (simp add: demo_aes_gcm_decrypt_def aes_gcm_decrypt_def disj_commute disj_left_commute cong: if_cong)

lemma rand_fill_ok:
  assumes "\<forall>n k. length (rand_bytes L n k) = k" and "length buf = n"
  obtains ok b w' where "rand_fill L buf n w = Some (ok, b, w')" "length b = n" "live w' = live w" "lib_up L \<Longrightarrow> ok"
    "ok \<Longrightarrow> b = rand_bytes L (rng w) n" "rng w' = Suc (rng w)"
proof -
  obtain ok w' where r: "random_call L w = (ok, w')" by fastforce
  let ?b = "if ok then rand_bytes L (rng w) n else fresh_mem L n w"
  have "length ?b = length buf" using assms by simp
  then have "rand_fill L buf n w = Some (ok, ?b, w')" by (simp add: rand_fill_def r wr_all del: if_split)
  then show thesis by (rule that) (use random_call_spec [OF r] assms in \<open>auto simp: frame_def\<close>)
qed

lemma aes_demo_text_len [simp]: "length aes_demo_text = 17" "0 \<notin> set aes_demo_text"
  by (simp_all add: aes_demo_text_def cstr_def)

text \<open>Encrypting and decrypting the text, as \<open>main\<close> does.\<close>

lemma demo_encrypt_ok:
  assumes gcm: "gcm_correct L" and kv: "length k = 32" "length v = 12"
    and seal: "gcm_seal L k v [] aes_demo_text = (ct, tg)"
  obtains n c t w' where "demo_aes_gcm_encrypt L (Some (aes_demo_text @ [0])) 17 (Some k) (Some v) (Some (local_array 1024))
       (Some (local_array 16)) w = Some (n, Some c, Some t, w')" "live w' = live w" "length c = 1024" "length t = 16"
    "n = 17 \<and> take 17 c = ct \<and> t = tg \<or> n = - 1 \<and> \<not> lib_up L"
proof -
  have l: "length ct = 17" "length tg = 16"
    using gcm_seal_len [OF gcm, of k v "[]" aes_demo_text] gcm_seal_tag_len [OF gcm, of k v "[]" aes_demo_text] seal by simp_all
  have tk: "take (nat 17) (aes_demo_text @ [0]) = aes_demo_text" by simp
  have "(0 :: int) \<le> 17" "nat 17 \<le> length (aes_demo_text @ [0])" "nat 17 \<le> length (local_array 1024)" "(0 :: int) \<le> 0"
    "nat 0 \<le> length ([] :: bytes)" "32 \<le> length k" "12 \<le> length v" "16 \<le> length (local_array 16)" using kv by simp_all
  from aes_gcm_encrypt_spec [OF gcm this, of w] obtain n c t w' where
    r: "aes_gcm_encrypt L (Some (aes_demo_text @ [0])) 17 (Some []) 0 (Some k) (Some v) (Some (local_array 1024)) (Some (local_array 16)) w
      = Some (n, Some c, Some t, w')" "lib_only w w'" "length c = 1024"
    "n = 17 \<and> c = ct @ drop 17 (local_array 1024) \<and> t = tg @ drop 16 (local_array 16) \<or> n = - 1 \<and> length t = 16 \<and> \<not> lib_up L"
    unfolding tk using kv seal by auto
  show thesis
    by (rule that [of n c t w']) (use r l lib_only_frame(1) [OF r(2)] in \<open>auto simp: demo_encrypt_eq [where aad = "Some []"]\<close>)
qed

lemma demo_decrypt_ok:
  assumes gcm: "gcm_correct L" and kv: "length k = 32" "length v = 12" "length c = 1024" "length t = 16"
    and seal: "gcm_seal L k v [] aes_demo_text = (take 17 c, t)"
  obtains n p w' where "demo_aes_gcm_decrypt L (Some c) 17 (Some t) (Some k) (Some v) (Some (local_array 1024)) w =
       Some (n, Some p, w')" "live w' = live w" "length p = 1024" "n = 17 \<and> take 17 p = aes_demo_text \<or> n = - 1 \<and> \<not> lib_up L"
proof -
  have "gcm_open L k v [] (take 17 c) t = Some aes_demo_text" using gcm_open_iff [OF gcm] kv seal by simp
  moreover have "(0 :: int) \<le> 17" "nat 17 \<le> length c" "nat 17 \<le> length (local_array 1024)" "(0 :: int) \<le> 0"
    "nat 0 \<le> length ([] :: bytes)" "32 \<le> length k" "12 \<le> length v" "16 \<le> length t" using kv by simp_all
  from aes_gcm_decrypt_spec [OF gcm this, of w] obtain n p w' where
    r: "aes_gcm_decrypt L (Some c) 17 (Some []) 0 (Some t) (Some k) (Some v) (Some (local_array 1024)) w = Some (n, Some p, w')"
    "lib_only w w'" "length p = 1024"
    "n = 17 \<and> gcm_open L k v [] (take 17 c) t = Some (take 17 p) \<or>
     n = - 1 \<and> (\<not> lib_up L \<or> gcm_open L k v [] (take 17 c) t = None)"
    using kv by auto
  ultimately show thesis
    by (intro that [of n p w']) (use r lib_only_frame(1) [OF r(2)] in \<open>auto simp: demo_decrypt_eq [where aad = "Some []"]\<close>)
qed

lemma aes_demo_main_ends:
  assumes gcm: "gcm_correct L" and rand: "\<forall>n k. length (rand_bytes L n k) = k"
  shows "\<exists>ret out shown w'. aes_demo_main L w = Some (ret, out, shown, w') \<and> live w' = live w \<and>
     (ret = EXIT_SUCCESS \<and> shown = aes_demo_text \<and> length out = 4 \<or> ret = EXIT_FAILURE \<and> \<not> lib_up L)"
proof -
  obtain o1 k w1 where 1: "rand_fill L (local_array 32) 32 w = Some (o1, k, w1)" "length k = 32" "live w1 = live w" "lib_up L \<Longrightarrow> o1"
    by (rule rand_fill_ok [OF rand length_local_array, of 32 w]) (rule that)
  obtain o2 v w2 where 2: "rand_fill L (local_array 12) 12 w1 = Some (o2, v, w2)" "length v = 12" "live w2 = live w1" "lib_up L \<Longrightarrow> o2"
    by (rule rand_fill_ok [OF rand length_local_array, of 12 w1]) (rule that)
  obtain ct tg where s: "gcm_seal L k v [] aes_demo_text = (ct, tg)" by fastforce
  obtain n c t w3 where 3: "demo_aes_gcm_encrypt L (Some (aes_demo_text @ [0])) 17 (Some k) (Some v) (Some (local_array 1024))
       (Some (local_array 16)) w2 = Some (n, Some c, Some t, w3)" "live w3 = live w2" "length c = 1024" "length t = 16"
    "n = 17 \<and> take 17 c = ct \<and> t = tg \<or> n = - 1 \<and> \<not> lib_up L"
    by (rule demo_encrypt_ok [OF gcm 1(2) 2(2) s, of w2]) (rule that)
  note unf = aes_demo_main_def Let_def
  show ?thesis
  proof (cases "o1 \<and> o2 \<and> n = 17")
    case False
    then show ?thesis using 1 2 3 by (cases o1; cases o2) (auto simp: unf)
  next
    case True
    with 3(5) s have s': "gcm_seal L k v [] aes_demo_text = (take 17 c, t)" by simp
    obtain m p w4 where 4: "demo_aes_gcm_decrypt L (Some c) 17 (Some t) (Some k) (Some v) (Some (local_array 1024)) w3 =
       Some (m, Some p, w4)" "live w4 = live w3" "length p = 1024" "m = 17 \<and> take 17 p = aes_demo_text \<or> m = - 1 \<and> \<not> lib_up L"
      by (rule demo_decrypt_ok [OF gcm 1(2) 2(2) 3(3,4) s', of w3]) (rule that)
    show ?thesis
    proof (cases "m = 17")
      case False
      with 4 True 1 2 3 show ?thesis by (auto simp: unf)
    next
      case t: True
      with 4(4) have p: "take 17 p = aes_demo_text" by simp
      have "wr p 17 [0] = Some (aes_demo_text @ 0 # drop 18 p)" using 4(3) p by (simp add: wr_def)
      with t 4 True 1 2 3 show ?thesis
        by (auto simp: unf print_hex_def rd_def print_cstr_front)
    qed
  qed
qed

subsection \<open>Properties\<close>

text \<open>C38: the demonstration's own AES-256-GCM functions are the library's: on every non-negative
  length they do exactly what \<open>aes_gcm_encrypt\<close> and \<open>aes_gcm_decrypt\<close> of \<open>src/aes_gcm.c\<close> do with an
  empty header, in result, buffers and calls.\<close>

theorem aes_demo_same_cipher:
  assumes "0 \<le> n"
  shows "demo_aes_gcm_encrypt L p n k v c t w = aes_gcm_encrypt L p n None 0 k v c t w \<and>
     demo_aes_gcm_decrypt L c n t k v p w = aes_gcm_decrypt L c n None 0 t k v p w"
  by (intro conjI demo_encrypt_eq demo_decrypt_eq assms)

theorem aes_demo_same_cipher_witness:
  "demo_aes_gcm_encrypt sample_lib (Some [1, 2, 3]) 3 (Some (replicate 32 7)) (Some (replicate 12 8))
       (Some [0, 0, 0]) (Some (replicate 16 0)) (sample_world []) =
     aes_gcm_encrypt sample_lib (Some [1, 2, 3]) 3 None 0 (Some (replicate 32 7)) (Some (replicate 12 8))
       (Some [0, 0, 0]) (Some (replicate 16 0)) (sample_world []) \<and>
   demo_aes_gcm_decrypt sample_lib (Some [0, 0, 0]) 3 (Some (replicate 16 0)) (Some (replicate 32 7))
       (Some (replicate 12 8)) (Some [1, 2, 3]) (sample_world []) =
     aes_gcm_decrypt sample_lib (Some [0, 0, 0]) 3 None 0 (Some (replicate 16 0)) (Some (replicate 32 7))
       (Some (replicate 12 8)) (Some [1, 2, 3]) (sample_world [])"
  by (rule aes_demo_same_cipher) simp

text \<open>The AES demonstration always ends with its cipher contexts freed; it succeeds exactly when every
  call does, and then the text it prints as decrypted is the text it encrypted.\<close>

theorem aes_demo_main_correct:
  assumes "gcm_correct L" and "\<forall>n k. length (rand_bytes L n k) = k"
  shows "\<exists>ret out shown w'. aes_demo_main L w = Some (ret, out, shown, w') \<and> live w' = live w \<and>
     (ret = EXIT_SUCCESS \<and> shown = aes_demo_text \<and> length out = 4 \<or> ret = EXIT_FAILURE \<and> \<not> lib_up L)"
  by (rule aes_demo_main_ends [OF assms])

theorem aes_demo_main_correct_witness:
  "\<exists>out w'. aes_demo_main sample_lib (sample_world []) = Some (EXIT_SUCCESS, out, aes_demo_text, w') \<and>
     live w' = live (sample_world [])"
proof -
  have "\<forall>n k. length (rand_bytes sample_lib n k) = k" by (simp add: sample_lib_def)
  from aes_demo_main_correct [OF sample_gcm_correct this, of "sample_world []"] sample_lib_up show ?thesis by auto
qed

end
