(* ===== verification/Hkdf_Demo.thy ===== *)
theory Hkdf_Demo
  imports Common Kdf Endpoint
begin

section \<open>The HKDF demonstration (\<open>demo/hkdf_demo.c\<close>)\<close>

text \<open>
  The program derives 42 bytes from the input key of the first test case of RFC 5869 and compares
  them with that case's output. But \<open>derive_aes256_key_hkdf\<close> has its own salt and info, not those
  of the test case.
\<close>

definition hkdf_demo_ikm :: bytes where
  "hkdf_demo_ikm = replicate 22 0x0b"

definition hkdf_demo_okm :: bytes where
  "hkdf_demo_okm = [
     0x3c, 0xb2, 0x5f, 0x25, 0xfa, 0xac, 0xd5, 0x7a, 0x90, 0x43, 0x4f, 0x64,
     0xd0, 0x36, 0x2f, 0x2a, 0x2d, 0x2d, 0x0a, 0x90, 0xcf, 0x1a, 0x5a, 0x4c,
     0x5d, 0xb0, 0x2d, 0x56, 0xec, 0xc4, 0xc5, 0xbf, 0x34, 0x00, 0x72, 0x08,
     0xd5, 0xb8, 0x87, 0x18, 0x58, 0x65]"

definition hkdf_demo_main :: "('c, 'm) lib \<Rightarrow> world \<Rightarrow> (int \<times> string \<times> world) option" where
  "hkdf_demo_main L w =
     do {
       (rc, aes_key, w) \<leftarrow> derive_aes256_key_hkdf L (Some hkdf_demo_ikm) (of_nat (length hkdf_demo_ikm))
          (Some (local_array 42)) 42 w;
       aes_key \<leftarrow> aes_key;
       if rc \<noteq> 0 then Some (EXIT_FAILURE, [], w)
       else do {
         k \<leftarrow> rd aes_key 0 (length hkdf_demo_okm);
         if hkdf_demo_okm \<noteq> k then Some (EXIT_FAILURE, [], w)
         else do {
           h \<leftarrow> print_hex aes_key 42;
           Some (EXIT_SUCCESS, ''AES Key: '' @ [CHR 0x0A] @ h, w)
         }
       }
     }"

text \<open>The parameters the demonstration derives with, and those of the test case.\<close>

definition hkdf_demo_params :: "kdf_param list" where
  "hkdf_demo_params = [P_DIGEST ''SHA256'', P_KEY hkdf_demo_ikm, P_INFO hkdf_info, P_SALT hkdf_salt]"

definition rfc_params :: "kdf_param list" where
  "rfc_params = [P_DIGEST ''SHA256'', P_KEY hkdf_demo_ikm,
     P_INFO [0xf0, 0xf1, 0xf2, 0xf3, 0xf4, 0xf5, 0xf6, 0xf7, 0xf8, 0xf9],
     P_SALT [0, 1, 2, 3, 4, 5, 6, 7, 8, 9, 0x0a, 0x0b, 0x0c]]"

lemma hkdf_demo_len [simp]: "length hkdf_demo_ikm = 22" "length hkdf_demo_okm = 42"
  by (simp_all add: hkdf_demo_ikm_def hkdf_demo_okm_def)

lemma hkdf_demo_ends:
  assumes "kdf_correct L"
  shows "\<exists>ret out w'. hkdf_demo_main L w = Some (ret, out, w') \<and> lib_only w w' \<and>
     (ret = EXIT_SUCCESS \<and> kdf_derive L hkdf_demo_params 42 = hkdf_demo_okm \<or>
      ret = EXIT_FAILURE \<and> \<not> (lib_up L \<and> kdf_derive L hkdf_demo_params 42 = hkdf_demo_okm))"
proof -
  have "unat (22 :: size_t) \<le> length hkdf_demo_ikm" "(42 :: size_t) \<noteq> 0" "length (local_array 42) = unat (42 :: size_t)" by simp_all
  from aes_kdf.derive_exact [OF assms, of "(hkdf_demo_ikm, 22)", OF _ this(2,3), of w] this(1) obtain rc k w' where
    r: "derive_aes256_key_hkdf L (Some hkdf_demo_ikm) 22 (Some (local_array 42)) 42 w = Some (rc, Some k, w')"
    "lib_only w w'" "length k = 42" "rc = 0 \<and> k = kdf_derive L hkdf_demo_params 42 \<or> rc = - 1 \<and> \<not> lib_up L"
    by (auto simp: hkdf_demo_params_def)
  have rd: "rd k 0 42 = Some k" using r(3) by (simp add: rd_def)
  show ?thesis
  proof (cases "rc = 0 \<and> hkdf_demo_okm = k")
    case True
    with r rd show ?thesis by (auto simp: hkdf_demo_main_def print_hex_def)
  next
    case False
    with r rd show ?thesis by (cases "rc = 0") (auto simp: hkdf_demo_main_def)
  qed
qed

subsection \<open>Properties\<close>

text \<open>The HKDF demonstration always ends with its handles freed; it succeeds exactly when the derivation
  succeeds and yields the expected output.\<close>

theorem hkdf_demo_main_correct:
  assumes "kdf_correct L"
  shows "\<exists>ret out w'. hkdf_demo_main L w = Some (ret, out, w') \<and> live w' = live w \<and>
     (ret = EXIT_SUCCESS \<and> kdf_derive L hkdf_demo_params 42 = hkdf_demo_okm \<or>
      ret = EXIT_FAILURE \<and> \<not> (lib_up L \<and> kdf_derive L hkdf_demo_params 42 = hkdf_demo_okm))"
  using hkdf_demo_ends [OF assms, of w] lib_only_frame(1) by blast

theorem hkdf_demo_main_correct_witness:
  "\<exists>ret out w'. hkdf_demo_main sample_lib (sample_world []) = Some (ret, out, w') \<and> live w' = live (sample_world []) \<and>
     (ret = EXIT_SUCCESS \<and> kdf_derive sample_lib hkdf_demo_params 42 = hkdf_demo_okm \<or>
      ret = EXIT_FAILURE \<and> \<not> (lib_up sample_lib \<and> kdf_derive sample_lib hkdf_demo_params 42 = hkdf_demo_okm))"
  by (rule hkdf_demo_main_correct [OF sample_kdf_correct])

text \<open>C39: the demonstration compares against the wrong constant: given that HKDF maps the RFC's parameters to
  the RFC's output, its success would be a collision of HKDF, two different salts and infos with the
  same output.\<close>

theorem hkdf_demo_needs_collision:
  assumes "kdf_correct L" and "kdf_derive L rfc_params 42 = hkdf_demo_okm"
    and "hkdf_demo_main L w = Some (EXIT_SUCCESS, out, w')"
  shows "collision (\<lambda>ps. kdf_derive L ps 42) rfc_params hkdf_demo_params"
  using hkdf_demo_ends [OF assms(1), of w] assms(2,3)
  by (auto simp: collision_def rfc_params_def hkdf_demo_params_def hkdf_info_def cstr_def)

theorem hkdf_demo_needs_collision_witness:
  "collision (\<lambda>ps. kdf_derive (sample_lib\<lparr>kdf_derive := \<lambda>_ n. take n (hkdf_demo_okm @ replicate n 0)\<rparr>) ps 42)
     rfc_params hkdf_demo_params"
proof -
  let ?L = "sample_lib\<lparr>kdf_derive := \<lambda>_ n. take n (hkdf_demo_okm @ replicate n 0)\<rparr>"
  have k: "kdf_correct ?L" by (auto simp: kdf_correct_def min_def)
  have e: "kdf_derive ?L ps 42 = hkdf_demo_okm" for ps by simp
  have "lib_up ?L" using sample_lib_up by (simp add: lib_up_def)
  with hkdf_demo_ends [OF k, of "sample_world []"] e obtain out w' where
    "hkdf_demo_main ?L (sample_world []) = Some (EXIT_SUCCESS, out, w')" by auto
  from hkdf_demo_needs_collision [OF k e this] show ?thesis .
qed

end
