(* ===== verification/Spec2Isabelle.thy ===== *)
theory Spec2Isabelle
  imports Agreement Dsa_Keygen Kem_Demo Sig_Demo Aes_Demo Hkdf_Demo
begin

text \<open>
  Verification of \<open>pqc_demo\<close>, an educational TLS-like channel in C: ML-KEM key exchange, ML-DSA
  authentication, a SHA-256 transcript, Finished values by HKDF and HMAC, and AES-256-GCM records
  over TCP. Source paths are relative to \<open>src/pqc_demo\<close>.

  The program and its model.
  The program has a client (\<open>network/secure_client.c\<close>) and a server (\<open>network/secure_server.c\<close>), built on
  the components of \<open>src/\<close>; a tool that generates the server's key pair (\<open>tools/\<close>) and four
  demonstrations (\<open>demo/\<close>). Every function is a HOL function on an explicit \<open>world\<close> (theory \<open>Env\<close>):
  the bytes still to be received, the bytes sent, a schedule that decides for every \<open>send\<close> and \<open>recv\<close>
  whether it fails and how many bytes it moves, whether a \<open>send\<close> raised \<open>SIGPIPE\<close>, the number of library calls so far, the number of
  random draws, the live handles of each kind, and the files. OpenSSL and liboqs are the record \<open>lib\<close>,
  a parameter of all definitions: which calls succeed, and what they compute. \<^term>\<open>None\<close> stands for
  undefined behaviour (an access outside a buffer, a handle freed twice) and for a \<open>recv\<close> that blocks for ever;
  so every theorem that a function returns \<open>Some\<close> says it is free of both. Buffers are byte
  lists, a pointer that may be \<open>NULL\<close> is an option, lengths are 64-bit words with their
  wrap-around, the results of the C functions are integers. No definition needs fuel: the transfer
  loops recurse on the bytes left.

  Theories, in the order of the imports.
    \<open>C_Prelude\<close>, \<open>Env\<close>, \<open>Sample\<close>: bytes, words, buffers; the world and the libraries; an executable instance of
      the parameters on which the witnesses run.
    \<open>Wire\<close>: the interfaces between components as locales (byte sinks, byte sources, prefix codes) and what
      follows from their laws.
    \<open>Common\<close> (\<open>src/common.c\<close>): \<open>send_all\<close>, \<open>recv_all\<close>, \<open>print_hex\<close>; they interpret the sinks and sources.
    \<open>Tls_Handshake\<close> (\<open>src/tls_handshake.c\<close>): framing of handshake messages; interprets the prefix code.
    \<open>Tls_Transcript\<close> (\<open>src/tls_transcript.c\<close>): the running hash, which refines the list of absorbed messages.
    \<open>Kdf\<close> (\<open>src/kdf.c\<close>), \<open>Tls_Key_Schedule\<close> (\<open>src/tls_key_schedule.c\<close>), \<open>Tls_Finished\<close>
      (\<open>src/tls_finished.c\<close>): the derivations, each an interpretation of the locale \<open>key_derivation\<close>.
    \<open>Aes_Gcm\<close> (\<open>src/aes_gcm.c\<close>), \<open>Tls_Record\<close> (\<open>src/tls_record.c\<close>): sealing, opening, records, sequence numbers.
    \<open>Sig_Utils\<close> (\<open>src/sig_utils.c\<close>): key files.
    \<open>Endpoint\<close>: what the programs with \<open>goto end\<close> share: the liboqs calls, phases with a total-correctness triple
      \<open>phase_ok\<close> (it returns, the invariant holds however it ended, the postcondition when it goes on, and it
      goes on in an honest run), frames that say what was read and written, and the contracts in this form.
    \<open>Protocol\<close>: the handshake abstractly: messages, Finished values, keys and the two byte streams as functions of
      one record \<open>handshake\<close>; this is the specification that both programs refine.
    \<open>Session\<close>: locales for a side of the session (transcript, Finished values, keys, records).
    \<open>Secure_Server\<close>, \<open>Server_Setup\<close>, \<open>Server_Session\<close>, \<open>Server_Run\<close>: the server; its local variables are a
      record, each numbered block of \<open>main\<close> is a phase, \<open>server_end\<close> is the label \<open>end\<close>.
    \<open>Secure_Client\<close>, \<open>Client_Setup\<close>, \<open>Client_Session\<close>, \<open>Client_Run\<close>: the client likewise. Both interpret the
      locales of \<open>Session\<close> on their own states.
    \<open>Agreement\<close>: a client's and a server's run against each other.
    \<open>Dsa_Keygen\<close> (\<open>tools/generate_dsa_keypair.c\<close>), \<open>Kem_Demo\<close>, \<open>Sig_Demo\<close>, \<open>Aes_Demo\<close>, \<open>Hkdf_Demo\<close>
      (\<open>demo/\<close>): the tool and the demonstrations.

  What is proved.
  For the whole programs: each ends for every input, every pattern of failing calls and every
  schedule of transfers, provided the peer closes at last: with an exit code, every resource freed once
  and the variable \<open>application_keys\<close> wiped, or killed by \<open>SIGPIPE\<close> in a \<open>send\<close>; each succeeds only after a session in which signature, Finished
  value and record are those of the very handshake it took part in, and has then read and written exactly the
  two streams of that handshake; each succeeds with an honest peer. For both together: an honest pair
  completes; two successful runs joined by a faithful channel have the same handshake and keys; when
  the bytes to the client were tampered with, two successes imply the same handshake or an
  explicit collision; the signature fixes key, ciphertext, certificate and secret; freshly generated keys work.
  For the components: round trips and injectivity of the encodings, equivalence with reference
  functions, refinement of the transcript, nonce reuse and its bounds, error paths.
  Cryptographic strength is never assumed: where a statement rests on it, the conclusion has the explicit
  alternative of a collision or a forgery.

  Hypotheses. \<open>library_correct\<close>: documented laws of OpenSSL and liboqs (the digest is a function of the
  concatenated input, outputs have the announced sizes, decryption succeeds exactly on what encryption
  produces). \<open>kem_correct\<close>, \<open>sig_correct\<close>: a KEM decapsulates what was encapsulated, signatures verify.
  \<open>lib_up\<close>, \<open>io_fine\<close>: no call fails, every transfer moves at least a byte; only for honest runs.
  \<open>peer_closed\<close>: the peer closes after its last byte; otherwise a \<open>recv\<close> may block.
  Each is satisfied by the instance of theory \<open>Sample\<close>.

  \<open>SIGPIPE\<close>. The programs call \<open>send\<close> without \<open>MSG_NOSIGNAL\<close> and leave the disposition of the signal as
  they inherit it. The functions compute what happens when it is ignored (\<open>send\<close> returns -1) and record in
  \<open>broken_pipe\<close> that it was raised; \<open>server_process\<close> and \<open>client_process\<close> give what becomes of the
  process for either disposition: under the default one it dies at that \<open>send\<close>, without cleanup. The
  theorems about an exit code of \<open>server_main\<close> or \<open>client_main\<close> are about processes that exit.

  Failing calls. What a library call that fails leaves in its output is arbitrary bytes where the
  documentation does not say (\<open>EVP_DigestFinal_ex\<close>, \<open>HMAC\<close>, \<open>EVP_KDF_derive\<close>, the cipher updates, the tag, the calls of liboqs).
  The finalisation of a digest uses its context up: \<open>transcript_get_hash\<close> returns the transcript, and it is
  proved that only the copy was finalised.

  Memory that is not wiped. Both programs wipe the variable \<open>application_keys\<close> only: the record states
  \<open>send_state\<close> and \<open>recv_state\<close> of the final state still hold the keys, as the theorems about accepted
  sessions show.

  Not modelled. Messages on the terminal, apart from the verdicts of the demonstrations and \<open>print_hex\<close>, which
  have no effect on the session. The contents of stack memory after a function returned, except the
  Finished key. The time a call takes. The internals of OpenSSL, liboqs and the operating system, which are
  parameters. The interleaving of the two programs in time: each is a function of the bytes it
  receives, and a pair of runs is related by its two streams. \<open>Makefile\<close>, \<open>README.md\<close> and the sample
  key files have no behaviour of their own.
\<close>

section \<open>The development as a whole\<close>

lemma fresh_key_files:
  assumes sizes: "sig_sizes L" and up: "lib_up L" and run: "keygen_main L wk = Some (ret, wk')"
    and "files ws SECRET_KEY_FILE = files wk' KEYGEN_SECRET_FILE"
    and "files ws PUBLIC_KEY_FILE = files wk' KEYGEN_PUBLIC_FILE"
  shows "ret = EXIT_SUCCESS"
    "key_file ws SECRET_KEY_FILE (unat (sig_len_sk L)) = Some (snd (sig_keypair L (rng wk)))"
    "key_file ws PUBLIC_KEY_FILE (unat (sig_len_pk L)) = Some (fst (sig_keypair L (rng wk)))"
proof -
  have "True \<longrightarrow> lib_up L" using up by simp
  from keygen_main_ends [OF sizes this, of wk] run have r: "ret = EXIT_SUCCESS" "keygen_saved L wk wk'" by auto
  moreover have "KEYGEN_SECRET_FILE \<noteq> KEYGEN_PUBLIC_FILE" by (simp add: KEYGEN_SECRET_FILE_def KEYGEN_PUBLIC_FILE_def)
  ultimately have f: "files wk' KEYGEN_SECRET_FILE = Some (snd (sig_keypair L (rng wk)))"
    "files wk' KEYGEN_PUBLIC_FILE = Some (fst (sig_keypair L (rng wk)))"
    using up by (auto simp: keygen_saved_def)
  show "ret = EXIT_SUCCESS" by (rule r(1))
  show "key_file ws SECRET_KEY_FILE (unat (sig_len_sk L)) = Some (snd (sig_keypair L (rng wk)))"
    "key_file ws PUBLIC_KEY_FILE (unat (sig_len_pk L)) = Some (fst (sig_keypair L (rng wk)))"
    using assms(4,5) f sizes by (simp_all add: key_file_def sig_sizes_def)
qed

text \<open>C11: the tools and the two programs fit together: when no call fails, the key generator succeeds, a
  server that is given copies of the two files it wrote loads exactly the generated pair, and the server and
  an honest client complete a session that is certified by the generated public key.\<close>

theorem fresh_keys_session:
  assumes lib: "library_correct L sha256" and kem: "kem_correct L" and sizes: "sig_sizes L"
    and pairs: "\<forall>n. sig_correct L (snd (sig_keypair L n)) (fst (sig_keypair L n))" and up: "lib_up L"
    and run: "keygen_main L wk = Some (ret, wk')"
    and copied: "files ws SECRET_KEY_FILE = files wk' KEYGEN_SECRET_FILE"
      "files ws PUBLIC_KEY_FILE = files wk' KEYGEN_PUBLIC_FILE"
    and wc: "peer_closed wc" "io_fine wc" "outbox wc = []"
    and ws: "peer_closed ws" "io_fine ws" "outbox ws = []"
    and h: "h = server_view L sha256 (rng ws) (snd (sig_keypair L (rng wk))) (fst (sig_keypair L (rng wk)))
        (fst (kem_keypair L (rng wc)))"
    and inb: "inbox wc = server_stream L sha256 h server_message" "inbox ws = client_stream L sha256 h client_message"
  shows "ret = EXIT_SUCCESS \<and> (\<exists>sc wc' ss ws'. client_main L wc = Some (EXIT_SUCCESS, sc, wc') \<and>
     server_main L ws = Some (EXIT_SUCCESS, ss, ws') \<and> client_accepted L sha256 wc h server_message sc wc' \<and>
     hv_cert h = fst (sig_keypair L (rng wk)) \<and> outbox wc' = inbox ws \<and> outbox ws' = inbox wc)"
proof -
  note f = fresh_key_files [OF sizes up run copied]
  obtain sc wc' ss ws' where r: "client_main L wc = Some (EXIT_SUCCESS, sc, wc')" "server_main L ws = Some (EXIT_SUCCESS, ss, ws')"
    and c: "client_accepted L sha256 wc h server_message sc wc'"
    and s: "server_accepted L sha256 ws (snd (sig_keypair L (rng wk))) (fst (sig_keypair L (rng wk))) (hv_pk h) client_message ss ws'"
    using honest_runs [OF lib kem pairs [rule_format] up wc ws f(2,3) h inb] by blast
  have "h = server_view_of L sha256 ws (snd (sig_keypair L (rng wk))) (fst (sig_keypair L (rng wk))) (hv_pk h)" by (simp add: h)
  then have "outbox wc' = inbox ws" "outbox ws' = inbox wc"
    using c s wc(3) ws(3) inb by (simp_all add: client_accepted_def server_accepted_def Let_def frame_def)
  moreover have "hv_cert h = fst (sig_keypair L (rng wk))" by (simp add: h)
  ultimately show ?thesis using r c f(1) by blast
qed

definition fresh_view :: handshake where
  "fresh_view = server_view sample_lib (pad 32) 0 [0, 2, 3] [0, 2, 3] [1, 0]"

definition fresh_server :: "(string \<Rightarrow> bytes option) \<Rightarrow> world" where
  "fresh_server fs = (sample_world (client_stream sample_lib (pad 32) fresh_view client_message))
     \<lparr>files := [SECRET_KEY_FILE \<mapsto> the (fs KEYGEN_SECRET_FILE), PUBLIC_KEY_FILE \<mapsto> the (fs KEYGEN_PUBLIC_FILE)]\<rparr>"

theorem fresh_keys_session_witness:
  "\<exists>ret wk' sc wc' ss ws'. keygen_main sample_lib (sample_world []) = Some (ret, wk') \<and> ret = EXIT_SUCCESS \<and>
     client_main sample_lib (sample_world (server_stream sample_lib (pad 32) fresh_view server_message)) =
       Some (EXIT_SUCCESS, sc, wc') \<and>
     server_main sample_lib (fresh_server (files wk')) = Some (EXIT_SUCCESS, ss, ws')"
proof -
  let ?wc = "sample_world (server_stream sample_lib (pad 32) fresh_view server_message)"
  have "True \<longrightarrow> lib_up sample_lib" using sample_lib_up by simp
  from keygen_main_ends [OF sample_sig_sizes(1) this, of "sample_world []"] obtain ret wk' where
    k: "keygen_main sample_lib (sample_world []) = Some (ret, wk')" "keygen_saved sample_lib (sample_world []) wk'" by auto
  have rng: "rng (sample_world x) = 0" for x by (simp add: sample_world_def)
  have fs: "files wk' KEYGEN_SECRET_FILE \<noteq> None" "files wk' KEYGEN_PUBLIC_FILE \<noteq> None"
    using k(2) by (auto simp: keygen_saved_def)
  have ws: "peer_closed (fresh_server (files wk'))" "io_fine (fresh_server (files wk'))" "outbox (fresh_server (files wk')) = []"
    "files (fresh_server (files wk')) SECRET_KEY_FILE = files wk' KEYGEN_SECRET_FILE"
    "files (fresh_server (files wk')) PUBLIC_KEY_FILE = files wk' KEYGEN_PUBLIC_FILE"
    using sample_world_fine fs by (auto simp: fresh_server_def io_fine_def sample_world_def)
  have view: "fresh_view = server_view sample_lib (pad 32) (rng (fresh_server (files wk')))
      (snd (sig_keypair sample_lib (rng (sample_world [])))) (fst (sig_keypair sample_lib (rng (sample_world []))))
      (fst (kem_keypair sample_lib (rng ?wc)))"
    by (simp add: fresh_view_def fresh_server_def rng)
  have pairs: "\<forall>n. sig_correct sample_lib (snd (sig_keypair sample_lib n)) (fst (sig_keypair sample_lib n))"
    by (simp add: sample_sig_correct)
  have inb: "inbox ?wc = server_stream sample_lib (pad 32) fresh_view server_message"
    "inbox (fresh_server (files wk')) = client_stream sample_lib (pad 32) fresh_view client_message"
    by (simp_all add: fresh_server_def)
  from fresh_keys_session [OF sample_library_correct sample_kem_correct sample_sig_sizes(1) pairs sample_lib_up k(1) ws(4,5)
      sample_world_sel(3) sample_world_fine sample_world_sel(2) ws(1-3) view inb] k(1)
  show ?thesis by blast
qed

end
